(* ===== verification/Prelude.thy ===== *)
theory Prelude
  imports Main "HOL-Library.Word" "HOL-Library.Char_ord" "HOL-Library.List_Lexorder"
begin

text \<open>
  The prelude of the development: the types every component shares (bytes, strings as byte
  lists, HTTP header maps, results with an error), the operations of Go's \<open>strings\<close>
  package that the sources call with a one-byte separator or a literal prefix, and the
  generic list lemmas the component proofs use.

  A Go string is a sequence of bytes, so it is a \<open>string\<close> here (a list of 8-bit
  characters), and \<open><\<close> on strings is the bytewise lexicographic order of Go's
  \<open>sort.Strings\<close>.
\<close>

type_synonym byte = "8 word"
type_synonym rune = int
type_synonym header = "string \<rightharpoonup> string list"
type_synonym ('e, 'a) res = "'e + 'a"

named_theorems gostr_simps \<open>equations of the string operations on the shapes the proofs meet\<close>
named_theorems index_simps \<open>equations of the host index and of the tree it is compiled from\<close>
named_theorems table_simps \<open>equations of the address/mask table\<close>

subsection \<open>Results with an error\<close>

definition bindR :: "('e, 'a) res \<Rightarrow> ('a \<Rightarrow> ('e, 'b) res) \<Rightarrow> ('e, 'b) res" where
  "bindR r f = (case r of Inl e \<Rightarrow> Inl e | Inr a \<Rightarrow> f a)"

lemma bindR_simps [simp]:
  "bindR (Inl e) f = Inl e"
  "bindR (Inr a) f = f a"
  by (simp_all add: bindR_def)

lemma bindR_Inr_iff: "bindR r f = Inr b \<longleftrightarrow> (\<exists>a. r = Inr a \<and> f a = Inr b)"
  by (cases r) auto

lemma bindR_InrE [elim!]:
  assumes "bindR r f = Inr b"
  obtains a where "r = Inr a" and "f a = Inr b"
  using assms by (cases r) auto

text \<open>A loop that appends one result per element and stops at the first error.\<close>

fun mapR :: "('a \<Rightarrow> ('e, 'b) res) \<Rightarrow> 'a list \<Rightarrow> ('e, 'b list) res" where
  "mapR f [] = Inr []"
| "mapR f (x # xs) = bindR (f x) (\<lambda>y. bindR (mapR f xs) (\<lambda>ys. Inr (y # ys)))"

lemma mapR_Inr_iff: "mapR f xs = Inr ys \<longleftrightarrow> list_all2 (\<lambda>x y. f x = Inr y) xs ys"
proof (induction xs arbitrary: ys)
  case Nil
  then show ?case by auto
next
  case (Cons x xs)
  then show ?case
    by (cases ys) (auto simp: bindR_Inr_iff)
qed

lemma mapR_length: "mapR f xs = Inr ys \<Longrightarrow> length ys = length xs"
  by (auto simp: mapR_Inr_iff dest: list_all2_lengthD)

lemma mapR_nth: "mapR f xs = Inr ys \<Longrightarrow> i < length xs \<Longrightarrow> f (xs ! i) = Inr (ys ! i)"
  by (auto simp: mapR_Inr_iff dest: list_all2_nthD)

lemma mapR_set: "mapR f xs = Inr ys \<Longrightarrow> y \<in> set ys \<Longrightarrow> \<exists>x \<in> set xs. f x = Inr y"
  by (auto simp: mapR_Inr_iff list_all2_conv_all_nth in_set_conv_nth) (metis nth_mem)

subsection \<open>Strings with a one-byte separator\<close>

definition HasPrefix :: "string \<Rightarrow> string \<Rightarrow> bool" where
  "HasPrefix s p \<longleftrightarrow> take (length p) s = p"

definition HasSuffix :: "string \<Rightarrow> string \<Rightarrow> bool" where
  "HasSuffix s p \<longleftrightarrow> length p \<le> length s \<and> drop (length s - length p) s = p"

definition TrimPrefix :: "string \<Rightarrow> string \<Rightarrow> string" where
  "TrimPrefix s p = (if HasPrefix s p then drop (length p) s else s)"

definition TrimSuffix :: "string \<Rightarrow> string \<Rightarrow> string" where
  "TrimSuffix s p = (if HasSuffix s p then take (length s - length p) s else s)"

definition CutPrefix :: "string \<Rightarrow> string \<Rightarrow> string option" where
  "CutPrefix s p = (if HasPrefix s p then Some (drop (length p) s) else None)"

text \<open>\<open>strings.Cut\<close>: the parts around the first separator, if there is one.\<close>

fun Cut :: "string \<Rightarrow> char \<Rightarrow> (string \<times> string) option" where
  "Cut [] c = None"
| "Cut (x # xs) c =
     (if x = c then Some ([], xs)
      else map_option (\<lambda>(a, b). (x # a, b)) (Cut xs c))"

text \<open>\<open>strings.Split\<close> with a one-byte separator; never the empty list.\<close>

fun Split :: "string \<Rightarrow> char \<Rightarrow> string list" where
  "Split [] c = [[]]"
| "Split (x # xs) c =
     (if x = c then [] # Split xs c
      else (case Split xs c of [] \<Rightarrow> [[x]] | y # ys \<Rightarrow> (x # y) # ys))"

fun Join :: "string list \<Rightarrow> string \<Rightarrow> string" where
  "Join [] sep = []"
| "Join [x] sep = x"
| "Join (x # y # ys) sep = x @ sep @ Join (y # ys) sep"

text \<open>\<open>strings.LastIndexByte\<close>: -1 when the byte does not occur.\<close>

fun LastIndexByte :: "string \<Rightarrow> char \<Rightarrow> int" where
  "LastIndexByte [] c = -1"
| "LastIndexByte (x # xs) c =
     (let i = LastIndexByte xs c in if 0 \<le> i then i + 1 else if x = c then 0 else -1)"

text \<open>Half-open slices \<open>s[i:j]\<close> of a string or a list, for \<open>i \<le> j \<le> len\<close>.\<close>

definition slice :: "'a list \<Rightarrow> nat \<Rightarrow> nat \<Rightarrow> 'a list" where
  "slice xs i j = take (j - i) (drop i xs)"

lemma HasPrefix_iff: "HasPrefix s p \<longleftrightarrow> (\<exists>t. s = p @ t)"
  by (metis HasPrefix_def append_eq_conv_conj append_take_drop_id)

lemma HasSuffix_iff: "HasSuffix s p \<longleftrightarrow> (\<exists>t. s = t @ p)"
proof
  assume "HasSuffix s p"
  then have "s = take (length s - length p) s @ p"
    by (metis HasSuffix_def append_take_drop_id)
  then show "\<exists>t. s = t @ p" by blast
qed (auto simp: HasSuffix_def)

lemma TrimSuffix_append [gostr_simps]: "TrimSuffix (t @ p) p = t"
  by (simp add: TrimSuffix_def HasSuffix_def)

lemma TrimPrefix_append [gostr_simps]: "TrimPrefix (p @ t) p = t"
  by (simp add: TrimPrefix_def HasPrefix_def)

lemma TrimSuffix_last:
  assumes "s = [] \<or> last s \<noteq> c"
  shows "TrimSuffix s [c] = s"
proof -
  have "\<not> HasSuffix s [c]"
    using assms by (auto simp: HasSuffix_iff)
  then show ?thesis by (simp add: TrimSuffix_def)
qed

lemma CutPrefix_Some: "CutPrefix s p = Some t \<longleftrightarrow> s = p @ t"
  by (auto simp: CutPrefix_def HasPrefix_iff)

lemma Split_not_Nil [simp]: "Split s c \<noteq> []"
  by (induction s c rule: Split.induct) (auto split: list.splits)

lemma Split_no_sep: "c \<notin> set s \<Longrightarrow> Split s c = [s]"
  by (induction s) auto

lemma Split_append_sep [gostr_simps]:
  "Split (s @ c # t) c = Split s c @ Split t c"
  by (induction s) (auto split: list.splits)

lemma Split_labels_no_sep: "l \<in> set (Split s c) \<Longrightarrow> c \<notin> set l"
proof (induction s c arbitrary: l rule: Split.induct)
  case (2 x xs c)
  obtain y ys where "Split xs c = y # ys" by (cases "Split xs c") auto
  with 2 show ?case by (auto split: if_splits)
qed simp

lemma Join_append:
  "xs \<noteq> [] \<Longrightarrow> ys \<noteq> [] \<Longrightarrow> Join (xs @ ys) sep = Join xs sep @ sep @ Join ys sep"
proof (induction xs sep rule: Join.induct)
  case (2 x sep)
  then show ?case by (cases ys) auto
qed auto

lemma Join_Split: "Join (Split s c) [c] = s"
proof (induction s c rule: Split.induct)
  case (2 x xs c)
  obtain y ys where ys: "Split xs c = y # ys" by (cases "Split xs c") auto
  then show ?case using 2 by (cases ys) auto
qed simp

lemma Split_Join:
  assumes "ls \<noteq> []" and "\<forall>l \<in> set ls. c \<notin> set l"
  shows "Split (Join ls [c]) c = ls"
  using assms
proof (induction ls "[c]" rule: Join.induct)
  case (3 x y ys)
  then have "Split (x @ c # Join (y # ys) [c]) c = Split x c @ (y # ys)"
    by (simp add: Split_append_sep)
  with 3 show ?case by (simp add: Split_no_sep)
qed (auto simp: Split_no_sep)

lemma Cut_Some: "Cut s c = Some (a, b) \<longleftrightarrow> s = a @ c # b \<and> c \<notin> set a"
proof (induction s c arbitrary: a rule: Cut.induct)
  case (1 c)
  then show ?case by simp
next
  case (2 x xs c)
  show ?case
  proof (cases "x = c")
    case True
    then show ?thesis by (cases a) auto
  next
    case False
    with 2 show ?thesis
      by (cases a) auto
  qed
qed

lemma Cut_None: "Cut s c = None \<longleftrightarrow> c \<notin> set s"
  by (induction s c rule: Cut.induct) auto

lemma LastIndexByte_none: "c \<notin> set s \<Longrightarrow> LastIndexByte s c = -1"
  by (induction s) auto

lemma LastIndexByte_ge: "-1 \<le> LastIndexByte s c"
  by (induction s c rule: LastIndexByte.induct) (auto simp: Let_def)

lemma LastIndexByte_append: 
  "c \<notin> set t \<Longrightarrow> LastIndexByte (s @ c # t) c = int (length s)"
  by (induction s) (auto simp: Let_def LastIndexByte_none)

lemma LastIndexByte_less: "LastIndexByte s c < int (length s)"
  by (induction s c rule: LastIndexByte.induct) (auto simp: Let_def)

lemma slice_append_left [simp]: "slice (xs @ ys) (length xs) (length xs + length ys) = ys"
  by (simp add: slice_def)

subsection \<open>Lists\<close>

lemma split_last_sep:
  assumes "c \<in> set s"
  obtains a b where "s = a @ c # b" and "c \<notin> set b"
  using assms by (auto dest: split_list_last)

text \<open>The first element of a list with a property, as the loops that return on a match find it.\<close>

lemma find_filter_hd: "find P xs = (case filter P xs of [] \<Rightarrow> None | x # _ \<Rightarrow> Some x)"
  by (induction xs) auto

lemma find_sorted_subset:
  fixes xs ys :: "'a::linorder list"
  assumes "sorted xs" and "distinct xs" and "sorted ys" and "distinct ys"
    and "set ys \<subseteq> set xs" and "\<And>x. x \<in> set xs \<Longrightarrow> P x \<Longrightarrow> x \<in> set ys"
  shows "find P ys = find P xs"
proof -
  have "set (filter P ys) = set (filter P xs)"
    using assms(5,6) by auto
  moreover have "sorted (filter P xs)" and "distinct (filter P xs)"
    and "sorted (filter P ys)" and "distinct (filter P ys)"
    using assms by (auto simp: sorted_wrt_filter)
  ultimately have "filter P ys = filter P xs"
    by (metis sorted_distinct_set_unique)
  then show ?thesis by (simp add: find_filter_hd)
qed

lemma find_cong_set: "(\<And>x. x \<in> set xs \<Longrightarrow> P x = Q x) \<Longrightarrow> find P xs = find Q xs"
  by (induction xs) auto

lemma map_of_zip_nth_Some:
  assumes "distinct ks" and "length ks = length vs" and "i < length ks"
  shows "map_of (zip ks vs) (ks ! i) = Some (vs ! i)"
  using assms by (simp add: map_of_zip_nth)

end
