(* ===== verification/GoText.thy ===== *)
theory GoText
  imports Complex_Main Prelude
begin

text \<open>
  The parts of Go's standard library that interpret a string as text: UTF-8 decoding
  (\<open>unicode/utf8\<close>), case mapping and folding, white-space trimming (\<open>strings\<close>)
  and shell patterns (\<open>path.Match\<close>), as the rule matchers call them.

  What depends on the Unicode tables beyond ASCII is a parameter, the record \<open>golib\<close>,
  and so are the regular expression engine, the serialisation of JSON values, the default formatting
  of a value and SHA-256. The definitions take it as an argument; no theorem of the development
  assumes anything about it unless its statement says so.
\<close>

text \<open>A decoded JSON value: what Go's \<open>any\<close> holds after \<open>json.Unmarshal\<close>.\<close>

datatype jsonv =
    JNull
  | JBool bool
  | JNum rat
  | JStr string
  | JArr "jsonv list"
  | JObj "(string \<times> jsonv) list"

record golib =
  unicode_ToLower :: "rune \<Rightarrow> rune"
  unicode_fold :: "rune \<Rightarrow> rune \<Rightarrow> bool"
  regexp_Compile :: "string \<Rightarrow> (string \<Rightarrow> bool) option"
  json_Marshal :: "jsonv \<Rightarrow> string"
  fmt_Sprint :: "jsonv \<Rightarrow> string"
  sha256_Sum256 :: "string \<Rightarrow> string"

text \<open>A library for concrete evaluations: no case beyond ASCII, no regular expression compiles.\<close>

definition plainLib :: golib where
  "plainLib =
     \<lparr>unicode_ToLower = (\<lambda>r. r), unicode_fold = (\<lambda>a b. False), regexp_Compile = (\<lambda>p. None),
      json_Marshal = (\<lambda>v. []), fmt_Sprint = (\<lambda>v. []), sha256_Sum256 = (\<lambda>s. s)\<rparr>"

subsection \<open>UTF-8\<close>

definition RuneError :: rune where
  "RuneError = 0xFFFD"

definition contByte :: "int \<Rightarrow> bool" where
  "contByte b \<longleftrightarrow> 0x80 \<le> b \<and> b \<le> 0xBF"

text \<open>The accept range of the second byte depends on the first.\<close>

definition secondByte :: "int \<Rightarrow> int \<Rightarrow> bool" where
  "secondByte b0 b1 \<longleftrightarrow>
     (if b0 = 0xE0 then 0xA0 \<le> b1 \<and> b1 \<le> 0xBF
      else if b0 = 0xED then 0x80 \<le> b1 \<and> b1 \<le> 0x9F
      else if b0 = 0xF0 then 0x90 \<le> b1 \<and> b1 \<le> 0xBF
      else if b0 = 0xF4 then 0x80 \<le> b1 \<and> b1 \<le> 0x8F
      else contByte b1)"

text \<open>\<open>utf8.DecodeRuneInString\<close>: the rune and the number of bytes it takes.\<close>

definition DecodeRune :: "string \<Rightarrow> rune \<times> nat" where
  "DecodeRune s = (case s of [] \<Rightarrow> (RuneError, 0) | c0 # s1 \<Rightarrow>
     (let b0 = of_char c0 in
      if b0 < 0x80 then (b0, 1)
      else if b0 < 0xC2 \<or> 0xF4 < b0 then (RuneError, 1)
      else (case s1 of [] \<Rightarrow> (RuneError, 1) | c1 # s2 \<Rightarrow>
        (let b1 = of_char c1 in
         if \<not> secondByte b0 b1 then (RuneError, 1)
         else if b0 < 0xE0 then ((b0 - 0xC0) * 64 + (b1 - 0x80), 2)
         else (case s2 of [] \<Rightarrow> (RuneError, 1) | c2 # s3 \<Rightarrow>
           (let b2 = of_char c2 in
            if \<not> contByte b2 then (RuneError, 1)
            else if b0 < 0xF0 then
              ((b0 - 0xE0) * 4096 + (b1 - 0x80) * 64 + (b2 - 0x80), 3)
            else (case s3 of [] \<Rightarrow> (RuneError, 1) | c3 # s4 \<Rightarrow>
              (let b3 = of_char c3 in
               if \<not> contByte b3 then (RuneError, 1)
               else ((b0 - 0xF0) * 262144 + (b1 - 0x80) * 4096 + (b2 - 0x80) * 64 + (b3 - 0x80),
                     4)))))))))"

lemma DecodeRune_size: "s \<noteq> [] \<Longrightarrow> 0 < snd (DecodeRune s)"
  by (auto simp: DecodeRune_def Let_def split: list.splits)

lemma DecodeRune_size_le: "snd (DecodeRune s) \<le> length s"
  by (auto simp: DecodeRune_def Let_def split: list.splits)

text \<open>The runes of a string, as \<open>for _, r := range s\<close> yields them.\<close>

function runes :: "string \<Rightarrow> rune list" where
  "runes s = (if s = [] then [] else fst (DecodeRune s) # runes (drop (snd (DecodeRune s)) s))"
  by pat_completeness auto
termination
  by (relation "measure length") (auto simp: DecodeRune_size)

declare runes.simps [simp del]

lemma runes_Nil [simp]: "runes [] = []"
  by (simp add: runes.simps)

definition ascii :: "char \<Rightarrow> bool" where
  "ascii c \<longleftrightarrow> (of_char c :: int) < 0x80"

lemma of_char_int: "(of_char c :: int) = int (of_char c)"
  by (simp add: of_nat_of_char)

lemma of_char_int_bounds [simp]: "0 \<le> (of_char c :: int)" "(of_char c :: int) < 256"
proof -
  note of_char_int [of c]
  moreover have "of_char c < (256 :: nat)" by simp
  ultimately show "0 \<le> (of_char c :: int)" "(of_char c :: int) < 256" by simp_all
qed

lemma ascii_not_cont: "ascii c \<Longrightarrow> \<not> contByte (of_char c)"
  by (simp add: ascii_def contByte_def)

lemma ascii_not_second: "ascii c \<Longrightarrow> \<not> secondByte b (of_char c)"
  by (auto simp: ascii_def secondByte_def contByte_def)

lemma DecodeRune_ascii [simp]: "ascii c \<Longrightarrow> DecodeRune (c # s) = (of_char c, 1)"
  by (simp add: DecodeRune_def ascii_def Let_def)

text \<open>A multi-byte sequence never takes an ASCII byte, so decoding stops at one.\<close>

lemma DecodeRune_append_ascii:
  assumes "ascii c" and "p \<noteq> []"
  shows "DecodeRune (p @ c # t) = DecodeRune p"
  using assms ascii_not_cont [OF assms(1)] ascii_not_second [OF assms(1)]
  by (auto simp: DecodeRune_def Let_def neq_Nil_conv split: list.splits)

lemma runes_append_ascii:
  assumes "ascii c"
  shows "runes (p @ c # t) = runes p @ of_char c # runes t"
proof (induction p rule: runes.induct)
  case (1 p)
  show ?case
  proof (cases "p = []")
    case True
    with assms show ?thesis by (simp add: runes.simps [of "c # t"])
  next
    case False
    let ?n = "snd (DecodeRune p)"
    have "?n \<le> length p" by (rule DecodeRune_size_le)
    then have "drop ?n (p @ c # t) = drop ?n p @ c # t" by simp
    with False 1 assms show ?thesis
      by (simp add: runes.simps [of "p @ c # t"] runes.simps [of p] DecodeRune_append_ascii)
  qed
qed

lemma runes_all_ascii: "\<forall>c \<in> set s. ascii c \<Longrightarrow> runes s = map of_char s"
proof (induction s)
  case (Cons c s)
  then have "runes ([] @ c # s) = runes [] @ of_char c # runes s"
    by (intro runes_append_ascii) simp
  with Cons show ?case by simp
qed simp

lemma runes_length_le: "length (runes s) \<le> length s"
proof (induction s rule: runes.induct)
  case (1 s)
  show ?case
  proof (cases "s = []")
    case False
    with DecodeRune_size [OF False] DecodeRune_size_le [of s] 1 show ?thesis
      by (simp add: runes.simps [of s])
  qed simp
qed

text \<open>\<open>utf8.AppendRune\<close>: an invalid rune is encoded as \<open>RuneError\<close>.\<close>

definition validRune :: "rune \<Rightarrow> bool" where
  "validRune r \<longleftrightarrow> (0 \<le> r \<and> r < 0xD800) \<or> (0xDFFF < r \<and> r \<le> 0x10FFFF)"

definition EncodeRune :: "rune \<Rightarrow> string" where
  "EncodeRune r0 = (let r = (if validRune r0 then r0 else RuneError) in
     if r < 0x80 then [char_of r]
     else if r < 0x800 then [char_of (0xC0 + r div 64), char_of (0x80 + r mod 64)]
     else if r < 0x10000 then
       [char_of (0xE0 + r div 4096), char_of (0x80 + r div 64 mod 64), char_of (0x80 + r mod 64)]
     else
       [char_of (0xF0 + r div 262144), char_of (0x80 + r div 4096 mod 64),
        char_of (0x80 + r div 64 mod 64), char_of (0x80 + r mod 64)])"

lemma EncodeRune_ascii: "ascii c \<Longrightarrow> EncodeRune (of_char c) = [c]"
  by (simp add: EncodeRune_def validRune_def ascii_def)

subsection \<open>Lower case\<close>

definition lowerRune :: "golib \<Rightarrow> rune \<Rightarrow> rune" where
  "lowerRune G r =
     (if r < 0x80 then (if 0x41 \<le> r \<and> r \<le> 0x5A then r + 32 else r) else unicode_ToLower G r)"

definition asciiLower :: "char \<Rightarrow> char" where
  "asciiLower c =
     (let b = of_char c :: int in if 0x41 \<le> b \<and> b \<le> 0x5A then char_of (b + 32) else c)"

text \<open>\<open>strings.ToLower\<close>: bytewise when the string is ASCII, runewise otherwise.\<close>

definition ToLower :: "golib \<Rightarrow> string \<Rightarrow> string" where
  "ToLower G s =
     (if \<forall>c \<in> set s. ascii c then map asciiLower s
      else concat (map (\<lambda>r. EncodeRune (lowerRune G r)) (runes s)))"

lemma of_char_char_of_small: "0 \<le> n \<Longrightarrow> n < 256 \<Longrightarrow> (of_char (char_of (n :: int)) :: int) = n"
  by (simp add: of_char_of)

lemma asciiLower_ascii: "ascii c \<Longrightarrow> ascii (asciiLower c)"
  by (auto simp: ascii_def asciiLower_def Let_def of_char_char_of_small)

lemma lowerRune_ascii:
  assumes "ascii c"
  shows "EncodeRune (lowerRune G (of_char c)) = [asciiLower c]"
proof -
  have "0 \<le> (of_char c :: int)" by simp
  then have "lowerRune G (of_char c) = of_char (asciiLower c)"
    using assms by (auto simp: lowerRune_def asciiLower_def ascii_def Let_def of_char_char_of_small)
  then show ?thesis
    using assms by (simp add: EncodeRune_ascii asciiLower_ascii)
qed

lemma ToLower_runes: "ToLower G s = concat (map (\<lambda>r. EncodeRune (lowerRune G r)) (runes s))"
proof (cases "\<forall>c \<in> set s. ascii c")
  case True
  then have "concat (map (\<lambda>r. EncodeRune (lowerRune G r)) (map of_char s)) = map asciiLower s"
    by (induction s) (auto simp: lowerRune_ascii)
  with True show ?thesis by (simp add: ToLower_def runes_all_ascii)
qed (auto simp: ToLower_def)

lemma ToLower_append_ascii:
  "ascii c \<Longrightarrow> ToLower G (p @ c # t) = ToLower G p @ asciiLower c # ToLower G t"
  by (simp add: ToLower_runes runes_append_ascii lowerRune_ascii)

lemma ToLower_ascii: "\<forall>c \<in> set s. ascii c \<Longrightarrow> ToLower G s = map asciiLower s"
  by (simp add: ToLower_def)

subsection \<open>Case folding\<close>

text \<open>
  One step of \<open>strings.EqualFold\<close> on two runes. The folding orbits that hold an ASCII rune
  are written out: the two cases of a letter, with U+212A for \<open>k\<close> and U+017F for \<open>s\<close>.
\<close>

definition foldRune :: "golib \<Rightarrow> rune \<Rightarrow> rune \<Rightarrow> bool" where
  "foldRune G a b \<longleftrightarrow> a = b \<or>
     (let sr = min a b; tr = max a b in
      if tr < 0x80 then 0x41 \<le> sr \<and> sr \<le> 0x5A \<and> tr = sr + 32
      else if sr < 0x80 then
        (tr = 0x212A \<and> (sr = 0x4B \<or> sr = 0x6B)) \<or> (tr = 0x17F \<and> (sr = 0x53 \<or> sr = 0x73))
      else unicode_fold G sr tr)"

definition EqualFold :: "golib \<Rightarrow> string \<Rightarrow> string \<Rightarrow> bool" where
  "EqualFold G s t \<longleftrightarrow> list_all2 (foldRune G) (runes s) (runes t)"

lemma runes_full_length:
  assumes "length (runes s) = length s"
  shows "list_all2 (\<lambda>r c. r = RuneError \<or> (ascii c \<and> r = of_char c)) (runes s) s"
  using assms
proof (induction s rule: runes.induct)
  case (1 s)
  show ?case
  proof (cases s)
    case (Cons c t)
    let ?n = "snd (DecodeRune s)"
    have n: "0 < ?n" "?n \<le> length s"
      using Cons DecodeRune_size [of s] DecodeRune_size_le [of s] by auto
    have unfold: "runes s = fst (DecodeRune s) # runes (drop ?n s)"
      using Cons by (subst runes.simps) simp
    with 1(2) have len: "Suc (length (runes (drop ?n s))) = length s" by simp
    with runes_length_le [of "drop ?n s"] n have one: "?n = 1" by simp
    then have "fst (DecodeRune s) = RuneError \<or> (ascii c \<and> fst (DecodeRune s) = of_char c)"
      using Cons by (auto simp: DecodeRune_def Let_def ascii_def split: list.splits if_splits)
    moreover have "list_all2 (\<lambda>r c. r = RuneError \<or> (ascii c \<and> r = of_char c)) (runes t) t"
      using 1 Cons len one by simp
    moreover have "runes s = fst (DecodeRune s) # runes t"
      using unfold one Cons by simp
    ultimately show ?thesis
      using Cons by simp
  qed simp
qed

text \<open>
  Against an ASCII string in lower case and of the same byte length, folding is lower-casing
  byte by byte: a character outside ASCII that folds to a letter takes more bytes.
\<close>

lemma foldRune_ascii_byte:
  assumes "foldRune G r (of_char d)" and "ascii d" and "asciiLower d = d"
    and "r = RuneError \<or> (ascii c \<and> r = of_char c)"
  shows "ascii c \<and> asciiLower c = d"
proof -
  have d: "(of_char d :: int) < 128" "\<not> (65 \<le> (of_char d :: int) \<and> (of_char d :: int) \<le> 90)"
  proof -
    show "(of_char d :: int) < 128" using assms(2) by (simp add: ascii_def)
    show "\<not> (65 \<le> (of_char d :: int) \<and> (of_char d :: int) \<le> 90)"
    proof
      assume up: "65 \<le> (of_char d :: int) \<and> (of_char d :: int) \<le> 90"
      then have "(of_char (asciiLower d) :: int) = of_char d + 32"
        by (simp add: asciiLower_def Let_def of_char_char_of_small)
      with assms(3) show False by simp
    qed
  qed
  have "r \<noteq> RuneError"
  proof
    assume "r = RuneError"
    with assms(1) d show False
      by (auto simp: foldRune_def RuneError_def Let_def min_def max_def split: if_splits)
  qed
  with assms(4) have c: "ascii c" "r = of_char c" by auto
  have "asciiLower c = d"
  proof (cases "(of_char c :: int) = of_char d")
    case True
    then have "c = d" by (metis char_of_char)
    with assms(3) show ?thesis by simp
  next
    case False
    with assms(1) c d have "65 \<le> (of_char c :: int) \<and> (of_char c :: int) \<le> 90 \<and> (of_char d :: int) = of_char c + 32"
      by (auto simp: foldRune_def ascii_def Let_def min_def max_def split: if_splits)
    then show ?thesis
      by (simp add: asciiLower_def Let_def) (metis char_of_char)
  qed
  with c show ?thesis by simp
qed

lemma EqualFold_ascii_lower:
  assumes "EqualFold G s t" and "length s = length t"
    and t: "\<forall>c \<in> set t. ascii c \<and> asciiLower c = c"
  shows "(\<forall>c \<in> set s. ascii c) \<and> map asciiLower s = t"
proof -
  have rt: "runes t = map of_char t"
    using t by (simp add: runes_all_ascii)
  have fold: "list_all2 (foldRune G) (runes s) (map of_char t)"
    using assms(1) rt by (simp add: EqualFold_def)
  then have "length (runes s) = length s"
    using assms(2) by (auto dest: list_all2_lengthD)
  then have bytes: "list_all2 (\<lambda>r c. r = RuneError \<or> (ascii c \<and> r = of_char c)) (runes s) s"
    by (rule runes_full_length)
  have "ascii (s ! i) \<and> asciiLower (s ! i) = t ! i" if "i < length s" for i
  proof (rule foldRune_ascii_byte [where r = "runes s ! i" and G = G])
    show "foldRune G (runes s ! i) (of_char (t ! i))"
      using fold that assms(2) by (auto simp: list_all2_conv_all_nth)
    show "ascii (t ! i)" and "asciiLower (t ! i) = t ! i"
      using t that assms(2) by simp_all
    show "runes s ! i = RuneError \<or> (ascii (s ! i) \<and> runes s ! i = of_char (s ! i))"
      using bytes that by (auto simp: list_all2_conv_all_nth)
  qed
  then show ?thesis
    using assms(2) by (auto simp: in_set_conv_nth intro!: nth_equalityI)
qed

lemma EqualFold_refl: "EqualFold G s s"
  by (simp add: EqualFold_def list_all2_refl foldRune_def)

subsection \<open>White space\<close>

text \<open>\<open>unicode.IsSpace\<close> and \<open>strings.TrimSpace\<close>, on the decoded runes of the ends.\<close>

definition isSpaceRune :: "rune \<Rightarrow> bool" where
  "isSpaceRune r \<longleftrightarrow>
     (0x09 \<le> r \<and> r \<le> 0x0D) \<or> r = 0x20 \<or> r = 0x85 \<or> r = 0xA0 \<or> r = 0x1680 \<or>
     (0x2000 \<le> r \<and> r \<le> 0x200A) \<or> r = 0x2028 \<or> r = 0x2029 \<or> r = 0x202F \<or> r = 0x205F \<or> r = 0x3000"

function trimLeftSpace :: "string \<Rightarrow> string" where
  "trimLeftSpace s =
     (if s = [] then []
      else let (r, n) = DecodeRune s in if isSpaceRune r then trimLeftSpace (drop n s) else s)"
  by pat_completeness auto
termination
proof (relation "measure length", goal_cases)
  case (2 s x r n)
  then show ?case using DecodeRune_size [of s] by (cases "DecodeRune s") auto
qed simp

declare trimLeftSpace.simps [simp del]

text \<open>
  The last rune of a string, as \<open>utf8.DecodeLastRuneInString\<close> finds it: the longest suffix of at
  most four bytes that is one encoded rune, else one byte.
\<close>

definition lastRune :: "string \<Rightarrow> rune \<times> nat" where
  "lastRune s =
     (let try = (\<lambda>k. k \<le> length s \<and> snd (DecodeRune (drop (length s - k) s)) = k) in
      if 0 < length s \<and> ascii (last s) then (of_char (last s), 1)
      else if try 4 then (fst (DecodeRune (drop (length s - 4) s)), 4)
      else if try 3 then (fst (DecodeRune (drop (length s - 3) s)), 3)
      else if try 2 then (fst (DecodeRune (drop (length s - 2) s)), 2)
      else (RuneError, min 1 (length s)))"

function trimRightSpace :: "string \<Rightarrow> string" where
  "trimRightSpace s =
     (if s = [] then []
      else let (r, n) = lastRune s in
        if isSpaceRune r \<and> 0 < n then trimRightSpace (take (length s - n) s) else s)"
  by pat_completeness auto
termination
  by (relation "measure length") auto

declare trimRightSpace.simps [simp del]

definition TrimSpace :: "string \<Rightarrow> string" where
  "TrimSpace s = trimRightSpace (trimLeftSpace s)"

text \<open>A string of ASCII bytes that are no spaces is left as it is.\<close>

definition graphic :: "char \<Rightarrow> bool" where
  "graphic c \<longleftrightarrow> ascii c \<and> \<not> isSpaceRune (of_char c)"

lemma trimLeftSpace_graphic: "s = [] \<or> graphic (hd s) \<Longrightarrow> trimLeftSpace s = s"
  by (cases s) (auto simp: trimLeftSpace.simps graphic_def)

lemma trimRightSpace_graphic: "s = [] \<or> graphic (last s) \<Longrightarrow> trimRightSpace s = s"
  by (auto simp: trimRightSpace.simps [of s] lastRune_def graphic_def)

lemma TrimSpace_graphic: "\<forall>c \<in> set s. graphic c \<Longrightarrow> TrimSpace s = s"
  by (cases "s = []") (simp_all add: TrimSpace_def trimLeftSpace_graphic trimRightSpace_graphic)

end
