(* ===== verification/PathMatch.thy ===== *)
theory PathMatch
  imports GoText
begin

text \<open>
  Go's \<open>path.Match\<close>, which the glob matchers of \<open>src/internal/rules/compile.go\<close> call:
  the pattern is cut into chunks at each run of \<open>*\<close>, a chunk is matched greedily and a starred
  chunk at every position up to the next \<open>/\<close>. A malformed pattern is an error value.
\<close>

datatype badPattern = ErrBadPattern

definition getEsc :: "string \<Rightarrow> (badPattern, rune \<times> string) res" where
  "getEsc chunk0 =
     (if chunk0 = [] \<or> hd chunk0 = CHR ''-'' \<or> hd chunk0 = CHR '']'' then Inl ErrBadPattern
      else let chunk = (if hd chunk0 = CHR 0x5C then tl chunk0 else chunk0) in
        if chunk = [] then Inl ErrBadPattern
        else let (r, n) = DecodeRune chunk; nchunk = drop n chunk in
          if (r = RuneError \<and> n = 1) \<or> nchunk = [] then Inl ErrBadPattern
          else Inr (r, nchunk))"

lemma getEsc_suffix:
  assumes "getEsc chunk = Inr (r, nchunk)"
  shows "\<exists>p. p \<noteq> [] \<and> chunk = p @ nchunk"
proof -
  define c where "c = (if hd chunk = CHR 0x5C then tl chunk else chunk)"
  have c: "chunk \<noteq> []" "c \<noteq> []" "nchunk = drop (snd (DecodeRune c)) c"
    using assms unfolding getEsc_def c_def [symmetric]
    by (simp_all add: Let_def split: if_splits prod.splits)
  define p where "p = take (snd (DecodeRune c)) c"
  have "c = p @ nchunk" using c(3) by (simp add: p_def)
  moreover have "p \<noteq> []"
    using c(2) DecodeRune_size [OF c(2)] by (simp add: p_def)
  moreover have "\<exists>q. chunk = q @ c"
    using c(1) by (cases chunk) (auto simp: c_def)
  then obtain q where "chunk = q @ c" by blast
  ultimately show ?thesis
    by (intro exI [of _ "q @ p"]) simp
qed

lemma getEsc_length: "getEsc chunk = Inr (r, nchunk) \<Longrightarrow> length nchunk < length chunk"
  by (auto dest: getEsc_suffix)

lemma getEsc_not_Nil: "getEsc chunk = Inr (r, nchunk) \<Longrightarrow> nchunk \<noteq> []"
  by (auto simp: getEsc_def Let_def split: if_splits prod.splits)

text \<open>The ranges of a character class, up to its closing bracket.\<close>

function classRanges :: "string \<Rightarrow> rune \<Rightarrow> bool \<Rightarrow> nat \<Rightarrow> (badPattern, bool \<times> string) res" where
  "classRanges chunk r m nrange =
     (if chunk \<noteq> [] \<and> hd chunk = CHR '']'' \<and> 0 < nrange then Inr (m, tl chunk)
      else case getEsc chunk of
        Inl e \<Rightarrow> Inl e
      | Inr (lo, c1) \<Rightarrow>
          if hd c1 = CHR ''-'' then
            (case getEsc (tl c1) of
               Inl e \<Rightarrow> Inl e
             | Inr (hi, c2) \<Rightarrow> classRanges c2 r (m \<or> (lo \<le> r \<and> r \<le> hi)) (Suc nrange))
          else classRanges c1 r (m \<or> (lo \<le> r \<and> r \<le> lo)) (Suc nrange))"
  by pat_completeness auto
termination
proof (relation "measure (\<lambda>(chunk, r, m, n). length chunk)", goal_cases)
  case (2 chunk r m nrange y lo c1 y' hi c2)
  then have "length c1 < length chunk" "length c2 < length (tl c1)"
    by (auto dest: getEsc_length)
  then show ?case by simp
qed (auto dest: getEsc_length)

declare classRanges.simps [simp del]

lemma classRanges_suffix:
  "classRanges chunk r m n = Inr (m', rest) \<Longrightarrow> \<exists>p. chunk = p @ CHR '']'' # rest"
proof (induction chunk r m n arbitrary: rule: classRanges.induct)
  case (1 chunk r m n)
  show ?case
  proof (cases "chunk \<noteq> [] \<and> hd chunk = CHR '']'' \<and> 0 < n")
    case True
    with 1(3) show ?thesis
      by (subst (asm) classRanges.simps) (auto simp: neq_Nil_conv)
  next
    case False
    with 1(3) obtain lo c1 where c1: "getEsc chunk = Inr (lo, c1)"
      by (subst (asm) classRanges.simps) (auto split: sum.splits)
    from getEsc_suffix [OF c1] obtain p where p: "chunk = p @ c1" by blast
    show ?thesis
    proof (cases "hd c1 = CHR ''-''")
      case True
      with 1(3) False c1 obtain hi c2 where c2: "getEsc (tl c1) = Inr (hi, c2)"
        by (subst (asm) classRanges.simps) (auto split: sum.splits)
      with 1(3) False c1 True have "classRanges c2 r (m \<or> (lo \<le> r \<and> r \<le> hi)) (Suc n) = Inr (m', rest)"
        by (subst (asm) classRanges.simps) auto
      from 1(1) [OF False c1 refl True c2 refl this]
      obtain q where "c2 = q @ CHR '']'' # rest" by blast
      moreover from getEsc_suffix [OF c2] obtain q' where "tl c1 = q' @ c2" by blast
      moreover have "c1 \<noteq> []" using c1 by (rule getEsc_not_Nil)
      ultimately show ?thesis
        using p by (metis append.assoc append_Cons list.collapse)
    next
      case dash: False
      with 1(3) False c1 have "classRanges c1 r (m \<or> (lo \<le> r \<and> r \<le> lo)) (Suc n) = Inr (m', rest)"
        by (subst (asm) classRanges.simps) auto
      from 1(2) [OF False c1 refl dash this]
      obtain q where "c1 = q @ CHR '']'' # rest" by blast
      with p show ?thesis by (metis append.assoc)
    qed
  qed
qed

lemma classRanges_length: "classRanges chunk r m n = Inr (m', rest) \<Longrightarrow> length rest < length chunk"
  by (auto dest: classRanges_suffix)

text \<open>
  \<open>matchChunk\<close>: the rest of the string after the chunk, \<open>None\<close> when it does not match. As in
  the library, a chunk that has already failed is still parsed, so that a malformed one is reported.
\<close>

function matchChunk :: "string \<Rightarrow> string \<Rightarrow> bool \<Rightarrow> (badPattern, string option) res" where
  "matchChunk [] s failed = Inr (if failed then None else Some s)"
| "matchChunk (c # cs) s failed0 =
     (let failed = (failed0 \<or> s = []) in
      if c = CHR ''['' then
        (let (r, s') = (if failed then (0, s) else (fst (DecodeRune s), drop (snd (DecodeRune s)) s));
             negated = (cs \<noteq> [] \<and> hd cs = CHR ''^'');
             cs' = (if negated then tl cs else cs)
         in case classRanges cs' r False 0 of
              Inl e \<Rightarrow> Inl e
            | Inr (m, rest) \<Rightarrow> matchChunk rest s' (failed \<or> m = negated))
      else if c = CHR ''?'' then
        matchChunk cs (if failed then s else drop (snd (DecodeRune s)) s) (failed \<or> hd s = CHR ''/'')
      else if c = CHR 0x5C then
        (case cs of
           [] \<Rightarrow> Inl ErrBadPattern
         | d # ds \<Rightarrow> matchChunk ds (if failed then s else tl s) (failed \<or> d \<noteq> hd s))
      else matchChunk cs (if failed then s else tl s) (failed \<or> c \<noteq> hd s))"
  by pat_completeness auto
termination
proof (relation "measure (\<lambda>(chunk, s, f). length chunk)", goal_cases)
  case (2 c cs s failed0 failed x r s' negated cs' y m rest)
  then have "length rest < length cs'" by (auto dest: classRanges_length)
  moreover have "length cs' \<le> length cs" using 2 by simp
  ultimately show ?case by simp
qed auto


lemma matchChunk_failed: "matchChunk chunk s True \<noteq> Inr (Some t)"
proof (induction chunk s True rule: matchChunk.induct)
  case (2 c cs s)
  then show ?case
    by (simp add: Let_def split: sum.split list.split)
qed simp

text \<open>
  A chunk that matches does so by one of four steps; the rest of the development reasons with
  these and not with the function.
\<close>

lemma matchChunk_ConsE:
  assumes "matchChunk (c # cs) s f = Inr (Some t)"
  obtains (cls) cs' r m rest where "c = CHR ''[''" "cs' = cs \<or> cs' = tl cs \<and> cs \<noteq> [] \<and> hd cs = CHR ''^''"
      "classRanges cs' r False 0 = Inr (m, rest)" "s \<noteq> []"
      "matchChunk rest (drop (snd (DecodeRune s)) s) False = Inr (Some t)"
  | (any) "c = CHR ''?''" "s \<noteq> []" "hd s \<noteq> CHR ''/''"
      "matchChunk cs (drop (snd (DecodeRune s)) s) False = Inr (Some t)"
  | (esc) d ds where "c = CHR 0x5C" "cs = d # ds" "s \<noteq> []" "hd s = d"
      "matchChunk ds (tl s) False = Inr (Some t)"
  | (lit) "c \<noteq> CHR ''[''" "c \<noteq> CHR ''?''" "c \<noteq> CHR 0x5C" "s \<noteq> []" "hd s = c"
      "matchChunk cs (tl s) False = Inr (Some t)"
proof -
  have f: "\<not> f" using assms matchChunk_failed [of "c # cs" s t] by (cases f) auto
  have "matchChunk (c # cs) [] False = matchChunk (c # cs) [] True" by simp
  with assms f have s: "s \<noteq> []" by (auto simp: matchChunk_failed simp del: matchChunk.simps)
  show thesis
  proof (cases "c = CHR ''[''")
    case True
    define cs' where "cs' = (if cs \<noteq> [] \<and> hd cs = CHR ''^'' then tl cs else cs)"
    obtain m rest where m: "classRanges cs' (fst (DecodeRune s)) False 0 = Inr (m, rest)"
      and r: "matchChunk rest (drop (snd (DecodeRune s)) s) (m = (cs \<noteq> [] \<and> hd cs = CHR ''^'')) = Inr (Some t)"
      using assms True f s by (auto simp: Let_def cs'_def split: sum.splits)
    from r matchChunk_failed have "matchChunk rest (drop (snd (DecodeRune s)) s) False = Inr (Some t)"
      by (cases "m = (cs \<noteq> [] \<and> hd cs = CHR ''^'')") auto
    with m s True show thesis by (intro cls) (auto simp: cs'_def)
  next
    case bracket: False
    consider "c = CHR ''?''" | "c = CHR 0x5C" | "c \<noteq> CHR ''?''" "c \<noteq> CHR 0x5C" by blast
    then show thesis
    proof cases
      case 1
      with assms f s have "matchChunk cs (drop (snd (DecodeRune s)) s) (hd s = CHR ''/'') = Inr (Some t)"
        by simp
      with 1 s show thesis by (cases "hd s = CHR ''/''") (auto intro: any simp: matchChunk_failed)
    next
      case 2
      with assms obtain d ds where "cs = d # ds" by (cases cs) (auto simp: Let_def)
      moreover from this 2 assms f s have "matchChunk ds (tl s) (d \<noteq> hd s) = Inr (Some t)"
        by simp
      ultimately show thesis using 2 s by (cases "d = hd s") (auto intro: esc simp: matchChunk_failed)
    next
      case 3
      with bracket assms f s have "matchChunk cs (tl s) (c \<noteq> hd s) = Inr (Some t)"
        by simp
      with 3 bracket s show thesis by (cases "c = hd s") (auto intro: lit simp: matchChunk_failed)
    qed
  qed
qed

lemma matchChunk_suffix: "matchChunk chunk s f = Inr (Some t) \<Longrightarrow> \<exists>p. s = p @ t"
proof (induction "length chunk" arbitrary: chunk s f rule: less_induct)
  case less
  show ?case
  proof (cases chunk)
    case Nil
    with less.prems show ?thesis by (auto split: if_splits)
  next
    case (Cons c cs)
    have step: "\<exists>p. s = p @ t"
      if "length chunk' < length chunk" "matchChunk chunk' (drop n s) False = Inr (Some t)" for chunk' n
    proof -
      from less.hyps [OF that] obtain p where "drop n s = p @ t" by blast
      then have "s = (take n s @ p) @ t" by (metis append.assoc append_take_drop_id)
      then show ?thesis by blast
    qed
    from less.prems [unfolded Cons] show ?thesis
    proof (cases rule: matchChunk_ConsE)
      case (cls cs' r m rest)
      then have "length rest < length chunk"
        using Cons by (auto dest: classRanges_length)
      with cls(5) show ?thesis by (blast intro: step)
    next
      case any
      with Cons show ?thesis by (auto intro: step)
    next
      case (esc d ds)
      with Cons step [of ds 1] show ?thesis by (simp add: drop_Suc)
    next
      case lit
      with Cons step [of cs 1] show ?thesis by (simp add: drop_Suc)
    qed
  qed
qed

subsection \<open>Chunks and the main loop\<close>

text \<open>The end of the first chunk: a star outside a character class.\<close>

fun scanLoop :: "bool \<Rightarrow> string \<Rightarrow> string \<times> string" where
  "scanLoop inrange [] = ([], [])"
| "scanLoop inrange (c # cs) =
     (if c = CHR 0x5C then
        (case cs of
           [] \<Rightarrow> ([c], [])
         | d # ds \<Rightarrow> let (chunk, rest) = scanLoop inrange ds in (c # d # chunk, rest))
      else if c = CHR ''*'' \<and> \<not> inrange then ([], c # cs)
      else let (chunk, rest) = scanLoop (if c = CHR ''['' then True else if c = CHR '']'' then False else inrange) cs
           in (c # chunk, rest))"

definition scanChunk :: "string \<Rightarrow> bool \<times> string \<times> string" where
  "scanChunk pattern =
     (pattern \<noteq> [] \<and> hd pattern = CHR ''*'', scanLoop False (dropWhile (\<lambda>c. c = CHR ''*'') pattern))"

lemma scanLoop_append: "scanLoop inr p = (chunk, rest) \<Longrightarrow> p = chunk @ rest"
  by (induction inr p arbitrary: chunk rest rule: scanLoop.induct)
    (auto split: if_splits list.splits prod.splits)

lemma scanLoop_rest: "scanLoop inr p = (chunk, rest) \<Longrightarrow> rest = [] \<or> hd rest = CHR ''*''"
  by (induction inr p arbitrary: chunk rest rule: scanLoop.induct)
    (auto split: if_splits list.splits prod.splits)

lemma scanChunk_shorter:
  assumes "p \<noteq> []" and "scanChunk p = (star, chunk, rest)"
  shows "length rest < length p"
proof (cases "hd p = CHR ''*''")
  case True
  with assms obtain q where q: "p = CHR ''*'' # q" by (cases p) auto
  with assms have "dropWhile (\<lambda>c. c = CHR ''*'') q = chunk @ rest"
    by (auto simp: scanChunk_def dest: scanLoop_append)
  then have "length chunk + length rest \<le> length q"
    by (metis length_append length_dropWhile_le)
  with q show ?thesis by simp
next
  case False
  with assms have "scanLoop False p = (chunk, rest)"
    by (cases p) (auto simp: scanChunk_def)
  then have "p = chunk @ rest" "rest = [] \<or> hd rest = CHR ''*''"
    by (auto dest: scanLoop_append scanLoop_rest simp del: scanLoop.simps)
  with assms False show ?thesis by (cases chunk) auto
qed

lemmas scanChunk_shorter' = scanChunk_shorter [OF _ sym]

text \<open>
  The search for a starred chunk: \<open>None\<close> when no position up to the next \<open>/\<close> matches;
  the last chunk has to take the whole rest.
\<close>

fun starScan :: "string \<Rightarrow> bool \<Rightarrow> string \<Rightarrow> (badPattern, string option) res" where
  "starScan chunk final [] = Inr None"
| "starScan chunk final (c # cs) =
     (if c = CHR ''/'' then Inr None
      else case matchChunk chunk cs False of
        Inl e \<Rightarrow> Inl e
      | Inr None \<Rightarrow> starScan chunk final cs
      | Inr (Some t) \<Rightarrow> if final \<and> t \<noteq> [] then starScan chunk final cs else Inr (Some t))"

function validRest :: "string \<Rightarrow> (badPattern, bool) res" where
  "validRest pattern =
     (if pattern = [] then Inr False
      else let (star, chunk, rest) = scanChunk pattern in
        case matchChunk chunk [] False of Inl e \<Rightarrow> Inl e | Inr _ \<Rightarrow> validRest rest)"
  by pat_completeness auto
termination
  by (relation "measure length") (auto dest: scanChunk_shorter')

function pathMatch :: "string \<Rightarrow> string \<Rightarrow> (badPattern, bool) res" where
  "pathMatch pattern name =
     (if pattern = [] then Inr (name = [])
      else let (star, chunk, rest) = scanChunk pattern in
        if star \<and> chunk = [] then Inr (CHR ''/'' \<notin> set name)
        else case matchChunk chunk name False of
          Inl e \<Rightarrow> Inl e
        | Inr found \<Rightarrow>
            (case found of
               Some t \<Rightarrow>
                 if t = [] \<or> rest \<noteq> [] then pathMatch rest t
                 else if star then
                   (case starScan chunk (rest = []) name of
                      Inl e \<Rightarrow> Inl e
                    | Inr (Some t') \<Rightarrow> pathMatch rest t'
                    | Inr None \<Rightarrow> validRest rest)
                 else validRest rest
             | None \<Rightarrow>
                 if star then
                   (case starScan chunk (rest = []) name of
                      Inl e \<Rightarrow> Inl e
                    | Inr (Some t') \<Rightarrow> pathMatch rest t'
                    | Inr None \<Rightarrow> validRest rest)
                 else validRest rest))"
  by pat_completeness auto
termination
  by (relation "measure (\<lambda>(pattern, name). length pattern)") (auto dest: scanChunk_shorter')

declare validRest.simps [simp del] pathMatch.simps [simp del]

lemma validRest_not_True: "validRest p \<noteq> Inr True"
  by (induction p rule: validRest.induct)
    (subst validRest.simps, auto simp: Let_def split: sum.splits prod.splits)

lemma starScan_Some:
  "starScan chunk final s = Inr (Some t) \<Longrightarrow>
    \<exists>q u. s = q @ u \<and> CHR ''/'' \<notin> set q \<and> matchChunk chunk u False = Inr (Some t) \<and> (final \<longrightarrow> t = [])"
proof (induction chunk final s rule: starScan.induct)
  case (2 chunk final c cs)
  show ?case
  proof (cases "matchChunk chunk cs False = Inr (Some t) \<and> (final \<longrightarrow> t = [])")
    case True
    moreover from 2(3) have "c \<noteq> CHR ''/''" by auto
    ultimately show ?thesis
      by (intro exI [of _ "[c]"] exI [of _ cs]) simp
  next
    case False
    with 2 have "c \<noteq> CHR ''/'' \<and>
        (\<exists>q u. cs = q @ u \<and> CHR ''/'' \<notin> set q \<and> matchChunk chunk u False = Inr (Some t) \<and> (final \<longrightarrow> t = []))"
      by (auto split: if_splits sum.splits option.splits)
    then obtain q u where "c \<noteq> CHR ''/''" "cs = q @ u" "CHR ''/'' \<notin> set q"
        "matchChunk chunk u False = Inr (Some t)" "final \<longrightarrow> t = []"
      by blast
    then show ?thesis
      by (intro exI [of _ "c # q"] exI [of _ u]) simp
  qed
qed simp

definition starStep :: "string \<Rightarrow> bool \<Rightarrow> string \<Rightarrow> string \<Rightarrow> (badPattern, bool) res" where
  "starStep chunk star rest name =
     (if star then
        (case starScan chunk (rest = []) name of
           Inl e \<Rightarrow> Inl e
         | Inr (Some t') \<Rightarrow> pathMatch rest t'
         | Inr None \<Rightarrow> validRest rest)
      else validRest rest)"

lemma pathMatch_step:
  assumes "pattern \<noteq> []" and "scanChunk pattern = (star, chunk, rest)" and "chunk \<noteq> []"
  shows "pathMatch pattern name =
     (case matchChunk chunk name False of
        Inl e \<Rightarrow> Inl e
      | Inr None \<Rightarrow> starStep chunk star rest name
      | Inr (Some t) \<Rightarrow> if t = [] \<or> rest \<noteq> [] then pathMatch rest t else starStep chunk star rest name)"
  unfolding starStep_def by (subst pathMatch.simps) (simp add: assms)

text \<open>One step of a match: what a chunk of the pattern takes of the name.\<close>

lemma pathMatch_TrueE:
  assumes "pathMatch pattern name = Inr True" and "pattern \<noteq> []"
    and "scanChunk pattern = (star, chunk, rest)" and "chunk \<noteq> []"
  obtains q u t where "name = q @ u" "CHR ''/'' \<notin> set q" "\<not> star \<longrightarrow> q = []" "matchChunk chunk u False = Inr (Some t)"
    "rest = [] \<longrightarrow> t = []" "pathMatch rest t = Inr True"
proof (cases "starStep chunk star rest name = Inr True")
  case True
  then have star: star by (auto simp: starStep_def validRest_not_True split: if_splits)
  with True obtain t where t: "starScan chunk (rest = []) name = Inr (Some t)" "pathMatch rest t = Inr True"
    by (auto simp: starStep_def validRest_not_True split: sum.splits option.splits)
  from starScan_Some [OF t(1)] t(2) star that show thesis by blast
next
  case False
  with assms(1) obtain t where "matchChunk chunk name False = Inr (Some t)" "t = [] \<or> rest \<noteq> []"
      "pathMatch rest t = Inr True"
    by (auto simp: pathMatch_step [OF assms(2-4)] split: sum.splits option.splits if_splits)
  then show thesis by (intro that [of "[]" name t]) auto
qed

subsection \<open>Patterns that end in literal bytes\<close>

text \<open>
  The bytes of a host name in lower case stand for themselves in a pattern, wherever they occur
  outside a class. A pattern that ends in such bytes matches only names that end in them.
\<close>

definition litByte :: "char \<Rightarrow> bool" where
  "litByte c \<longleftrightarrow>
     (CHR ''a'' \<le> c \<and> c \<le> CHR ''z'') \<or> (CHR ''0'' \<le> c \<and> c \<le> CHR ''9'') \<or> c = CHR ''-'' \<or> c = CHR ''.''"

lemma litByte_not_special:
  "litByte c \<Longrightarrow> c \<noteq> CHR ''*'' \<and> c \<noteq> CHR ''?'' \<and> c \<noteq> CHR ''['' \<and> c \<noteq> CHR '']'' \<and> c \<noteq> CHR ''^'' \<and> c \<noteq> CHR 0x5C"
  by (auto simp: litByte_def less_eq_char_def)

lemma append_sep_eq_append:
  assumes "p @ x # rest = c @ lit" and "x \<notin> set lit"
  shows "\<exists>c3. rest = c3 @ lit \<and> c = p @ x # c3"
proof -
  from assms(1) obtain us where "p = c @ us \<and> us @ x # rest = lit \<or> p @ us = c \<and> x # rest = us @ lit"
    by (auto simp: append_eq_append_conv2)
  with assms(2) show ?thesis by (cases us) auto
qed

lemma matchChunk_literal:
  assumes "list_all litByte lit"
  shows "matchChunk lit s False = Inr (if take (length lit) s = lit then Some (drop (length lit) s) else None)
    \<and> matchChunk lit s True = Inr None"
  using assms
proof (induction lit arbitrary: s)
  case (Cons c cs)
  then have c: "c \<noteq> CHR ''['' \<and> c \<noteq> CHR ''?'' \<and> c \<noteq> CHR 0x5C"
    by (auto dest: litByte_not_special)
  with Cons show ?case by (cases s; cases "c = hd s") auto
qed simp

lemma matchChunk_lit_suffix:
  assumes lit: "list_all litByte lit"
  shows "matchChunk (c @ lit) s f = Inr (Some t) \<Longrightarrow> \<exists>p. s = p @ lit @ t"
proof (induction "length c" arbitrary: c s f rule: less_induct)
  case less
  have no: "CHR '']'' \<notin> set lit" using lit by (auto simp: list_all_iff dest: litByte_not_special)
  have base: "\<exists>p. s = p @ l @ t" if "matchChunk l s f = Inr (Some t)" "list_all litByte l" for l s f
  proof -
    from that have "take (length l) s = l \<and> drop (length l) s = t"
      using matchChunk_literal [OF that(2), of s] by (cases f) (auto split: if_splits)
    then have "s = [] @ l @ t" by (metis append_Nil append_take_drop_id)
    then show ?thesis by blast
  qed
  show ?case
  proof (cases c)
    case Nil
    with less.prems lit show ?thesis by (auto intro: base)
  next
    case (Cons x c')
    have step: "\<exists>p. s = p @ lit @ t"
      if "length c3 < length c" "matchChunk (c3 @ lit) (drop n s) False = Inr (Some t)" for c3 n
    proof -
      from less.hyps [OF that] obtain p where "drop n s = p @ lit @ t" by blast
      then have "s = (take n s @ p) @ lit @ t" by (metis append.assoc append_take_drop_id)
      then show ?thesis by blast
    qed
    from less.prems [unfolded Cons append_Cons] show ?thesis
    proof (cases rule: matchChunk_ConsE)
      case (cls cs' r m rest)
      then obtain q where "cs' = q @ CHR '']'' # rest" by (auto dest: classRanges_suffix)
      moreover have "c' @ lit = [] @ cs' \<or> c' @ lit = [hd (c' @ lit)] @ cs'"
        using cls(2) by (cases "c' @ lit") auto
      ultimately have "q @ CHR '']'' # rest = c' @ lit \<or> (hd (c' @ lit) # q) @ CHR '']'' # rest = c' @ lit"
        by auto
      then obtain q' where "q' @ CHR '']'' # rest = c' @ lit" by blast
      from append_sep_eq_append [OF this no] obtain c3 where "rest = c3 @ lit" "length c3 < length c'"
        by auto
      with cls Cons show ?thesis by (intro step [of c3 "snd (DecodeRune s)"]) auto
    next
      case any
      with Cons show ?thesis by (intro step [of c' "snd (DecodeRune s)"]) auto
    next
      case (esc d ds)
      show ?thesis
      proof (cases c')
        case Nil
        with esc lit base [of ds "tl s" False] matchChunk_literal [of ds "tl s"] have "tl s = ds @ t" "lit = d # ds"
          by (auto split: if_splits)
        with esc show ?thesis by (intro exI [of _ "[]"]) (cases s; simp)
      next
        case (Cons y c'')
        with esc \<open>c = x # c'\<close> show ?thesis
          by (intro step [of c'' 1]) (auto simp: drop_Suc)
      qed
    next
      case lit
      with Cons show ?thesis by (intro step [of c' 1]) (auto simp: drop_Suc)
    qed
  qed
qed

theorem pathMatch_lit_suffix:
  assumes lit: "list_all litByte lit" and "lit \<noteq> []"
  shows "pathMatch (pre @ lit) name = Inr True \<Longrightarrow> \<exists>p. name = p @ lit"
proof (induction "length pre" arbitrary: pre name rule: less_induct)
  case less
  have no: "CHR ''*'' \<notin> set lit" using lit by (auto simp: list_all_iff dest: litByte_not_special)
  obtain star chunk rest where sc: "scanChunk (pre @ lit) = (star, chunk, rest)" by (metis prod_cases3)
  define pre' where "pre' = dropWhile (\<lambda>c. c = CHR ''*'') pre"
  have "dropWhile (\<lambda>c. c = CHR ''*'') lit = lit"
    using no assms(2) by (cases lit) auto
  then have "dropWhile (\<lambda>c. c = CHR ''*'') (pre @ lit) = pre' @ lit"
    by (auto simp: dropWhile_append pre'_def)
  with sc have sl: "scanLoop False (pre' @ lit) = (chunk, rest)" by (simp add: scanChunk_def)
  note cr = scanLoop_append [OF sl] and rst = scanLoop_rest [OF sl]
  have len: "length pre' \<le> length pre" by (simp add: pre'_def length_dropWhile_le)
  have hd: "hd (pre' @ lit) \<noteq> CHR ''*''"
  proof (cases "pre' = []")
    case True
    with no assms(2) show ?thesis by (cases lit) auto
  next
    case False
    with hd_dropWhile [of "\<lambda>c. c = CHR ''*''" pre] show ?thesis by (simp add: pre'_def)
  qed
  have "chunk \<noteq> []"
  proof
    assume "chunk = []"
    with cr rst hd assms(2) show False by simp
  qed
  moreover have "pre @ lit \<noteq> []" using assms(2) by simp
  ultimately obtain q u t where t: "name = q @ u" "matchChunk chunk u False = Inr (Some t)"
      "rest = [] \<longrightarrow> t = []" "pathMatch rest t = Inr True"
    using pathMatch_TrueE [OF less.prems _ sc] by blast
  show ?case
  proof (cases "rest = []")
    case True
    with cr t(2,3) matchChunk_lit_suffix [OF lit, of pre' u False t] t(1) show ?thesis by auto
  next
    case False
    with rst obtain r where r: "rest = CHR ''*'' # r" by (cases rest) auto
    from append_sep_eq_append [OF _ no, of chunk r pre'] cr r
    obtain c3 where c3: "r = c3 @ lit" "pre' = chunk @ CHR ''*'' # c3" by auto
    have "length (CHR ''*'' # c3) < length pre" using len c3 \<open>chunk \<noteq> []\<close> by (cases chunk) auto
    from less.hyps [OF this] t(4) r c3 obtain p where "t = p @ lit" by auto
    with t(1) matchChunk_suffix [OF t(2)] show ?thesis by auto
  qed
qed

text \<open>The two shapes the rule files use most: a literal name, and a leading star.\<close>

lemma pathMatch_Nil: "pathMatch [] name = Inr (name = [])"
  by (simp add: pathMatch.simps)

lemma scanLoop_literal: "list_all litByte lit \<Longrightarrow> scanLoop inr lit = (lit, [])"
proof (induction lit arbitrary: inr)
  case (Cons c cs)
  with litByte_not_special [of c] show ?case by simp
qed simp

lemma scanChunk_literal: "list_all litByte lit \<Longrightarrow> scanChunk lit = (False, lit, [])"
  using litByte_not_special [of "hd lit"]
  by (cases lit) (auto simp: scanChunk_def scanLoop_literal simp del: scanLoop.simps)

lemma pathMatch_literal:
  assumes "list_all litByte lit"
  shows "pathMatch lit name = Inr (name = lit)"
proof (cases "lit = []")
  case False
  have "take (length lit) name = lit \<and> drop (length lit) name = [] \<longleftrightarrow> name = lit"
    by (auto dest: arg_cong [where f = length])
  with False assms show ?thesis
    by (auto simp: pathMatch_step [OF False scanChunk_literal] matchChunk_literal pathMatch_Nil
        starStep_def validRest.simps)
qed (simp add: pathMatch_Nil)

lemma starScan_literal:
  assumes "list_all litByte lit"
  shows "starScan lit True s = Inr (if \<exists>q. q \<noteq> [] \<and> s = q @ lit \<and> CHR ''/'' \<notin> set q then Some [] else None)"
proof (induction s)
  case (Cons c cs)
  have now: "matchChunk lit cs False = Inr (Some []) \<longleftrightarrow> cs = lit"
    "matchChunk lit cs False \<noteq> Inl e" for e
    using matchChunk_literal [OF assms, of cs] by (auto dest: arg_cong [where f = length])
  have split: "(\<exists>q. q \<noteq> [] \<and> c # cs = q @ lit \<and> CHR ''/'' \<notin> set q) \<longleftrightarrow>
      c \<noteq> CHR ''/'' \<and> (cs = lit \<or> (\<exists>q. q \<noteq> [] \<and> cs = q @ lit \<and> CHR ''/'' \<notin> set q))" (is "?l \<longleftrightarrow> ?r")
  proof
    assume ?l
    then obtain q where "c \<noteq> CHR ''/''" "cs = q @ lit" "CHR ''/'' \<notin> set q" by (auto simp: neq_Nil_conv)
    then show ?r by (cases "q = []") simp_all
  next
    assume ?r
    then obtain q where "c \<noteq> CHR ''/''" "cs = q @ lit" "CHR ''/'' \<notin> set q" by fastforce
    then show ?l by (intro exI [of _ "c # q"]) simp
  qed
  show ?case
    using Cons now unfolding split by (auto split: sum.split option.split)
qed simp

theorem pathMatch_star_literal:
  assumes lit: "list_all litByte lit" and "lit \<noteq> []"
  shows "pathMatch (CHR ''*'' # lit) name = Inr (\<exists>p. name = p @ lit \<and> CHR ''/'' \<notin> set p)"
proof -
  have "dropWhile (\<lambda>c. c = CHR ''*'') lit = lit"
    using assms litByte_not_special [of "hd lit"] by (cases lit) auto
  then have "scanChunk (CHR ''*'' # lit) = (True, lit, [])"
    by (simp add: scanChunk_def scanLoop_literal lit)
  then have "pathMatch (CHR ''*'' # lit) name =
      (if name = lit then Inr True
       else Inr (\<exists>q. q \<noteq> [] \<and> name = q @ lit \<and> CHR ''/'' \<notin> set q))"
    using assms
    by (auto simp: pathMatch_step [where star = True and chunk = lit and rest = "[]"] matchChunk_literal
        starStep_def starScan_literal pathMatch_Nil validRest.simps dest: arg_cong [where f = length])
  then show ?thesis by auto
qed

end
