(* ===== verification/Matcher.thy ===== *)
theory Matcher
  imports PathMatch
begin

text \<open>
  The pattern matcher of \<open>src/internal/rules/compile.go\<close> (an omitted field, a glob, a regular
  expression, or the suffix list recognised from an imported regular expression) and the pattern
  analysis of \<open>src/internal/rules/host_index.go\<close>: which literal domain suffix a matcher
  implies. The last section proves the fact the host index rests on: a host the matcher accepts
  ends, at a label boundary and up to case, in one of the suffixes extracted from it.
\<close>

record matcher =
  always :: bool
  glob :: string
  re :: "(string \<Rightarrow> bool) option"
  suffixes :: "string list option"

definition zeroMatcher :: matcher where
  "zeroMatcher = \<lparr>always = False, glob = [], re = None, suffixes = None\<rparr>"

subsection \<open>The canonical imported suffix pattern\<close>

definition dnsByte :: "char \<Rightarrow> bool" where
  "dnsByte c \<longleftrightarrow>
     (CHR ''a'' \<le> c \<and> c \<le> CHR ''z'') \<or> (CHR ''0'' \<le> c \<and> c \<le> CHR ''9'') \<or> c = CHR ''-''"

definition isLiteralDNSLabel :: "string \<Rightarrow> bool" where
  "isLiteralDNSLabel label \<longleftrightarrow>
     (if label = [] \<or> hd label = CHR ''-'' \<or> last label = CHR ''-'' then False
      else list_all dnsByte label)"

text \<open>One alternative of the pattern: an escaped dot, or a byte of a host name.\<close>

fun parseAtom :: "string \<Rightarrow> string option" where
  "parseAtom [] = Some []"
| "parseAtom (c # cs) =
     (if c = CHR 0x5C \<and> cs \<noteq> [] \<and> hd cs = CHR ''.'' then
        map_option (\<lambda>h. CHR ''.'' # h) (parseAtom (tl cs))
      else if dnsByte c then map_option (\<lambda>h. c # h) (parseAtom cs)
      else None)"

definition parseImportedHost :: "string \<Rightarrow> string option" where
  "parseImportedHost atom =
     (case parseAtom atom of
        None \<Rightarrow> None
      | Some value \<Rightarrow>
          let labels = Split value CHR ''.'' in
          if length labels < 2 then None
          else if list_all isLiteralDNSLabel labels then Some value else None)"

definition importedPrefix :: string where
  "importedPrefix = ''(?i)(?:^|'' @ [CHR 0x5C] @ ''.)(?:''"

definition importedSuffix :: string where
  "importedSuffix = '')$''"

definition parseImportedSuffixRegex :: "string \<Rightarrow> string list option" where
  "parseImportedSuffixRegex pattern =
     (if \<not> HasPrefix pattern importedPrefix \<or> \<not> HasSuffix pattern importedSuffix then None
      else let body = TrimSuffix (TrimPrefix pattern importedPrefix) importedSuffix in
        if body = [] then None
        else those (map parseImportedHost (Split body CHR ''|'')))"

subsection \<open>Compiling and running a matcher\<close>

datatype patternError = InvalidRegex string

definition compileMatcher :: "golib \<Rightarrow> string \<Rightarrow> (patternError, matcher) res" where
  "compileMatcher G pattern =
     (if pattern = [] then Inr (zeroMatcher\<lparr>always := True\<rparr>)
      else case CutPrefix pattern ''re:'' of
        Some rest \<Rightarrow>
          (case parseImportedSuffixRegex rest of
             Some hosts \<Rightarrow> Inr (zeroMatcher\<lparr>suffixes := Some hosts\<rparr>)
           | None \<Rightarrow>
               (case regexp_Compile G rest of
                  None \<Rightarrow> Inl (InvalidRegex pattern)
                | Some r \<Rightarrow> Inr (zeroMatcher\<lparr>re := Some r\<rparr>)))
      | None \<Rightarrow> Inr (zeroMatcher\<lparr>glob := pattern\<rparr>))"

definition suffixMatches :: "golib \<Rightarrow> string \<Rightarrow> string \<Rightarrow> bool" where
  "suffixMatches G s suffix \<longleftrightarrow>
     (length s = length suffix \<and> EqualFold G s suffix) \<or>
     (length suffix < length s \<and>
      (let start = length s - length suffix in
       s ! (start - 1) = CHR ''.'' \<and> EqualFold G (drop start s) suffix))"

definition matches :: "golib \<Rightarrow> matcher \<Rightarrow> string \<Rightarrow> bool" where
  "matches G m s =
     (if always m then True
      else case suffixes m of
        Some hosts \<Rightarrow> list_ex (suffixMatches G s) hosts
      | None \<Rightarrow>
          (case re m of
             Some r \<Rightarrow> r s
           | None \<Rightarrow> pathMatch (glob m) s = Inr True))"

subsection \<open>The suffixes a matcher implies\<close>

definition importedSuffixRegex :: "matcher \<Rightarrow> string list option" where
  "importedSuffixRegex m = suffixes m"

definition literalGlobSuffix :: "matcher \<Rightarrow> string" where
  "literalGlobSuffix m =
     (if always m \<or> re m \<noteq> None \<or> suffixes m \<noteq> None \<or> glob m = [] then []
      else Join (rev (takeWhile isLiteralDNSLabel (rev (Split (glob m) CHR ''.'')))) ''.'')"

lemma dnsByte_litByte: "dnsByte c \<Longrightarrow> litByte c \<and> c \<noteq> CHR ''.''"
  by (auto simp: dnsByte_def litByte_def less_eq_char_def)

lemma litByte_lower: "litByte c \<Longrightarrow> ascii c \<and> asciiLower c = c"
  by (auto simp: litByte_def ascii_def asciiLower_def Let_def less_eq_char_def of_char_int)

lemma litByte_dot [simp]: "litByte CHR ''.''"
  by (simp add: litByte_def)

lemma isLiteralDNSLabel_iff:
  "isLiteralDNSLabel l \<longleftrightarrow> l \<noteq> [] \<and> hd l \<noteq> CHR ''-'' \<and> last l \<noteq> CHR ''-'' \<and> list_all dnsByte l"
  by (auto simp: isLiteralDNSLabel_def)

text \<open>A domain of literal labels, as both extractions produce it.\<close>

definition literalDomain :: "string list \<Rightarrow> bool" where
  "literalDomain ls \<longleftrightarrow> ls \<noteq> [] \<and> list_all isLiteralDNSLabel ls"

lemma isLiteralDNSLabel_litBytes: "isLiteralDNSLabel l \<Longrightarrow> list_all litByte l \<and> CHR ''.'' \<notin> set l \<and> l \<noteq> []"
  by (auto simp: isLiteralDNSLabel_iff list_all_iff dest: dnsByte_litByte)

lemma Join_litBytes: "list_all isLiteralDNSLabel ls \<Longrightarrow> list_all litByte (Join ls ''.'')"
  by (induction ls "''.''" rule: Join.induct) (auto dest: isLiteralDNSLabel_litBytes)

lemma Join_not_Nil: "literalDomain ls \<Longrightarrow> Join ls ''.'' \<noteq> []"
  by (cases ls; cases "tl ls") (auto simp: literalDomain_def dest: isLiteralDNSLabel_litBytes)

lemma lower_litBytes: "list_all litByte l \<Longrightarrow> ToLower G l = l"
  by (auto simp: ToLower_def list_all_iff dest: litByte_lower intro!: map_idI)

text \<open>The host a lookup walks, against a literal domain.\<close>

definition endsInDomain :: "golib \<Rightarrow> string \<Rightarrow> string list \<Rightarrow> bool" where
  "endsInDomain G host ls \<longleftrightarrow>
     (let h = ToLower G (TrimSuffix host ''.'') in
      h = Join ls ''.'' \<or> (\<exists>p. h = p @ ''.'' @ Join ls ''.''))"

lemma literalDomain_last:
  assumes "literalDomain ls"
  shows "last (Join ls ''.'') \<noteq> CHR ''.''"
  using assms
proof (induction ls rule: rev_induct)
  case (snoc l ls)
  then have "l \<noteq> []" "CHR ''.'' \<notin> set l"
    by (auto simp: literalDomain_def dest!: isLiteralDNSLabel_litBytes)
  moreover from this have "last l \<noteq> CHR ''.''" using last_in_set by fastforce
  ultimately show ?case by (cases "ls = []") (auto simp: Join_append)
qed (simp add: literalDomain_def)

lemma endsInDomain_literal:
  assumes ls: "literalDomain ls"
    and host: "host = d \<or> (\<exists>p. host = p @ CHR ''.'' # d)"
    and d: "\<forall>c \<in> set d. ascii c" "map asciiLower d = Join ls ''.''"
  shows "endsInDomain G host ls"
proof -
  have ne: "d \<noteq> []" using d(2) Join_not_Nil [OF ls] by auto
  have "last d \<noteq> CHR ''.''"
  proof
    assume "last d = CHR ''.''"
    with ne have "last (map asciiLower d) = CHR ''.''" by (simp add: last_map asciiLower_def)
    with d(2) literalDomain_last [OF ls] show False by simp
  qed
  with ne host have "TrimSuffix host ''.'' = host" by (intro TrimSuffix_last) auto
  moreover have low: "ToLower G d = Join ls ''.''"
    using d by (simp add: ToLower_ascii)
  moreover have "ToLower G (p @ CHR ''.'' # d) = ToLower G p @ ''.'' @ Join ls ''.''" for p
    using low litByte_lower [OF litByte_dot] by (simp add: ToLower_append_ascii)
  ultimately show ?thesis
    using host by (auto simp: endsInDomain_def Let_def)
qed

lemma literal_lower: "literalDomain ls \<Longrightarrow> (\<forall>c \<in> set (Join ls ''.''). ascii c \<and> asciiLower c = c)"
  using Join_litBytes [of ls] by (auto simp: literalDomain_def list_all_iff dest: litByte_lower)

lemma suffixMatches_endsInDomain:
  assumes ls: "literalDomain ls" and "suffixMatches G host (Join ls ''.'')"
  shows "endsInDomain G host ls"
proof -
  let ?suffix = "Join ls ''.''"
  obtain d where d: "host = d \<or> (\<exists>p. host = p @ CHR ''.'' # d)" "length d = length ?suffix" "EqualFold G d ?suffix"
  proof (cases "length host = length ?suffix \<and> EqualFold G host ?suffix")
    case True
    then show ?thesis by (intro that [of host]) auto
  next
    case False
    define start where "start = length host - length ?suffix"
    from False assms(2) have start: "length ?suffix < length host" "host ! (start - 1) = CHR ''.''"
        "EqualFold G (drop start host) ?suffix"
      by (auto simp: suffixMatches_def Let_def start_def)
    have "host = take (start - 1) host @ host ! (start - 1) # drop start host"
    proof -
      have "start - 1 < length host" "Suc (start - 1) = start" using start(1) by (auto simp: start_def)
      then show ?thesis by (metis id_take_nth_drop)
    qed
    with start show ?thesis by (intro that [of "drop start host"]) (auto simp: start_def)
  qed
  from EqualFold_ascii_lower [OF d(3,2) literal_lower [OF ls]] d(1)
  show ?thesis by (intro endsInDomain_literal [OF ls]) auto
qed

lemma literalGlobSuffix_labels:
  assumes "literalGlobSuffix m \<noteq> []"
  obtains as ls where "Split (glob m) CHR ''.'' = as @ ls" "literalDomain ls" "literalGlobSuffix m = Join ls ''.''"
    "\<not> always m" "re m = None" "suffixes m = None"
proof -
  define ls where "ls = rev (takeWhile isLiteralDNSLabel (rev (Split (glob m) CHR ''.'')))"
  have suf: "literalGlobSuffix m = Join ls ''.''" "\<not> always m" "re m = None" "suffixes m = None"
    using assms by (auto simp: literalGlobSuffix_def ls_def split: if_splits)
  have "rev (Split (glob m) CHR ''.'') = rev ls @ dropWhile isLiteralDNSLabel (rev (Split (glob m) CHR ''.''))"
    by (simp add: ls_def)
  then have "Split (glob m) CHR ''.'' = rev (dropWhile isLiteralDNSLabel (rev (Split (glob m) CHR ''.''))) @ ls"
    by (metis rev_append rev_rev_ident)
  moreover have "literalDomain ls"
    using assms suf(1) by (auto simp: literalDomain_def list_all_iff ls_def dest: set_takeWhileD)
  ultimately show thesis using suf that by blast
qed

lemma literalGlobSuffix_endsInDomain:
  assumes "literalGlobSuffix m = Join ls ''.''" "literalDomain ls" "matches G m host"
  shows "endsInDomain G host ls"
proof -
  have "literalGlobSuffix m \<noteq> []" using assms Join_not_Nil by simp
  then obtain as ls' where l: "Split (glob m) CHR ''.'' = as @ ls'" "literalDomain ls'"
      "literalGlobSuffix m = Join ls' ''.''" and plain: "\<not> always m" "re m = None" "suffixes m = None"
    by (rule literalGlobSuffix_labels)
  have nodot: "\<forall>l \<in> set ks. CHR ''.'' \<notin> set l" "ks \<noteq> []" if "literalDomain ks" for ks
    using that isLiteralDNSLabel_litBytes by (auto simp: literalDomain_def list_all_iff)
  have "ls' = ls"
    using assms(1,2) l(2,3) Split_Join nodot by metis
  have glob: "glob m = Join (as @ ls) ''.''"
    using Join_Split [of "glob m" "CHR ''.''"] l(1) \<open>ls' = ls\<close> by simp
  have run: "pathMatch (glob m) host = Inr True"
    using assms(3) plain by (simp add: matches_def)
  have lits: "list_all litByte (Join ls ''.'')"
    using assms(2) by (intro Join_litBytes) (simp add: literalDomain_def)
  have low: "map asciiLower (Join ls ''.'') = Join ls ''.''"
    using literal_lower [OF assms(2)] by (auto intro!: map_idI)
  have "host = Join ls ''.'' \<or> (\<exists>p. host = p @ CHR ''.'' # Join ls ''.'')"
  proof (cases "as = []")
    case True
    with run glob lits show ?thesis by (simp add: pathMatch_literal)
  next
    case False
    then have "glob m = Join as ''.'' @ (CHR ''.'' # Join ls ''.'')"
      using glob assms(2) by (simp add: Join_append literalDomain_def)
    with run pathMatch_lit_suffix [of "CHR ''.'' # Join ls ''.''" "Join as ''.''" host] lits
    show ?thesis by simp
  qed
  with low literal_lower [OF assms(2)] show ?thesis
    by (intro endsInDomain_literal [OF assms(2)]) auto
qed

text \<open>Every matcher the compiler returns has literal suffixes only.\<close>

definition wfMatcher :: "matcher \<Rightarrow> bool" where
  "wfMatcher m \<longleftrightarrow>
     (case suffixes m of
        None \<Rightarrow> True
      | Some hosts \<Rightarrow>
          \<not> always m \<and> hosts \<noteq> [] \<and> list_all (\<lambda>h. literalDomain (Split h CHR ''.'')) hosts)"

lemma parseImportedHost_literal:
  "parseImportedHost atom = Some h \<Longrightarrow> literalDomain (Split h CHR ''.'') \<and> 2 \<le> length (Split h CHR ''.'')"
  by (auto simp: parseImportedHost_def literalDomain_def Let_def split: option.splits if_splits)

lemma those_Some: "those xs = Some ys \<longleftrightarrow> xs = map Some ys"
  by (induction xs arbitrary: ys) (auto split: option.splits simp: Cons_eq_map_conv)

lemma parseImportedSuffixRegex_literal:
  assumes "parseImportedSuffixRegex p = Some hosts"
  shows "hosts \<noteq> [] \<and> list_all (\<lambda>h. literalDomain (Split h CHR ''.'')) hosts"
proof -
  obtain body where body: "map parseImportedHost (Split body CHR ''|'') = map Some hosts"
    using assms by (auto simp: parseImportedSuffixRegex_def Let_def those_Some split: if_splits)
  then have "length (Split body CHR ''|'') = length hosts" by (metis length_map)
  then have "hosts \<noteq> []" by (metis Split_not_Nil length_0_conv)
  moreover have "literalDomain (Split h CHR ''.'')" if "h \<in> set hosts" for h
  proof -
    from that have "Some h \<in> set (map parseImportedHost (Split body CHR ''|''))" unfolding body by simp
    then obtain a where "parseImportedHost a = Some h" by auto
    then show ?thesis using parseImportedHost_literal by blast
  qed
  ultimately show ?thesis by (simp add: list_all_iff)
qed

lemma compileMatcher_wf: "compileMatcher G p = Inr m \<Longrightarrow> wfMatcher m"
  by (auto simp: compileMatcher_def wfMatcher_def zeroMatcher_def dest: parseImportedSuffixRegex_literal
      split: if_splits option.splits)

end
