(* ===== verification/HostIndex.thy ===== *)
theory HostIndex
  imports Matcher "HOL-Library.AList" "HOL-Library.Multiset"
begin

text \<open>
  The reversed-label host index of \<open>src/internal/rules/host_index.go\<close>: the mutable tree built
  while compiling, its flattening into the slices \<open>nodes\<close>, \<open>edges\<close> and
  \<open>ruleIDs\<close> with 32-bit offsets, the binary search in a node's edges, and the walk that
  gathers the candidates of a host.

  The lemmas go in three layers. The loops that cut a host at its dots are equated with a walk over
  the list of labels. The tree is described by the rules met along a path of labels. The flattened
  index is shown to represent the tree, so that the lookup in the slices collects what the walk in
  the tree collects; here the offsets must fit 32 bits.
\<close>

record hostIndexNode =
  edgeStart :: "32 word"
  edgeCount :: "32 word"
  ruleStart :: "32 word"
  ruleCount :: "32 word"

record hostIndexEdge =
  edge_label :: string
  edge_child :: "32 word"

record hostCandidateIndex =
  nodes :: "hostIndexNode list"
  edges :: "hostIndexEdge list"
  ruleIDs :: "nat list"
  fallback :: "nat list"

datatype mutableHostIndexNode =
  MNode (children: "(string \<times> mutableHostIndexNode) list") (node_rules: "nat list")

definition emptyNode :: mutableHostIndexNode where
  "emptyNode = MNode [] []"

subsection \<open>Cutting a host at its dots\<close>

definition labelStart :: "string \<Rightarrow> nat \<Rightarrow> nat" where
  "labelStart host end = nat (LastIndexByte (take end host) CHR ''.'' + 1)"

lemma labelStart_le: "labelStart host end \<le> end"
  using LastIndexByte_less [of "take end host" "CHR ''.''"]
  by (auto simp: labelStart_def)

lemma labelStart_less: "0 < end \<Longrightarrow> labelStart host end - Suc 0 < end"
  using labelStart_le [of host "end"] by simp

function walkLabels :: "string \<Rightarrow> nat \<Rightarrow> string list" where
  "walkLabels host end =
     (if end = 0 then []
      else let start = labelStart host end in
        slice host start end # (if start = 0 then [] else walkLabels host (start - 1)))"
  by pat_completeness auto
termination
  by (relation "measure snd") (auto simp: labelStart_less)

declare walkLabels.simps [simp del]

abbreviation labelsOf :: "string \<Rightarrow> string list" where
  "labelsOf host \<equiv> walkLabels host (length host)"

lemma walkLabels_0 [simp]: "walkLabels host 0 = []"
  by (simp add: walkLabels.simps)

lemma labelStart_append: "end \<le> length p \<Longrightarrow> labelStart (p @ q) end = labelStart p end"
  by (simp add: labelStart_def)

lemma slice_append: "j \<le> length p \<Longrightarrow> slice (p @ q) i j = slice p i j"
  by (simp add: slice_def)

lemma walkLabels_append: "end \<le> length p \<Longrightarrow> walkLabels (p @ q) end = walkLabels p end"
proof (induction p "end" rule: walkLabels.induct)
  case (1 p e)
  show ?case
  proof (cases "e = 0")
    case False
    have "labelStart p e - 1 \<le> length p" using labelStart_le [of p e] 1(2) by simp
    with 1 False show ?thesis
      by (simp add: walkLabels.simps [of "p @ q"] walkLabels.simps [of p] labelStart_append slice_append Let_def)
  qed simp
qed

lemma labelsOf_single: "s \<noteq> [] \<Longrightarrow> CHR ''.'' \<notin> set s \<Longrightarrow> labelsOf s = [s]"
  by (subst walkLabels.simps) (simp add: labelStart_def LastIndexByte_none slice_def)

lemma labelsOf_snoc:
  assumes "CHR ''.'' \<notin> set l"
  shows "labelsOf (p @ CHR ''.'' # l) = l # labelsOf p"
proof -
  let ?h = "p @ CHR ''.'' # l"
  have "labelStart ?h (length ?h) = Suc (length p)"
    using LastIndexByte_append [OF assms, of p] by (simp add: labelStart_def)
  moreover have "slice ?h (Suc (length p)) (length ?h) = l" by (simp add: slice_def)
  moreover have "walkLabels ?h (length p) = labelsOf p" by (rule walkLabels_append) simp
  ultimately show ?thesis
    by (subst walkLabels.simps) (simp del: length_append)
qed

lemma labelsOf_Join:
  assumes "\<forall>l \<in> set ls. l \<noteq> [] \<and> CHR ''.'' \<notin> set l" and "ls \<noteq> []"
  shows "labelsOf (Join ls ''.'') = rev ls"
  using assms
proof (induction ls rule: rev_induct)
  case (snoc l ls)
  then show ?case
    by (cases "ls = []") (auto simp: labelsOf_single Join_append labelsOf_snoc simp del: length_append)
qed simp

lemma labelsOf_append_Join:
  assumes "\<forall>l \<in> set ls. l \<noteq> [] \<and> CHR ''.'' \<notin> set l" and "ls \<noteq> []"
  shows "labelsOf (p @ ''.'' @ Join ls ''.'') = rev ls @ labelsOf p"
  using assms
proof (induction ls rule: rev_induct)
  case (snoc l ls)
  show ?case
  proof (cases "ls = []")
    case True
    with snoc show ?thesis by (simp add: labelsOf_snoc del: length_append)
  next
    case False
    with snoc have "labelsOf ((p @ ''.'' @ Join ls ''.'') @ CHR ''.'' # l) = l # labelsOf (p @ ''.'' @ Join ls ''.'')"
      by (intro labelsOf_snoc) simp
    with snoc False show ?thesis by (simp add: Join_append del: length_append)
  qed
qed simp

subsection \<open>The mutable tree\<close>

definition addRule :: "mutableHostIndexNode \<Rightarrow> nat \<Rightarrow> mutableHostIndexNode" where
  "addRule node ruleID =
     (if node_rules node = [] \<or> last (node_rules node) \<noteq> ruleID
      then MNode (children node) (node_rules node @ [ruleID]) else node)"

definition getChild :: "mutableHostIndexNode \<Rightarrow> string \<Rightarrow> mutableHostIndexNode" where
  "getChild node label =
     (case map_of (children node) label of None \<Rightarrow> emptyNode | Some child \<Rightarrow> child)"

definition setChild ::
    "mutableHostIndexNode \<Rightarrow> string \<Rightarrow> mutableHostIndexNode \<Rightarrow> mutableHostIndexNode" where
  "setChild node label child = MNode (AList.update label child (children node)) (node_rules node)"

text \<open>
  \<open>insertHostSuffix\<close>: the loop moves to the child of the label before \<open>end\<close>, which it
  creates when missing; the update of the child is the update of the tree.
\<close>

function insertFrom ::
    "mutableHostIndexNode \<Rightarrow> string \<Rightarrow> nat \<Rightarrow> nat \<Rightarrow> mutableHostIndexNode" where
  "insertFrom node host end ruleID =
     (if end = 0 then addRule node ruleID
      else let start = labelStart host end;
               label = slice host start end;
               child = getChild node label
           in setChild node label
                (if start = 0 then addRule child ruleID
                 else insertFrom child host (start - 1) ruleID))"
  by pat_completeness auto
termination
  by (relation "measure (\<lambda>(node, host, end, r). end)")
    (auto simp: labelStart_less)

declare insertFrom.simps [simp del]

definition insertHostSuffix :: "mutableHostIndexNode \<Rightarrow> string \<Rightarrow> nat \<Rightarrow> mutableHostIndexNode" where
  "insertHostSuffix rootNode host ruleID = insertFrom rootNode host (length host) ruleID"

fun insertLabels :: "mutableHostIndexNode \<Rightarrow> string list \<Rightarrow> nat \<Rightarrow> mutableHostIndexNode" where
  "insertLabels node [] ruleID = addRule node ruleID"
| "insertLabels node (l # ls) ruleID = setChild node l (insertLabels (getChild node l) ls ruleID)"

lemma insertFrom_labels: "insertFrom node host end r = insertLabels node (walkLabels host end) r"
proof (induction node host "end" r rule: insertFrom.induct)
  case (1 node host e r)
  then show ?case
    by (simp add: insertFrom.simps [of node] walkLabels.simps [of host e] Let_def)
qed

text \<open>The rules a walk meets below a node, and when an insertion adds to them.\<close>

fun collect :: "mutableHostIndexNode \<Rightarrow> string list \<Rightarrow> nat list" where
  "collect node [] = []"
| "collect node (l # ls) =
     (case map_of (children node) l of
        None \<Rightarrow> []
      | Some c \<Rightarrow> node_rules c @ collect c ls)"

fun wfNode :: "mutableHostIndexNode \<Rightarrow> bool" where
  "wfNode (MNode cs rs) \<longleftrightarrow> distinct (map fst cs) \<and> (\<forall>p \<in> set cs. wfNode (snd p))"

lemma wfNode_empty [simp]: "wfNode emptyNode"
  by (simp add: emptyNode_def)

lemma set_addRule [simp]: "set (node_rules (addRule n r)) = insert r (set (node_rules n))"
  by (auto simp: addRule_def)

lemma children_addRule [simp]: "children (addRule n r) = children n"
  by (simp add: addRule_def)

lemma wfNode_children: "wfNode n \<longleftrightarrow> distinct (map fst (children n)) \<and> (\<forall>p \<in> set (children n). wfNode (snd p))"
  by (cases n) simp

lemma wfNode_getChild: "wfNode n \<Longrightarrow> wfNode (getChild n l)"
  by (auto simp: getChild_def wfNode_children [of n] dest: map_of_SomeD split: option.split)

lemma set_AList_update: "p \<in> set (AList.update k v al) \<Longrightarrow> p = (k, v) \<or> p \<in> set al"
  by (induction al) (auto split: if_splits)

lemma wfNode_insertLabels: "wfNode n \<Longrightarrow> wfNode (insertLabels n ls r)"
proof (induction n ls r rule: insertLabels.induct)
  case (1 node r)
  then show ?case by (simp add: wfNode_children [of node] wfNode_children [of "addRule node r"])
next
  case (2 node l ls r)
  then have child: "wfNode (insertLabels (getChild node l) ls r)"
    by (simp add: wfNode_getChild)
  show ?case
    unfolding wfNode_children [of "insertLabels node (l # ls) r"]
  proof (intro conjI ballI)
    show "distinct (map fst (children (insertLabels node (l # ls) r)))"
      using 2(2) by (simp add: setChild_def wfNode_children [of node] distinct_update)
  next
    fix p assume "p \<in> set (children (insertLabels node (l # ls) r))"
    then have "p = (l, insertLabels (getChild node l) ls r) \<or> p \<in> set (children node)"
      by (simp add: setChild_def set_AList_update)
    with child 2(2) show "wfNode (snd p)" by (auto simp: wfNode_children [of node])
  qed
qed

lemma rules_insertLabels: "ls \<noteq> [] \<Longrightarrow> node_rules (insertLabels n ls r) = node_rules n"
  by (cases ls) (simp_all add: setChild_def)

lemma collect_addRule [simp]: "collect (addRule n r) ps = collect n ps"
  by (cases ps) (simp_all split: option.split)

lemma collect_emptyNode [simp]: "collect emptyNode ps = []" "node_rules emptyNode = []"
  by (cases ps) (simp_all add: emptyNode_def)

lemma collect_getChild:
  "collect n (l # ps) = node_rules (getChild n l) @ collect (getChild n l) ps"
  by (simp add: getChild_def split: option.split)

lemma getChild_setChild: "getChild (setChild n l c) k = (if k = l then c else getChild n k)"
  by (simp add: getChild_def setChild_def update_conv')

lemma set_collect_insertLabels:
  "set (collect (insertLabels n ls r) ps) =
     set (collect n ps) \<union> (if ls \<noteq> [] \<and> take (length ls) ps = ls then {r} else {})"
proof (induction n ls r arbitrary: ps rule: insertLabels.induct)
  case (2 node l ls r)
  show ?case
  proof (cases ps)
    case (Cons p ps')
    show ?thesis
    proof (cases "ls = []")
      case True
      with Cons show ?thesis
        by (auto simp: collect_getChild getChild_setChild simp del: collect.simps)
    next
      case False
      with Cons 2 [of ps'] show ?thesis
        by (auto simp: collect_getChild getChild_setChild rules_insertLabels simp del: collect.simps)
    qed
  qed simp
qed simp

subsection \<open>Flattening\<close>

text \<open>
  The first loop of \<open>compactHostIndex\<close> walks the tree breadth first. \<open>next\<close> is the number
  of builders so far, the identifier of the next child it appends; each visited node is returned
  with its sorted labels and the identifiers of its children.
\<close>

fun nodeSize :: "mutableHostIndexNode \<Rightarrow> nat" where
  "nodeSize (MNode cs rs) = Suc (sum_list (map (\<lambda>p. nodeSize (snd p)) cs))"

definition sortedChildren :: "mutableHostIndexNode \<Rightarrow> (string \<times> mutableHostIndexNode) list" where
  "sortedChildren n = sort_key fst (children n)"

lemma nodeSize_kids: "sum_list (map (\<lambda>p. nodeSize (snd p)) (sortedChildren n)) < nodeSize n"
proof -
  have "mset (map (\<lambda>p. nodeSize (snd p)) (sortedChildren n)) = mset (map (\<lambda>p. nodeSize (snd p)) (children n))"
    by (simp add: sortedChildren_def)
  then have "sum_list (map (\<lambda>p. nodeSize (snd p)) (sortedChildren n)) = sum_list (map (\<lambda>p. nodeSize (snd p)) (children n))"
    by (metis sum_mset_sum_list)
  then show ?thesis by (cases n) simp
qed

function bfs :: "nat \<Rightarrow> mutableHostIndexNode list \<Rightarrow> (mutableHostIndexNode \<times> hostIndexEdge list) list" where
  "bfs next [] = []"
| "bfs next (n # queue) =
     (let labels = map fst (sortedChildren n);
          kids = map snd (sortedChildren n);
          k = length labels
      in (n, map2 (\<lambda>l i. \<lparr>edge_label = l, edge_child = of_nat i\<rparr>) labels [next..<next + k])
         # bfs (next + k) (queue @ kids))"
  by pat_completeness auto
termination
proof (relation "measure (\<lambda>(next, q). sum_list (map nodeSize q))", goal_cases)
  case (2 nxt n queue x xa xb)
  with nodeSize_kids [of n] show ?case by (simp add: comp_def)
qed simp

text \<open>The second loop lays the builders out, one node record each.\<close>

definition emitNode ::
    "hostCandidateIndex \<Rightarrow> mutableHostIndexNode \<times> hostIndexEdge list \<Rightarrow> hostCandidateIndex" where
  "emitNode idx b =
     (let es = edges idx @ snd b; rs = ruleIDs idx @ node_rules (fst b);
          node = \<lparr>edgeStart = of_nat (length (edges idx)),
                  edgeCount = of_nat (length es) - of_nat (length (edges idx)),
                  ruleStart = of_nat (length (ruleIDs idx)),
                  ruleCount = of_nat (length rs) - of_nat (length (ruleIDs idx))\<rparr>
      in idx\<lparr>nodes := nodes idx @ [node], edges := es, ruleIDs := rs\<rparr>)"

definition compactHostIndex :: "mutableHostIndexNode \<Rightarrow> nat list \<Rightarrow> hostCandidateIndex" where
  "compactHostIndex rootNode fb =
     foldl emitNode \<lparr>nodes = [], edges = [], ruleIDs = [], fallback = fb\<rparr> (bfs 1 [rootNode])"

lemma bfs_Cons:
  "bfs next (n # queue) =
     (n, map2 (\<lambda>l i. \<lparr>edge_label = l, edge_child = of_nat i\<rparr>) (map fst (sortedChildren n))
           [next..<next + length (sortedChildren n)])
     # bfs (next + length (sortedChildren n)) (queue @ map snd (sortedChildren n))"
  by (simp add: Let_def)

text \<open>
  With \<open>off\<close> the identifier of the head of the queue, the builder with identifier \<open>c\<close>
  stands at position \<open>c - off\<close>.
\<close>

definition childAt ::
    "nat \<Rightarrow> (mutableHostIndexNode \<times> hostIndexEdge list) list \<Rightarrow> nat \<Rightarrow> bool" where
  "childAt off out j \<longleftrightarrow>
     (let (n, es) = out ! j in
      length es = length (sortedChildren n) \<and>
      (\<forall>i < length es. edge_label (es ! i) = fst (sortedChildren n ! i) \<and>
         (\<exists>c. edge_child (es ! i) = of_nat c \<and> off \<le> c \<and> c - off < length out \<and>
              fst (out ! (c - off)) = snd (sortedChildren n ! i))))"

lemma bfs_layout:
  "nxt = off + length queue \<Longrightarrow>
    length queue \<le> length (bfs nxt queue) \<and>
    (\<forall>j < length queue. fst (bfs nxt queue ! j) = queue ! j) \<and>
    (\<forall>j < length (bfs nxt queue). childAt off (bfs nxt queue) j)"
proof (induction nxt queue arbitrary: off rule: bfs.induct)
  case (2 nxt n queue)
  let ?k = "length (sortedChildren n)"
  let ?q = "queue @ map snd (sortedChildren n)"
  define out where "out = bfs (nxt + ?k) ?q"
  define es where "es = map2 (\<lambda>l i. \<lparr>edge_label = l, edge_child = of_nat i\<rparr>) (map fst (sortedChildren n)) [nxt..<nxt + ?k]"
  have whole: "bfs nxt (n # queue) = (n, es) # out"
    by (simp only: bfs_Cons out_def es_def)
  have nxt: "nxt + ?k = Suc off + length ?q" "nxt = Suc (off + length queue)" using 2(2) by simp_all
  have IH: "length ?q \<le> length out" "\<forall>j < length ?q. fst (out ! j) = ?q ! j"
      "\<forall>j < length out. childAt (Suc off) out j"
    using 2(1) [OF refl refl refl, of "Suc off"] nxt(1) by (simp_all add: out_def add.assoc)
  have les: "length es = ?k" by (simp add: es_def)
  have head: "childAt off ((n, es) # out) 0"
    unfolding childAt_def
  proof (simp add: les, intro allI impI)
    fix i assume i: "i < ?k"
    have e: "edge_label (es ! i) = fst (sortedChildren n ! i)" "edge_child (es ! i) = of_nat (nxt + i)"
      using i by (simp_all add: es_def)
    have pos: "nxt + i - off = Suc (length queue + i)" using nxt(2) by simp
    have "fst (((n, es) # out) ! (nxt + i - off)) = snd (sortedChildren n ! i)"
      unfolding pos using IH(2) i by (simp add: nth_append)
    moreover have "nxt + i - off < Suc (length out)" unfolding pos using IH(1) i by simp
    ultimately show "edge_label (es ! i) = fst (sortedChildren n ! i) \<and>
       (\<exists>c. edge_child (es ! i) = of_nat c \<and> off \<le> c \<and> c - off < Suc (length out) \<and>
            fst (((n, es) # out) ! (c - off)) = snd (sortedChildren n ! i))"
      using e nxt(2) by (intro conjI exI [of _ "nxt + i"]) simp_all
  qed
  have tail: "childAt off ((n, es) # out) (Suc j)" if "j < length out" for j
  proof -
    obtain m fs where m: "out ! j = (m, fs)" by (cases "out ! j")
    from IH(3) that have "childAt (Suc off) out j" by blast
    then have l: "length fs = length (sortedChildren m)"
      and ch: "\<forall>i < length fs. edge_label (fs ! i) = fst (sortedChildren m ! i) \<and>
        (\<exists>c. edge_child (fs ! i) = of_nat c \<and> Suc off \<le> c \<and> c - Suc off < length out \<and>
            fst (out ! (c - Suc off)) = snd (sortedChildren m ! i))"
      by (simp_all add: childAt_def m)
    have "\<exists>c. edge_child (fs ! i) = of_nat c \<and> off \<le> c \<and> c - off < length ((n, es) # out) \<and>
            fst (((n, es) # out) ! (c - off)) = snd (sortedChildren m ! i)" if "i < length fs" for i
    proof -
      from ch that obtain c where c: "edge_child (fs ! i) = of_nat c" "Suc off \<le> c"
          "c - Suc off < length out" "fst (out ! (c - Suc off)) = snd (sortedChildren m ! i)" by blast
      have "c - off = Suc (c - Suc off)" using c(2) by simp
      with c show ?thesis by (intro exI [of _ c]) simp
    qed
    with l ch show ?thesis by (simp add: childAt_def m)
  qed
  have "\<forall>j < length ((n, es) # out). childAt off ((n, es) # out) j"
    using head tail by (auto simp: less_Suc_eq_0_disj)
  moreover have "\<forall>j < length (n # queue). fst (((n, es) # out) ! j) = (n # queue) ! j"
    using IH(2) by (auto simp: less_Suc_eq_0_disj nth_append)
  ultimately show ?case
    using IH(1) unfolding whole by simp
qed simp

lemma emit_layout:
  fixes bl :: "(mutableHostIndexNode \<times> hostIndexEdge list) list" and fb :: "nat list"
  defines "start \<equiv> \<lambda>j. length (concat (map snd (take j bl)))"
    and "rstart \<equiv> \<lambda>j. length (concat (map (node_rules \<circ> fst) (take j bl)))"
  defines "idx \<equiv> foldl emitNode \<lparr>nodes = [], edges = [], ruleIDs = [], fallback = fb\<rparr> bl"
  shows "edges idx = concat (map snd bl) \<and> ruleIDs idx = concat (map (node_rules \<circ> fst) bl) \<and>
    fallback idx = fb \<and> length (nodes idx) = length bl \<and>
    (\<forall>j < length bl. nodes idx ! j =
       \<lparr>edgeStart = of_nat (start j), edgeCount = of_nat (length (snd (bl ! j))),
        ruleStart = of_nat (rstart j), ruleCount = of_nat (length (node_rules (fst (bl ! j))))\<rparr>)"
  unfolding idx_def start_def rstart_def
proof (induction bl rule: rev_induct)
  case (snoc b bl)
  then show ?case
    by (auto simp: emitNode_def Let_def nth_append less_Suc_eq)
qed simp

lemma concat_nth:
  "j < length xs \<Longrightarrow> i < length (xs ! j) \<Longrightarrow> concat xs ! (length (concat (take j xs)) + i) = xs ! j ! i"
proof (induction xs arbitrary: j)
  case (Cons x xs)
  then show ?case by (cases j) (simp_all add: nth_append)
qed simp

lemma concat_length_take: "j < length xs \<Longrightarrow> length (concat (take j xs)) + length (xs ! j) \<le> length (concat xs)"
proof (induction xs arbitrary: j)
  case (Cons x xs)
  then show ?case by (cases j) simp_all
qed simp

lemma concat_slice:
  assumes "j < length xs"
  shows "slice (concat xs) (length (concat (take j xs))) (length (concat (take j xs)) + length (xs ! j)) = xs ! j"
proof (intro nth_equalityI)
  show "length (slice (concat xs) (length (concat (take j xs))) (length (concat (take j xs)) + length (xs ! j))) = length (xs ! j)"
    using concat_length_take [OF assms] by (simp add: slice_def)
qed (use assms concat_length_take [OF assms] in \<open>auto simp: slice_def concat_nth\<close>)

subsection \<open>Lookup in the flattened index\<close>

function findPos :: "hostIndexEdge list \<Rightarrow> string \<Rightarrow> nat \<Rightarrow> nat \<Rightarrow> nat" where
  "findPos es label lo hi =
     (if lo < hi then
        (let mid = (lo + hi) div 2 in
         if edge_label (es ! mid) < label then findPos es label (mid + 1) hi
         else findPos es label lo mid)
      else lo)"
  by pat_completeness auto
termination
  by (relation "measure (\<lambda>(es, label, lo, hi). hi - lo)") auto

declare findPos.simps [simp del]

definition findChild :: "hostCandidateIndex \<Rightarrow> 32 word \<Rightarrow> string \<Rightarrow> (32 word) option" where
  "findChild idx nodeID label =
     (let node = nodes idx ! unat nodeID;
          lo0 = unat (edgeStart node);
          lo = findPos (edges idx) label lo0 (lo0 + unat (edgeCount node));
          end = unat (edgeStart node + edgeCount node)
      in if lo = end \<or> edge_label (edges idx ! lo) \<noteq> label then None
         else Some (edge_child (edges idx ! lo)))"

text \<open>The walk of \<open>appendCandidates\<close>: the rules of every node it reaches.\<close>

function walkNodes :: "hostCandidateIndex \<Rightarrow> string \<Rightarrow> nat \<Rightarrow> 32 word \<Rightarrow> nat list" where
  "walkNodes idx host end nodeID =
     (if end = 0 then []
      else let start = labelStart host end in
        case findChild idx nodeID (slice host start end) of
          None \<Rightarrow> []
        | Some childID \<Rightarrow>
            let node = nodes idx ! unat childID in
            slice (ruleIDs idx) (unat (ruleStart node)) (unat (ruleStart node + ruleCount node)) @
            (if start = 0 then [] else walkNodes idx host (start - 1) childID))"
  by pat_completeness auto
termination
  by (relation "measure (\<lambda>(idx, host, end, nodeID). end)") (auto simp: labelStart_less)

declare walkNodes.simps [simp del]

text \<open>The in-place removal of duplicates from the sorted result.\<close>

fun dedupLoop :: "nat list \<Rightarrow> nat list \<Rightarrow> nat list" where
  "dedupLoop out [] = out"
| "dedupLoop out (x # xs) = dedupLoop (if x \<noteq> last out then out @ [x] else out) xs"

definition appendCandidates :: "golib \<Rightarrow> hostCandidateIndex \<Rightarrow> string \<Rightarrow> nat list" where
  "appendCandidates G idx host0 =
     (let host = ToLower G (TrimSuffix host0 ''.'') in
      if nodes idx = [] then fallback idx
      else let result = sort (fallback idx @ walkNodes idx host (length host) 0) in
        if length result < 2 then result else dedupLoop [hd result] (tl result))"

lemma dedupLoop_remdups: "out \<noteq> [] \<Longrightarrow> dedupLoop out xs = butlast out @ remdups_adj (last out # xs)"
proof (induction out xs rule: dedupLoop.induct)
  case (1 out)
  then show ?case by simp
next
  case (2 out x xs)
  then show ?case by (cases "x = last out") (auto simp: butlast_append)
qed

lemma dedup_remdups:
  "(if length xs < 2 then xs else dedupLoop [hd xs] (tl xs)) = remdups_adj xs"
proof (cases xs)
  case (Cons x ys)
  then show ?thesis by (cases ys) (auto simp: dedupLoop_remdups simp del: dedupLoop.simps)
qed simp

lemma appendCandidates_eq:
  assumes "nodes idx \<noteq> []"
  shows "appendCandidates G idx host0 =
    (let host = ToLower G (TrimSuffix host0 ''.'') in
     remdups_adj (sort (fallback idx @ walkNodes idx host (length host) 0)))"
  by (simp only: appendCandidates_def Let_def assms if_False dedup_remdups)

lemma findPos_spec:
  assumes "lo \<le> hi" and "\<forall>i j. lo \<le> i \<and> i \<le> j \<and> j < hi \<longrightarrow> edge_label (es ! i) \<le> edge_label (es ! j)"
  shows "lo \<le> findPos es label lo hi \<and> findPos es label lo hi \<le> hi \<and>
    (\<forall>i. lo \<le> i \<and> i < findPos es label lo hi \<longrightarrow> edge_label (es ! i) < label) \<and>
    (\<forall>i. findPos es label lo hi \<le> i \<and> i < hi \<longrightarrow> label \<le> edge_label (es ! i))"
  using assms
proof (induction es label lo hi rule: findPos.induct)
  case (1 es label lo hi)
  show ?case
  proof (cases "lo < hi")
    case False
    then have "findPos es label lo hi = lo" by (simp add: findPos.simps [of es label lo hi])
    with False 1(3) show ?thesis by auto
  next
    case True
    define mid where "mid = (lo + hi) div 2"
    have mid: "lo \<le> mid" "mid < hi" using True by (auto simp: mid_def)
    show ?thesis
    proof (cases "edge_label (es ! mid) < label")
      case less: True
      have step: "findPos es label lo hi = findPos es label (mid + 1) hi"
        using True less by (simp add: findPos.simps [of es label lo hi] mid_def)
      have IH: "mid + 1 \<le> findPos es label (mid + 1) hi \<and> findPos es label (mid + 1) hi \<le> hi \<and>
          (\<forall>i. mid + 1 \<le> i \<and> i < findPos es label (mid + 1) hi \<longrightarrow> edge_label (es ! i) < label) \<and>
          (\<forall>i. findPos es label (mid + 1) hi \<le> i \<and> i < hi \<longrightarrow> label \<le> edge_label (es ! i))"
        using True less mid 1(4) by (intro 1(1)) (auto simp: mid_def)
      have "edge_label (es ! i) < label" if "lo \<le> i" "i < mid + 1" for i
      proof -
        have "edge_label (es ! i) \<le> edge_label (es ! mid)" using 1(4) mid that by simp
        with less show ?thesis by simp
      qed
      moreover have "i < mid + 1 \<or> mid + 1 \<le> i" for i by linarith
      ultimately show ?thesis unfolding step using IH mid by (meson le_add1 order_trans)
    next
      case False
      have step: "findPos es label lo hi = findPos es label lo mid"
        using True False by (simp add: findPos.simps [of es label lo hi] mid_def)
      have IH: "lo \<le> findPos es label lo mid \<and> findPos es label lo mid \<le> mid \<and>
          (\<forall>i. lo \<le> i \<and> i < findPos es label lo mid \<longrightarrow> edge_label (es ! i) < label) \<and>
          (\<forall>i. findPos es label lo mid \<le> i \<and> i < mid \<longrightarrow> label \<le> edge_label (es ! i))"
        using True False mid 1(4) by (intro 1(2)) (auto simp: mid_def)
      have "label \<le> edge_label (es ! i)" if "mid \<le> i" "i < hi" for i
      proof -
        have "edge_label (es ! mid) \<le> edge_label (es ! i)" using 1(4) mid that by simp
        with False show ?thesis by simp
      qed
      with IH mid show ?thesis unfolding step by (metis le_trans linorder_not_le less_imp_le)
    qed
  qed
qed

text \<open>The search in one node's edges is a lookup in the association list of its children.\<close>

definition fits_uint32 :: "hostCandidateIndex \<Rightarrow> bool" where
  "fits_uint32 idx \<longleftrightarrow>
     int (length (nodes idx)) < 2 ^ 32 \<and> int (length (edges idx)) < 2 ^ 32 \<and>
     int (length (ruleIDs idx)) < 2 ^ 32"

lemma unat_of_nat32: "n < 2 ^ 32 \<Longrightarrow> unat (of_nat n :: 32 word) = n"
  by (simp add: unat_of_nat take_bit_nat_eq_self)

lemma map_of_nth_distinct:
  assumes "distinct (map fst xs)" and "i < length xs"
  shows "map_of xs (fst (xs ! i)) = Some (snd (xs ! i))"
  using assms by (metis map_of_is_SomeI nth_mem prod.collapse)

lemma findChild_spec:
  assumes node: "nodes idx ! unat nodeID = \<lparr>edgeStart = of_nat s, edgeCount = of_nat (length kvs), ruleStart = r, ruleCount = rc\<rparr>"
    and bound: "s + length kvs < 2 ^ 32"
    and es: "\<forall>i < length kvs. edge_label (edges idx ! (s + i)) = fst (kvs ! i) \<and> edge_child (edges idx ! (s + i)) = snd (kvs ! i)"
    and sorted: "sorted (map fst kvs)" and dist: "distinct (map fst kvs)"
  shows "findChild idx nodeID label = map_of kvs label"
proof -
  let ?hi = "s + length kvs"
  define pos where "pos = findPos (edges idx) label s ?hi"
  have lab: "edge_label (edges idx ! i) = fst (kvs ! (i - s))" if "s \<le> i" "i < ?hi" for i
    using es [rule_format, of "i - s"] that by simp
  have mono: "\<forall>i j. s \<le> i \<and> i \<le> j \<and> j < ?hi \<longrightarrow> edge_label (edges idx ! i) \<le> edge_label (edges idx ! j)"
    using sorted lab by (auto simp: sorted_iff_nth_mono)
  note spec = findPos_spec [OF _ mono, of label, folded pos_def]
  have words: "unat (of_nat s :: 32 word) = s" "unat (of_nat (length kvs) :: 32 word) = length kvs"
      "unat (of_nat s + of_nat (length kvs) :: 32 word) = ?hi"
    using bound unat_of_nat32 [of s] unat_of_nat32 [of "length kvs"] unat_of_nat32 [of ?hi] by simp_all
  have step: "findChild idx nodeID label =
      (if pos = ?hi \<or> edge_label (edges idx ! pos) \<noteq> label then None else Some (edge_child (edges idx ! pos)))"
    by (simp add: findChild_def Let_def node words pos_def)
  show ?thesis
  proof (cases "pos = ?hi \<or> edge_label (edges idx ! pos) \<noteq> label")
    case False
    then have p: "s \<le> pos" "pos < ?hi" "edge_label (edges idx ! pos) = label" using spec by auto
    then have "label = fst (kvs ! (pos - s))" using lab by simp
    moreover have "map_of kvs (fst (kvs ! (pos - s))) = Some (snd (kvs ! (pos - s)))"
      using p dist by (intro map_of_nth_distinct) auto
    moreover have "edge_child (edges idx ! pos) = snd (kvs ! (pos - s))"
      using es [rule_format, of "pos - s"] p by simp
    ultimately show ?thesis using step False by simp
  next
    case True
    have "fst (kvs ! i) \<noteq> label" if i: "i < length kvs" for i
    proof
      assume eq: "fst (kvs ! i) = label"
      with es i have l: "edge_label (edges idx ! (s + i)) = label" by simp
      show False
      proof (cases "s + i < pos")
        case True
        with spec have "edge_label (edges idx ! (s + i)) < label" by simp
        with l show ?thesis by simp
      next
        case ge: False
        with i have "pos \<noteq> ?hi" "pos < ?hi" by auto
        with True have ne: "edge_label (edges idx ! pos) \<noteq> label" by simp
        have "label \<le> edge_label (edges idx ! pos)" using spec \<open>pos < ?hi\<close> by simp
        moreover have "edge_label (edges idx ! pos) \<le> edge_label (edges idx ! (s + i))"
          using mono spec ge i by simp
        ultimately show ?thesis using l ne by simp
      qed
    qed
    then have "\<forall>p \<in> set kvs. fst p \<noteq> label" by (simp add: all_set_conv_all_nth)
    then have "map_of kvs label = None" by (auto simp: map_of_eq_None_iff)
    with True step show ?thesis by simp
  qed
qed

subsection \<open>The flattened index represents the tree\<close>

definition reprNode :: "hostCandidateIndex \<Rightarrow> (mutableHostIndexNode \<times> hostIndexEdge list) list \<Rightarrow> bool" where
  "reprNode idx bl \<longleftrightarrow>
     (\<forall>j < length bl. \<forall>l. let n = fst (bl ! j) in
        slice (ruleIDs idx) (unat (ruleStart (nodes idx ! j))) (unat (ruleStart (nodes idx ! j) + ruleCount (nodes idx ! j)))
          = node_rules n \<and>
        (case map_of (children n) l of
           None \<Rightarrow> findChild idx (of_nat j) l = None
         | Some c \<Rightarrow> \<exists>k. findChild idx (of_nat j) l = Some (of_nat k) \<and> k < length bl \<and> fst (bl ! k) = c))"

lemma sortedChildren_map_of:
  assumes "distinct (map fst (children n))"
  shows "map_of (sortedChildren n) = map_of (children n)"
    and "distinct (map fst (sortedChildren n))" and "sorted (map fst (sortedChildren n))"
proof -
  show d: "distinct (map fst (sortedChildren n))"
    using assms by (simp add: sortedChildren_def distinct_map inj_on_def)
  show "map_of (sortedChildren n) = map_of (children n)"
    using assms d by (intro map_of_eqI) (auto simp: sortedChildren_def)
  show "sorted (map fst (sortedChildren n))"
    by (simp add: sortedChildren_def)
qed

lemma compact_repr:
  assumes wf: "\<forall>b \<in> set (bfs 1 [rootNode]). wfNode (fst b)"
    and fits: "fits_uint32 (compactHostIndex rootNode fb)"
  shows "reprNode (compactHostIndex rootNode fb) (bfs 1 [rootNode])"
proof -
  define bl where "bl = bfs 1 [rootNode]"
  define idx where "idx = compactHostIndex rootNode fb"
  have idx: "edges idx = concat (map snd bl)" "ruleIDs idx = concat (map (node_rules \<circ> fst) bl)"
    "length (nodes idx) = length bl"
    "\<forall>j < length bl. nodes idx ! j =
       \<lparr>edgeStart = of_nat (length (concat (map snd (take j bl)))), edgeCount = of_nat (length (snd (bl ! j))),
        ruleStart = of_nat (length (concat (map (node_rules \<circ> fst) (take j bl)))),
        ruleCount = of_nat (length (node_rules (fst (bl ! j))))\<rparr>"
    using emit_layout [of fb bl] by (auto simp: idx_def compactHostIndex_def bl_def)
  have bounds: "length bl < 2 ^ 32" "length (edges idx) < 2 ^ 32" "length (ruleIDs idx) < 2 ^ 32"
    using fits idx(3) by (simp_all add: fits_uint32_def idx_def)
  have ch: "childAt 0 bl j" if "j < length bl" for j
    using bfs_layout [of 1 0 "[rootNode]"] that by (simp add: bl_def)
  have "reprNode idx bl"
    unfolding reprNode_def
  proof (intro allI impI)
    fix j l assume j: "j < length bl"
    define n where "n = fst (bl ! j)"
    define s where "s = length (concat (map snd (take j bl)))"
    define rs where "rs = length (concat (map (node_rules \<circ> fst) (take j bl)))"
    have wfn: "distinct (map fst (children n))"
      using wf j unfolding n_def bl_def [symmetric] by (subst (asm) wfNode_children) simp
    have slot: "s + length (snd (bl ! j)) \<le> length (edges idx)"
      using concat_length_take [of j "map snd bl"] j by (simp add: s_def idx(1) take_map)
    have rslot: "rs + length (node_rules n) \<le> length (ruleIDs idx)"
      using concat_length_take [of j "map (node_rules \<circ> fst) bl"] j by (simp add: rs_def n_def idx(2) take_map)
    have node: "nodes idx ! j = \<lparr>edgeStart = of_nat s, edgeCount = of_nat (length (snd (bl ! j))),
        ruleStart = of_nat rs, ruleCount = of_nat (length (node_rules n))\<rparr>"
      using idx(4) j by (simp add: s_def rs_def n_def)
    have "unat (of_nat rs :: 32 word) = rs" "unat (of_nat (rs + length (node_rules n)) :: 32 word) = rs + length (node_rules n)"
      using bounds(3) rslot by (intro unat_of_nat32; linarith)+
    then have rules: "slice (ruleIDs idx) (unat (ruleStart (nodes idx ! j))) (unat (ruleStart (nodes idx ! j) + ruleCount (nodes idx ! j)))
        = node_rules n"
      using concat_slice [of j "map (node_rules \<circ> fst) bl"] j
      by (simp add: node idx(2) rs_def n_def take_map)
    define kvs where "kvs = map (\<lambda>e. (edge_label e, edge_child e)) (snd (bl ! j))"
    have len: "length (snd (bl ! j)) = length (sortedChildren n)"
      and lab: "\<And>i. i < length (snd (bl ! j)) \<Longrightarrow> edge_label (snd (bl ! j) ! i) = fst (sortedChildren n ! i)"
      and kid: "\<And>i. i < length (snd (bl ! j)) \<Longrightarrow> \<exists>c. edge_child (snd (bl ! j) ! i) = of_nat c \<and> c < length bl \<and> fst (bl ! c) = snd (sortedChildren n ! i)"
      using ch [OF j] by (auto simp: childAt_def n_def split: prod.splits)
    have fst_kvs: "map fst kvs = map fst (sortedChildren n)"
      using len lab by (auto simp: kvs_def intro: nth_equalityI)
    have find: "findChild idx (of_nat j) l = map_of kvs l"
    proof (rule findChild_spec)
      show "nodes idx ! unat (of_nat j :: 32 word) = \<lparr>edgeStart = of_nat s, edgeCount = of_nat (length kvs),
          ruleStart = of_nat rs, ruleCount = of_nat (length (node_rules n))\<rparr>"
        using node j bounds(1) by (simp add: unat_of_nat32 kvs_def)
      show "s + length kvs < 2 ^ 32" using slot bounds(2) by (simp add: kvs_def)
      show "\<forall>i < length kvs. edge_label (edges idx ! (s + i)) = fst (kvs ! i) \<and> edge_child (edges idx ! (s + i)) = snd (kvs ! i)"
        using concat_nth [of j "map snd bl"] j by (simp add: idx(1) s_def kvs_def take_map)
      show "sorted (map fst kvs)" "distinct (map fst kvs)"
        using sortedChildren_map_of [OF wfn] fst_kvs by simp_all
    qed
    have "case map_of (children n) l of None \<Rightarrow> findChild idx (of_nat j) l = None
         | Some c \<Rightarrow> \<exists>k. findChild idx (of_nat j) l = Some (of_nat k) \<and> k < length bl \<and> fst (bl ! k) = c"
    proof (cases "map_of (children n) l")
      case None
      then have "l \<notin> fst ` set (sortedChildren n)"
        using sortedChildren_map_of(1) [OF wfn] by (metis map_of_eq_None_iff)
      with fst_kvs have "map_of kvs l = None" by (metis map_of_eq_None_iff set_map)
      with None find show ?thesis by simp
    next
      case (Some c)
      then have "(l, c) \<in> set (sortedChildren n)"
        using sortedChildren_map_of(1) [OF wfn] by (metis map_of_SomeD)
      then obtain i where i: "i < length (sortedChildren n)" "sortedChildren n ! i = (l, c)"
        by (auto simp: in_set_conv_nth)
      with kid [of i] len obtain k where k: "edge_child (snd (bl ! j) ! i) = of_nat k" "k < length bl" "fst (bl ! k) = c"
        by auto
      have "map_of kvs (fst (kvs ! i)) = Some (snd (kvs ! i))"
        using sortedChildren_map_of(2) [OF wfn] fst_kvs i len
        by (intro map_of_nth_distinct) (simp_all add: kvs_def)
      moreover have "fst (kvs ! i) = l" "snd (kvs ! i) = of_nat k"
        using i len lab k(1) by (simp_all add: kvs_def)
      ultimately show ?thesis using Some find k by auto
    qed
    with rules show "let n = fst (bl ! j) in
        slice (ruleIDs idx) (unat (ruleStart (nodes idx ! j))) (unat (ruleStart (nodes idx ! j) + ruleCount (nodes idx ! j)))
          = node_rules n \<and>
        (case map_of (children n) l of
           None \<Rightarrow> findChild idx (of_nat j) l = None
         | Some c \<Rightarrow> \<exists>k. findChild idx (of_nat j) l = Some (of_nat k) \<and> k < length bl \<and> fst (bl ! k) = c)"
      by (simp add: n_def)
  qed
  then show ?thesis by (simp add: idx_def bl_def)
qed

lemma bfs_wf: "\<forall>n \<in> set queue. wfNode n \<Longrightarrow> \<forall>b \<in> set (bfs nxt queue). wfNode (fst b)"
proof (induction nxt queue rule: bfs.induct)
  case (2 nxt n queue)
  have "\<forall>m \<in> set (queue @ map snd (sortedChildren n)). wfNode m"
    using 2(2) by (auto simp: sortedChildren_def wfNode_children [of n])
  with 2(1) [OF refl refl refl] 2(2) show ?case
    by (simp only: bfs_Cons) auto
qed simp

lemma walkNodes_collect:
  assumes repr: "reprNode idx bl" and "length bl < 2 ^ 32"
  shows "j < length bl \<Longrightarrow> walkNodes idx host end (of_nat j) = collect (fst (bl ! j)) (walkLabels host end)"
proof (induction host "end" arbitrary: j rule: walkLabels.induct)
  case (1 host e)
  show ?case
  proof (cases "e = 0")
    case True
    then show ?thesis by (simp add: walkNodes.simps)
  next
    case False
    define start where "start = labelStart host e"
    define l where "l = slice host start e"
    have labels: "walkLabels host e = l # (if start = 0 then [] else walkLabels host (start - 1))"
      using False by (simp add: walkLabels.simps [of host e] start_def l_def Let_def)
    from repr 1(2) have child: "case map_of (children (fst (bl ! j))) l of None \<Rightarrow> findChild idx (of_nat j) l = None
         | Some c \<Rightarrow> \<exists>k. findChild idx (of_nat j) l = Some (of_nat k) \<and> k < length bl \<and> fst (bl ! k) = c"
      by (simp add: reprNode_def Let_def)
    show ?thesis
    proof (cases "map_of (children (fst (bl ! j))) l")
      case None
      with child False labels show ?thesis
        by (simp add: walkNodes.simps [of idx host e] start_def l_def)
    next
      case (Some c)
      with child obtain k where k: "findChild idx (of_nat j) l = Some (of_nat k)" "k < length bl" "fst (bl ! k) = c"
        by auto
      have unat: "unat (of_nat k :: 32 word) = k" using k(2) assms(2) by (simp add: unat_of_nat32)
      have rules: "slice (ruleIDs idx) (unat (ruleStart (nodes idx ! k))) (unat (ruleStart (nodes idx ! k) + ruleCount (nodes idx ! k)))
          = node_rules c"
        using repr k by (simp add: reprNode_def Let_def)
      have "walkNodes idx host e (of_nat j) =
          node_rules c @ (if start = 0 then [] else walkNodes idx host (start - 1) (of_nat k))"
        using False k(1) rules unat
        by (simp add: walkNodes.simps [of idx host e] start_def l_def Let_def)
      moreover have "start \<noteq> 0 \<Longrightarrow> walkNodes idx host (start - 1) (of_nat k) = collect c (walkLabels host (start - 1))"
        using 1(1) [OF False, of start k] k by (simp add: start_def)
      ultimately show ?thesis using Some labels by simp
    qed
  qed
qed

lemma distinct_remdups_adj_sorted: "sorted (xs :: 'a::linorder list) \<Longrightarrow> distinct (remdups_adj xs)"
  by (induction xs rule: remdups_adj.induct) (auto split: if_splits)

theorem candidates_spec:
  assumes wf: "wfNode rootNode" and fits: "fits_uint32 (compactHostIndex rootNode fb)"
  defines "idx \<equiv> compactHostIndex rootNode fb"
  shows "set (appendCandidates G idx host) =
      set fb \<union> set (collect rootNode (labelsOf (ToLower G (TrimSuffix host ''.''))))"
    and "sorted (appendCandidates G idx host)" and "distinct (appendCandidates G idx host)"
proof -
  define bl where "bl = bfs 1 [rootNode]"
  have len: "0 < length bl" "fst (bl ! 0) = rootNode"
    using bfs_layout [of 1 0 "[rootNode]"] by (auto simp: bl_def)
  have idx: "fallback idx = fb" "length (nodes idx) = length bl"
    using emit_layout [of fb bl] by (simp_all add: idx_def compactHostIndex_def bl_def)
  have repr: "reprNode idx bl"
    using compact_repr [OF bfs_wf fits] wf by (simp add: idx_def bl_def)
  have small: "length bl < 2 ^ 32" using fits idx(2) by (simp add: fits_uint32_def idx_def)
  define h where "h = ToLower G (TrimSuffix host ''.'')"
  have walk: "walkNodes idx h (length h) 0 = collect rootNode (labelsOf h)"
    using walkNodes_collect [OF repr small len(1), of h "length h"] len(2) by simp
  have "nodes idx \<noteq> []" using idx(2) len(1) by auto
  then have cands: "appendCandidates G idx host = remdups_adj (sort (fb @ collect rootNode (labelsOf h)))"
    by (simp add: appendCandidates_eq h_def [symmetric] walk idx(1))
  show "set (appendCandidates G idx host) = set fb \<union> set (collect rootNode (labelsOf (ToLower G (TrimSuffix host ''.''))))"
    by (simp add: cands h_def)
  show "sorted (appendCandidates G idx host)" by (simp add: cands sorted_remdups_adj)
  show "distinct (appendCandidates G idx host)" 
    by (simp add: cands distinct_remdups_adj_sorted)
qed

end
