(* ===== verification/Encoding.thy ===== *)
theory Encoding
  imports GoText
begin

text \<open>
  The text encodings of the standard library that rule files and credentials use:
  \<open>encoding/hex\<close>, \<open>encoding/base64\<close> (standard alphabet, padded and raw),
  decimal numbers (\<open>strconv\<close>), the scanner verbs of \<open>fmt.Sscanf\<close> that
  \<open>auth.go\<close> uses, and the canonical form of a header name (\<open>net/textproto\<close>).
\<close>

subsection \<open>Hexadecimal\<close>

definition hexDigit :: "int \<Rightarrow> char" where
  "hexDigit n = ''0123456789abcdef'' ! nat n"

definition hexEncode :: "string \<Rightarrow> string" where
  "hexEncode s = concat (map (\<lambda>c. [hexDigit (of_char c div 16), hexDigit (of_char c mod 16)]) s)"

definition hexValue :: "char \<Rightarrow> int option" where
  "hexValue c = (let b = of_char c :: int in
     if 48 \<le> b \<and> b \<le> 57 then Some (b - 48)
     else if 97 \<le> b \<and> b \<le> 102 then Some (b - 87)
     else if 65 \<le> b \<and> b \<le> 70 then Some (b - 55)
     else None)"

fun hexDecode :: "string \<Rightarrow> string option" where
  "hexDecode [] = Some []"
| "hexDecode [c] = None"
| "hexDecode (a # b # cs) =
     (case (hexValue a, hexValue b, hexDecode cs) of
        (Some x, Some y, Some s) \<Rightarrow> Some (char_of (x * 16 + y) # s)
      | _ \<Rightarrow> None)"

lemma hexValue_hexDigit: "n < 16 \<Longrightarrow> hexValue (hexDigit (int n)) = Some (int n)"
proof -
  have "\<forall>n \<in> {..<16 :: nat}. hexValue (hexDigit (int n)) = Some (int n)"
    by (simp add: lessThan_nat_numeral lessThan_Suc hexDigit_def hexValue_def Let_def)
  then show "n < 16 \<Longrightarrow> ?thesis" by simp
qed

lemma hexDecode_hexEncode: "hexDecode (hexEncode s) = Some s"
proof (induction s)
  case (Cons c s)
  define b where "b = (of_char c :: nat)"
  have "b < 256" by (simp add: b_def)
  then have b: "b div 16 < 16" "b mod 16 < 16" by simp_all
  have c: "(of_char c :: int) = int b" by (simp add: b_def of_char_int)
  have "hexValue (hexDigit (int b div 16)) = Some (int b div 16)" "hexValue (hexDigit (int b mod 16)) = Some (int b mod 16)"
    using hexValue_hexDigit [OF b(1)] hexValue_hexDigit [OF b(2)] by (simp_all add: zdiv_int zmod_int)
  moreover have "(char_of (int b div 16 * 16 + int b mod 16) :: char) = c"
    by (simp add: c [symmetric])
  ultimately show ?case using Cons by (simp add: hexEncode_def c)
qed (simp add: hexEncode_def)

subsection \<open>Base 64\<close>

definition b64Value :: "char \<Rightarrow> int option" where
  "b64Value c = (let b = of_char c :: int in
     if 65 \<le> b \<and> b \<le> 90 then Some (b - 65)
     else if 97 \<le> b \<and> b \<le> 122 then Some (b - 71)
     else if 48 \<le> b \<and> b \<le> 57 then Some (b + 4)
     else if c = CHR ''+'' then Some 62
     else if c = CHR ''/'' then Some 63
     else None)"

definition b64Bytes :: "int \<Rightarrow> int \<Rightarrow> int \<Rightarrow> int \<Rightarrow> string" where
  "b64Bytes a b c d =
     [char_of (a * 4 + b div 16), char_of (b mod 16 * 16 + c div 4), char_of (c mod 4 * 64 + d)]"

text \<open>
  One quantum of four characters at a time, after the decoder has dropped line breaks. With
  padding the input is a multiple of four and only the last quantum is short; without, the last
  two or three characters give one or two bytes.
\<close>

fun b64Quanta :: "bool \<Rightarrow> string \<Rightarrow> string option" where
  "b64Quanta padded [] = Some []"
| "b64Quanta padded [a] = None"
| "b64Quanta padded [a, b] =
     (if padded then None
      else case (b64Value a, b64Value b) of
        (Some x, Some y) \<Rightarrow> Some (take 1 (b64Bytes x y 0 0)) | _ \<Rightarrow> None)"
| "b64Quanta padded [a, b, c] =
     (if padded then None
      else case (b64Value a, b64Value b, b64Value c) of
        (Some x, Some y, Some z) \<Rightarrow> Some (take 2 (b64Bytes x y z 0)) | _ \<Rightarrow> None)"
| "b64Quanta padded (a # b # c # d # rest) =
     (case (b64Value a, b64Value b, b64Value c, b64Value d) of
        (Some x, Some y, Some z, Some w) \<Rightarrow> map_option (\<lambda>s. b64Bytes x y z w @ s) (b64Quanta padded rest)
      | (Some x, Some y, Some z, None) \<Rightarrow>
          if padded \<and> d = CHR ''='' \<and> rest = [] then Some (take 2 (b64Bytes x y z 0)) else None
      | (Some x, Some y, None, None) \<Rightarrow>
          if padded \<and> c = CHR ''='' \<and> d = CHR ''='' \<and> rest = [] then Some (take 1 (b64Bytes x y 0 0)) else None
      | _ \<Rightarrow> None)"

definition b64Decode :: "bool \<Rightarrow> string \<Rightarrow> string option" where
  "b64Decode padded s = b64Quanta padded (filter (\<lambda>c. c \<noteq> CHR 0x0A \<and> c \<noteq> CHR 0x0D) s)"

definition b64Char :: "int \<Rightarrow> char" where
  "b64Char n =
     (if n < 26 then char_of (n + 65)
      else if n < 52 then char_of (n + 71)
      else if n < 62 then char_of (n - 4)
      else if n = 62 then CHR ''+'' else CHR ''/'')"

fun b64Encode :: "string \<Rightarrow> string" where
  "b64Encode [] = []"
| "b64Encode [a] =
     (let x = of_char a :: int in [b64Char (x div 4), b64Char (x mod 4 * 16), CHR ''='', CHR ''=''])"
| "b64Encode [a, b] =
     (let x = of_char a :: int; y = of_char b :: int in
      [b64Char (x div 4), b64Char (x mod 4 * 16 + y div 16), b64Char (y mod 16 * 4), CHR ''=''])"
| "b64Encode (a # b # c # s) =
     (let x = of_char a :: int; y = of_char b :: int; z = of_char c :: int in
      [b64Char (x div 4), b64Char (x mod 4 * 16 + y div 16), b64Char (y mod 16 * 4 + z div 64), b64Char (z mod 64)]
      @ b64Encode s)"

lemma b64Value_b64Char:
  assumes "0 \<le> n" and "n < 64"
  shows "b64Value (b64Char n) = Some n"
proof -
  have "n < 26 \<or> (26 \<le> n \<and> n < 52) \<or> (52 \<le> n \<and> n < 62) \<or> n = 62 \<or> n = 63" using assms by linarith
  then show ?thesis
    using assms by (auto simp: b64Char_def b64Value_def Let_def of_char_char_of_small)
qed

lemma b64Char_not_break: "0 \<le> n \<and> n < 64 \<Longrightarrow> b64Char n \<noteq> CHR 0x0A \<and> b64Char n \<noteq> CHR 0x0D"
  using b64Value_b64Char [of n] by (auto simp: b64Value_def Let_def)

lemma digit_split:
  fixes a b k :: int
  assumes "0 \<le> b" "b < k"
  shows "(a * k + b) div k = a" "(a * k + b) mod k = b"
  using assms by simp_all

lemma byte_digits:
  fixes x :: int
  assumes "0 \<le> x" "x < 256"
  shows "0 \<le> x div 4" "x div 4 < 64" "0 \<le> x mod 4" "x mod 4 < 4" "0 \<le> x div 16" "x div 16 < 16"
    "0 \<le> x mod 16" "x mod 16 < 16" "0 \<le> x div 64" "x div 64 < 4" "0 \<le> x mod 64" "x mod 64 < 64"
  using assms by presburger+

lemma b64_three:
  fixes x y z :: int
  assumes "0 \<le> x" "x < 256" "0 \<le> y" "y < 256" "0 \<le> z" "z < 256"
  shows "b64Bytes (x div 4) (x mod 4 * 16 + y div 16) (y mod 16 * 4 + z div 64) (z mod 64) = [char_of x, char_of y, char_of z]"
  by (simp only: b64Bytes_def digit_split [OF byte_digits(5,6) [OF assms(3,4)]]
      digit_split [OF byte_digits(9,10) [OF assms(5,6)]] div_mult_mod_eq)

lemma digits_bound:
  fixes a b m k :: int
  assumes "0 \<le> a" "a < m" "0 \<le> b" "b < k" "m * k = n"
  shows "0 \<le> a * k + b \<and> a * k + b < n"
proof -
  have "(a + 1) * k \<le> m * k" using assms by (intro mult_right_mono) simp_all
  then have "a * k + k \<le> m * k" by (simp add: distrib_right)
  with assms show ?thesis by simp
qed

lemma b64_digit_bounds:
  fixes x y z :: int
  assumes "0 \<le> x" "x < 256" "0 \<le> y" "y < 256" "0 \<le> z" "z < 256"
  shows "0 \<le> x div 4 \<and> x div 4 < 64" "0 \<le> x mod 4 * 16 + y div 16 \<and> x mod 4 * 16 + y div 16 < 64"
    "0 \<le> y mod 16 * 4 + z div 64 \<and> y mod 16 * 4 + z div 64 < 64" "0 \<le> z mod 64 \<and> z mod 64 < 64"
proof -
  show "0 \<le> x div 4 \<and> x div 4 < 64" using byte_digits(1,2) [OF assms(1,2)] by (rule conjI)
  show "0 \<le> x mod 4 * 16 + y div 16 \<and> x mod 4 * 16 + y div 16 < 64"
    by (rule digits_bound [OF byte_digits(3,4) [OF assms(1,2)] byte_digits(5,6) [OF assms(3,4)]]) simp
  show "0 \<le> y mod 16 * 4 + z div 64 \<and> y mod 16 * 4 + z div 64 < 64"
    by (rule digits_bound [OF byte_digits(7,8) [OF assms(3,4)] byte_digits(9,10) [OF assms(5,6)]]) simp
  show "0 \<le> z mod 64 \<and> z mod 64 < 64" using byte_digits(11,12) [OF assms(5,6)] by (rule conjI)
qed

lemma b64Quanta_encode: "b64Quanta True (b64Encode s) = Some s"
proof (induction s rule: b64Encode.induct)
  case (2 a)
  define x where "x = (of_char a :: int)"
  have x: "0 \<le> x" "x < 256" by (simp_all add: x_def)
  note r = b64_digit_bounds [of x 0 0]
  have "take 1 (b64Bytes (x div 4) (x mod 4 * 16) 0 0) = [a]"
    using b64_three [of x 0 0] x by (simp add: x_def b64Bytes_def)
  with r x show ?case by (simp add: Let_def x_def [symmetric] b64Value_b64Char b64Value_def [of "CHR ''=''"])
next
  case (3 a b)
  define x y where "x = (of_char a :: int)" and "y = (of_char b :: int)"
  have x: "0 \<le> x" "x < 256" "0 \<le> y" "y < 256" by (simp_all add: x_def y_def)
  note r = b64_digit_bounds [of x y 0]
  have "take 2 (b64Bytes (x div 4) (x mod 4 * 16 + y div 16) (y mod 16 * 4) 0) = [a, b]"
    using b64_three [of x y 0] x by (simp add: x_def y_def b64Bytes_def)
  with r x show ?case by (simp add: Let_def x_def [symmetric] y_def [symmetric] b64Value_b64Char b64Value_def [of "CHR ''=''"])
next
  case (4 a b c s)
  define x y z where "x = (of_char a :: int)" and "y = (of_char b :: int)" and "z = (of_char c :: int)"
  have x: "0 \<le> x" "x < 256" "0 \<le> y" "y < 256" "0 \<le> z" "z < 256" by (simp_all add: x_def y_def z_def)
  note r = b64_digit_bounds [OF x]
  have "b64Bytes (x div 4) (x mod 4 * 16 + y div 16) (y mod 16 * 4 + z div 64) (z mod 64) = [a, b, c]"
    using b64_three [of x y z] x by (simp add: x_def y_def z_def)
  with r 4 show ?case
    by (simp add: Let_def x_def [symmetric] y_def [symmetric] z_def [symmetric] b64Value_b64Char)
qed simp

lemma b64Encode_no_breaks: "c \<in> set (b64Encode s) \<Longrightarrow> c \<noteq> CHR 0x0A \<and> c \<noteq> CHR 0x0D"
proof (induction s rule: b64Encode.induct)
  case (2 a)
  have bounds: "0 \<le> (of_char a :: int) div 4 \<and> (of_char a :: int) div 4 < 64"
      "0 \<le> (of_char a :: int) mod 4 * 16 \<and> (of_char a :: int) mod 4 * 16 < 64"
    using b64_digit_bounds(1,2) [of "of_char a" 0 0] by simp_all
  from 2 b64Char_not_break [OF bounds(1)] b64Char_not_break [OF bounds(2)] show ?case
    by (auto simp only: b64Encode.simps Let_def list.set insert_iff empty_iff)
next
  case (3 a b)
  have bounds: "0 \<le> (of_char a :: int) div 4 \<and> (of_char a :: int) div 4 < 64"
      "0 \<le> (of_char a :: int) mod 4 * 16 + of_char b div 16 \<and> (of_char a :: int) mod 4 * 16 + of_char b div 16 < 64"
      "0 \<le> (of_char b :: int) mod 16 * 4 \<and> (of_char b :: int) mod 16 * 4 < 64"
    using b64_digit_bounds(1,2,3) [of "of_char a" "of_char b" 0] by simp_all
  from 3 b64Char_not_break [OF bounds(1)] b64Char_not_break [OF bounds(2)] b64Char_not_break [OF bounds(3)] show ?case
    by (auto simp only: b64Encode.simps Let_def list.set insert_iff empty_iff)
next
  case (4 a b d s)
  note bounds = b64_digit_bounds [OF of_char_int_bounds(1) [of a] of_char_int_bounds(2) [of a]
      of_char_int_bounds(1) [of b] of_char_int_bounds(2) [of b] of_char_int_bounds(1) [of d] of_char_int_bounds(2) [of d]]
  from 4 bounds [THEN b64Char_not_break] show ?case
    by (auto simp only: b64Encode.simps Let_def set_append Un_iff list.set insert_iff empty_iff)
qed simp

theorem b64Decode_b64Encode: "b64Decode True (b64Encode s) = Some s"
proof -
  have "filter (\<lambda>c. c \<noteq> CHR 0x0A \<and> c \<noteq> CHR 0x0D) (b64Encode s) = b64Encode s"
    using b64Encode_no_breaks by (intro filter_True) blast
  then show ?thesis by (simp add: b64Decode_def b64Quanta_encode)
qed

subsection \<open>Decimal numbers\<close>

definition isDigit :: "char \<Rightarrow> bool" where
  "isDigit c \<longleftrightarrow> 48 \<le> (of_char c :: int) \<and> (of_char c :: int) \<le> 57"

definition digitsValue :: "string \<Rightarrow> int" where
  "digitsValue s = foldl (\<lambda>n c. 10 * n + (of_char c - 48)) 0 s"

text \<open>\<open>strconv.ParseUint\<close> in base 10: no sign, at least one digit, and a value of the given width.\<close>

definition ParseUint :: "string \<Rightarrow> nat \<Rightarrow> int option" where
  "ParseUint s bits =
     (if s = [] \<or> \<not> list_all isDigit s then None
      else if digitsValue s < 2 ^ bits then Some (digitsValue s) else None)"

text \<open>\<open>strconv.Atoi\<close> and \<open>ParseInt\<close> in base 10: an optional sign, and a value of the given width.\<close>

definition ParseInt :: "string \<Rightarrow> nat \<Rightarrow> int option" where
  "ParseInt s bits =
     (let neg = (s \<noteq> [] \<and> hd s = CHR ''-'');
          t = (if s \<noteq> [] \<and> (hd s = CHR ''-'' \<or> hd s = CHR ''+'') then tl s else s)
      in if t = [] \<or> \<not> list_all isDigit t then None
         else if neg \<and> digitsValue t \<le> 2 ^ (bits - 1) then Some (- digitsValue t)
         else if \<not> neg \<and> digitsValue t < 2 ^ (bits - 1) then Some (digitsValue t)
         else None)"

definition Atoi :: "string \<Rightarrow> int option" where
  "Atoi s = ParseInt s 64"

function showNat :: "nat \<Rightarrow> string" where
  "showNat n = (if n < 10 then [char_of (48 + n)] else showNat (n div 10) @ [char_of (48 + n mod 10)])"
  by pat_completeness auto
termination
  by (relation "measure id") auto

declare showNat.simps [simp del]

definition Itoa :: "int \<Rightarrow> string" where
  "Itoa n = (if n < 0 then CHR ''-'' # showNat (nat (- n)) else showNat (nat n))"

lemma isDigit_char_of: "n < 10 \<Longrightarrow> isDigit (char_of (48 + n :: nat)) \<and> (of_char (char_of (48 + n :: nat)) :: int) = 48 + int n"
  by (simp add: isDigit_def of_char_int)

lemma digitsValue_snoc: "digitsValue (s @ [c]) = 10 * digitsValue s + (of_char c - 48)"
  by (simp add: digitsValue_def)

lemma showNat_digits: "showNat n \<noteq> [] \<and> list_all isDigit (showNat n) \<and> digitsValue (showNat n) = int n"
proof (induction n rule: showNat.induct)
  case (1 n)
  show ?case
  proof (cases "n < 10")
    case True
    then show ?thesis
      using isDigit_char_of [of n] by (simp add: showNat.simps [of n] digitsValue_def)
  next
    case False
    with 1 isDigit_char_of [of "n mod 10"] show ?thesis
      by (simp add: showNat.simps [of n] digitsValue_snoc zdiv_int zmod_int del: of_char_of)
  qed
qed

lemma ParseUint_showNat: "ParseUint (showNat n) bits = (if int n < 2 ^ bits then Some (int n) else None)"
  using showNat_digits [of n] by (simp add: ParseUint_def)

lemma digitsValue_nonneg: "list_all isDigit s \<Longrightarrow> 0 \<le> digitsValue s"
  by (induction s rule: rev_induct) (auto simp: digitsValue_snoc isDigit_def, simp add: digitsValue_def)

lemma ParseUint_bounds: "ParseUint s bits = Some n \<Longrightarrow> 0 \<le> n \<and> n < 2 ^ bits"
  by (auto simp: ParseUint_def digitsValue_nonneg split: if_splits)

subsection \<open>Scanning\<close>

text \<open>
  The verb \<open>%d\<close> of \<open>fmt.Sscanf\<close>: white space is skipped (a line break is an error), then
  the longest run of digits is read. What follows the format is ignored.
\<close>

definition scanSkip :: "string \<Rightarrow> string option" where
  "scanSkip s =
     (let t = trimLeftSpace s in
      if CHR 0x0A \<in> set (take (length s - length t) s) then None else Some t)"

definition scanLit :: "string \<Rightarrow> string \<Rightarrow> string option" where
  "scanLit lit s = CutPrefix s lit"

definition scanUint :: "nat \<Rightarrow> string \<Rightarrow> (int \<times> string) option" where
  "scanUint bits s =
     (case scanSkip s of
        None \<Rightarrow> None
      | Some t \<Rightarrow> map_option (\<lambda>n. (n, dropWhile isDigit t)) (ParseUint (takeWhile isDigit t) bits))"

definition scanInt :: "nat \<Rightarrow> string \<Rightarrow> (int \<times> string) option" where
  "scanInt bits s =
     (case scanSkip s of
        None \<Rightarrow> None
      | Some t \<Rightarrow>
          let sign = (if t \<noteq> [] \<and> (hd t = CHR ''-'' \<or> hd t = CHR ''+'') then [hd t] else []);
              u = drop (length sign) t
          in map_option (\<lambda>n. (n, dropWhile isDigit u)) (ParseInt (sign @ takeWhile isDigit u) bits))"

subsection \<open>Header names\<close>

definition headerByte :: "char \<Rightarrow> bool" where
  "headerByte c \<longleftrightarrow> isDigit c \<or> c \<in> set ''!#$%&*+-.^_|~'' \<or> c = CHR 0x27 \<or> c = CHR 0x60 \<or>
     (CHR ''a'' \<le> c \<and> c \<le> CHR ''z'') \<or> (CHR ''A'' \<le> c \<and> c \<le> CHR ''Z'')"

definition asciiUpper :: "char \<Rightarrow> char" where
  "asciiUpper c = (let b = of_char c :: int in if 0x61 \<le> b \<and> b \<le> 0x7A then char_of (b - 32) else c)"

fun canonLoop :: "bool \<Rightarrow> string \<Rightarrow> string" where
  "canonLoop upper [] = []"
| "canonLoop upper (c # cs) =
     (if upper then asciiUpper c else asciiLower c) # canonLoop (c = CHR ''-'') cs"

definition CanonicalMIMEHeaderKey :: "string \<Rightarrow> string" where
  "CanonicalMIMEHeaderKey s = (if list_all headerByte s then canonLoop True s else s)"

lemma case_char_facts:
  "asciiUpper c = CHR ''-'' \<longleftrightarrow> c = CHR ''-''" "asciiLower c = CHR ''-'' \<longleftrightarrow> c = CHR ''-''"
  "asciiUpper (asciiUpper c) = asciiUpper c" "asciiLower (asciiLower c) = asciiLower c"
  "headerByte c \<Longrightarrow> headerByte (asciiUpper c)" "headerByte c \<Longrightarrow> headerByte (asciiLower c)"
proof -
  have minus: "(of_char CHR ''-'' :: int) = 45" by simp
  show "asciiUpper c = CHR ''-'' \<longleftrightarrow> c = CHR ''-''"
    using minus by (auto simp: asciiUpper_def Let_def of_char_char_of_small split: if_splits dest!: arg_cong [where f = "of_char :: char \<Rightarrow> int"])
  show "asciiLower c = CHR ''-'' \<longleftrightarrow> c = CHR ''-''"
    using minus by (auto simp: asciiLower_def Let_def of_char_char_of_small split: if_splits dest!: arg_cong [where f = "of_char :: char \<Rightarrow> int"])
  show "asciiUpper (asciiUpper c) = asciiUpper c" "asciiLower (asciiLower c) = asciiLower c"
    by (auto simp: asciiUpper_def asciiLower_def Let_def of_char_char_of_small)
  have low: "headerByte d" if "d = char_of n" "(65 \<le> n \<and> n \<le> 90) \<or> (97 \<le> n \<and> n \<le> 122)" for d and n :: int
  proof -
    have "(of_char d :: int) = n" using that by (auto simp: of_char_char_of_small)
    then show ?thesis using that(2) by (auto simp: headerByte_def less_eq_char_def of_char_int)
  qed
  show "headerByte c \<Longrightarrow> headerByte (asciiUpper c)" "headerByte c \<Longrightarrow> headerByte (asciiLower c)"
    by (auto simp: asciiUpper_def asciiLower_def Let_def intro!: low)
qed

lemma canonLoop_idem: "canonLoop u (canonLoop u s) = canonLoop u s"
  by (induction u s rule: canonLoop.induct) (auto simp: case_char_facts)

lemma canonLoop_headerBytes: "list_all headerByte s \<Longrightarrow> list_all headerByte (canonLoop u s)"
  by (induction u s rule: canonLoop.induct) (auto simp: case_char_facts)

theorem CanonicalMIMEHeaderKey_idem:
  "CanonicalMIMEHeaderKey (CanonicalMIMEHeaderKey s) = CanonicalMIMEHeaderKey s"
  by (simp add: CanonicalMIMEHeaderKey_def canonLoop_idem canonLoop_headerBytes)

end
