(* ===== verification/RuleCompile.thy ===== *)
theory RuleCompile
  imports Matcher Encoding "HOL-Library.AList"
begin

text \<open>
  The rule documents of \<open>src/internal/rules/schema.go\<close> and their compilation
  (\<open>compile.go\<close>, \<open>outcall_action.go\<close>). A pointer that may be nil is an option, a
  JSON object and a Go map are association lists in the order the code iterates them, which Go
  leaves open; every error return is a constructor of \<open>compileError\<close>.
\<close>

subsection \<open>Documents\<close>

type_synonym params = "(string \<times> jsonv) list"

record Match =
  m_Host :: string
  m_Port :: string
  m_Proto :: string
  m_Path :: string
  m_Method :: string
  m_Header :: "(string \<times> string) list"
  m_Status :: string

record Action =
  a_Action :: string
  a_Params :: params

record Connection =
  c_Accept :: "bool option"

record Rule =
  r_Match :: Match
  r_Connection :: "Connection option"
  r_MITM :: "bool option"
  r_Request :: "Action list"
  r_Response :: "Action list"

definition emptyMatch :: Match where
  "emptyMatch = \<lparr>m_Host = [], m_Port = [], m_Proto = [], m_Path = [], m_Method = [], m_Header = [], m_Status = []\<rparr>"

definition Params_String :: "params \<Rightarrow> string \<Rightarrow> string option" where
  "Params_String p key = (case map_of p key of Some (JStr s) \<Rightarrow> Some s | _ \<Rightarrow> None)"

text \<open>\<open>int(n)\<close> on a float truncates; a value outside the range gives the least integer on amd64.\<close>

definition truncFloat :: "rat \<Rightarrow> int" where
  "truncFloat r =
     (let n = (if r < 0 then ceiling r else floor r) in
      if - (2 ^ 63) \<le> n \<and> n < 2 ^ 63 then n else - (2 ^ 63))"

definition Params_Int :: "params \<Rightarrow> string \<Rightarrow> int option" where
  "Params_Int p key = (case map_of p key of Some (JNum r) \<Rightarrow> Some (truncFloat r) | _ \<Rightarrow> None)"

definition Params_IsNull :: "params \<Rightarrow> string \<Rightarrow> bool" where
  "Params_IsNull p key \<longleftrightarrow> map_of p key = Some JNull"

definition Params_Bool :: "params \<Rightarrow> string \<Rightarrow> bool option" where
  "Params_Bool p key = (case map_of p key of Some (JBool b) \<Rightarrow> Some b | _ \<Rightarrow> None)"

definition jsonStr :: "jsonv \<Rightarrow> string option" where
  "jsonStr v = (case v of JStr s \<Rightarrow> Some s | _ \<Rightarrow> None)"

definition Params_StringSlice :: "params \<Rightarrow> string \<Rightarrow> string list option" where
  "Params_StringSlice p key =
     (case map_of p key of Some (JArr raw) \<Rightarrow> those (map jsonStr raw) | _ \<Rightarrow> None)"

definition rule_mitm :: "Rule \<Rightarrow> bool" where
  "rule_mitm r = (case r_MITM r of None \<Rightarrow> True | Some b \<Rightarrow> b)"

definition hasMessageFields :: "Match \<Rightarrow> bool" where
  "hasMessageFields m \<longleftrightarrow> m_Path m \<noteq> [] \<or> m_Method m \<noteq> [] \<or> 0 < length (m_Header m)"

subsection \<open>Outcall actions\<close>

record CompiledOutcall =
  co_Socket :: string
  co_Path :: string
  co_URL :: string
  co_Send :: "string list"
  co_FailOpen :: bool
  co_CacheKey :: string

record CompiledAction =
  ca_Name :: string
  ca_Params :: params
  ca_Outcall :: "CompiledOutcall option"

datatype compileError =
    BadPattern string patternError
  | BadHeaderPattern string patternError
  | MitmFalseWithMessageFields
  | AcceptRequired
  | DenyWithMitm
  | DenyWithMessageFields
  | DenyWithActions
  | UnknownAction string nat string
  | OutcallError string nat compileError
  | SocketXorURL string
  | PathNeedsSocket string
  | SendNotStrings string
  | FailOpenNotBool string
  | RuleError nat compileError

definition sortedParams :: "params \<Rightarrow> jsonv list" where
  "sortedParams p =
     map (\<lambda>k. JArr [JStr k, (case map_of p k of Some v \<Rightarrow> v | None \<Rightarrow> JNull)]) (sort (map fst p))"

definition outcallCacheKey :: "golib \<Rightarrow> CompiledOutcall \<Rightarrow> params \<Rightarrow> string" where
  "outcallCacheKey G co p =
     (let target = (if co_Socket co \<noteq> [] then co_Socket co @ co_Path co else co_URL co);
          sum = sha256_Sum256 G (json_Marshal G (JArr (sortedParams p)))
      in target @ ''#'' @ hexEncode (take 8 sum))"

definition compileOutcallAction :: "golib \<Rightarrow> Action \<Rightarrow> (compileError, CompiledOutcall) res" where
  "compileOutcallAction G a =
     (let p = a_Params a; socket = Params_String p ''socket''; url = Params_String p ''url'' in
      if (socket \<noteq> None) = (url \<noteq> None) then Inl (SocketXorURL (a_Action a))
      else
        let co = \<lparr>co_Socket = (case socket of Some s \<Rightarrow> s | None \<Rightarrow> []), co_Path = [],
                  co_URL = (case url of Some s \<Rightarrow> s | None \<Rightarrow> []), co_Send = [], co_FailOpen = False,
                  co_CacheKey = []\<rparr>
        in bindR
          (if socket \<noteq> None then
             Inr (co\<lparr>co_Path := (case Params_String p ''path'' of
                                   Some path \<Rightarrow> if path = [] then ''/'' else path
                                 | None \<Rightarrow> ''/'')\<rparr>)
           else if map_of p ''path'' \<noteq> None then Inl (PathNeedsSocket (a_Action a))
           else Inr co) (\<lambda>co.
        bindR
          (case Params_StringSlice p ''send'' of
             Some send \<Rightarrow> Inr (co\<lparr>co_Send := map CanonicalMIMEHeaderKey send\<rparr>)
           | None \<Rightarrow> if map_of p ''send'' \<noteq> None then Inl (SendNotStrings (a_Action a)) else Inr co) (\<lambda>co.
        bindR
          (case Params_Bool p ''failOpen'' of
             Some fo \<Rightarrow> Inr (co\<lparr>co_FailOpen := fo\<rparr>)
           | None \<Rightarrow> if map_of p ''failOpen'' \<noteq> None then Inl (FailOpenNotBool (a_Action a)) else Inr co) (\<lambda>co.
        Inr (co\<lparr>co_CacheKey := outcallCacheKey G co p\<rparr>)))))"

subsection \<open>Rules\<close>

record CompiledRule =
  connHost :: matcher
  connPort :: matcher
  connProto :: matcher
  msgPath :: matcher
  msgMethod :: matcher
  msgHeader :: "(string \<times> matcher) list"
  cr_mitm :: bool
  cr_deny :: bool
  cr_hasMsg :: bool
  cr_request :: "CompiledAction list"
  cr_response :: "CompiledAction list"

definition validRequestActions :: "string list" where
  "validRequestActions = [''header.add'', ''header.set'', ''raise'', ''block'', ''webhook'', ''header.fetch'']"

definition validResponseActions :: "string list" where
  "validResponseActions = [''header.add'', ''header.set'', ''body.replace'', ''status.set'']"

fun compileActionsFrom ::
    "golib \<Rightarrow> nat \<Rightarrow> Action list \<Rightarrow> string list \<Rightarrow> string \<Rightarrow> (compileError, CompiledAction list) res" where
  "compileActionsFrom G i [] valid phase = Inr []"
| "compileActionsFrom G i (a # as) valid phase =
     (if a_Action a \<notin> set valid then Inl (UnknownAction phase i (a_Action a))
      else bindR
        (if a_Action a = ''webhook'' \<or> a_Action a = ''header.fetch'' then
           (case compileOutcallAction G a of
              Inl e \<Rightarrow> Inl (OutcallError phase i e)
            | Inr co \<Rightarrow> Inr (Some co))
         else Inr None) (\<lambda>oc.
      bindR (compileActionsFrom G (Suc i) as valid phase) (\<lambda>out.
      Inr (\<lparr>ca_Name = a_Action a, ca_Params = a_Params a, ca_Outcall = oc\<rparr> # out))))"

definition compileActions ::
    "golib \<Rightarrow> Action list \<Rightarrow> string list \<Rightarrow> string \<Rightarrow> (compileError, CompiledAction list) res" where
  "compileActions G actions valid phase = compileActionsFrom G 0 actions valid phase"

definition compileField :: "golib \<Rightarrow> string \<Rightarrow> string \<Rightarrow> (compileError, matcher) res" where
  "compileField G field pattern =
     (case compileMatcher G pattern of Inl e \<Rightarrow> Inl (BadPattern field e) | Inr m \<Rightarrow> Inr m)"

text \<open>The loop over the header map: a later name with the same canonical form replaces an earlier one.\<close>

fun compileHeaders ::
    "golib \<Rightarrow> (string \<times> string) list \<Rightarrow> (string \<times> matcher) list \<Rightarrow> (compileError, (string \<times> matcher) list) res" where
  "compileHeaders G [] acc = Inr acc"
| "compileHeaders G ((name, pattern) # hs) acc =
     (case compileMatcher G pattern of
        Inl e \<Rightarrow> Inl (BadHeaderPattern name e)
      | Inr m \<Rightarrow> compileHeaders G hs (AList.update (CanonicalMIMEHeaderKey name) m acc))"

definition denyChecks :: "Rule \<Rightarrow> CompiledRule \<Rightarrow> (compileError, CompiledRule) res" where
  "denyChecks r cr =
     (case r_Connection r of
        None \<Rightarrow> Inr cr
      | Some conn \<Rightarrow>
          (case c_Accept conn of
             None \<Rightarrow> Inl AcceptRequired
           | Some True \<Rightarrow> Inr cr
           | Some False \<Rightarrow>
               if r_MITM r \<noteq> None then Inl DenyWithMitm
               else if cr_hasMsg cr then Inl DenyWithMessageFields
               else if 0 < length (r_Request r) \<or> 0 < length (r_Response r) then Inl DenyWithActions
               else Inr (cr\<lparr>cr_deny := True, cr_mitm := False\<rparr>)))"

definition compileRule :: "golib \<Rightarrow> Rule \<Rightarrow> (compileError, CompiledRule) res" where
  "compileRule G r =
     (let m = r_Match r in
      bindR (compileField G ''match.host'' (m_Host m)) (\<lambda>host.
      bindR (compileField G ''match.port'' (m_Port m)) (\<lambda>port.
      bindR (compileField G ''match.proto'' (m_Proto m)) (\<lambda>proto.
      bindR (compileField G ''match.path'' (m_Path m)) (\<lambda>path.
      bindR (compileField G ''match.method'' (m_Method m)) (\<lambda>meth.
      bindR (compileHeaders G (m_Header m) []) (\<lambda>hdrs.
      if \<not> rule_mitm r \<and> hasMessageFields m then Inl MitmFalseWithMessageFields
      else
        bindR (denyChecks r
          \<lparr>connHost = host, connPort = port, connProto = proto, msgPath = path, msgMethod = meth,
           msgHeader = hdrs, cr_mitm = rule_mitm r, cr_deny = False, cr_hasMsg = hasMessageFields m,
           cr_request = [], cr_response = []\<rparr>) (\<lambda>cr.
        bindR (compileActions G (r_Request r) validRequestActions ''request'') (\<lambda>req.
        bindR (compileActions G (r_Response r) validResponseActions ''response'') (\<lambda>resp.
        Inr (cr\<lparr>cr_request := req, cr_response := resp\<rparr>)))))))))))"

fun compileFrom :: "golib \<Rightarrow> nat \<Rightarrow> Rule list \<Rightarrow> (compileError, CompiledRule list) res" where
  "compileFrom G i [] = Inr []"
| "compileFrom G i (r # rs) =
     (case compileRule G r of
        Inl e \<Rightarrow> Inl (RuleError i e)
      | Inr cr \<Rightarrow> bindR (compileFrom G (Suc i) rs) (\<lambda>crs. Inr (cr # crs)))"

definition Compile :: "golib \<Rightarrow> Rule list \<Rightarrow> (compileError, CompiledRule list) res" where
  "Compile G http = compileFrom G 0 http"

subsection \<open>Well-formed compiled rules\<close>

definition outcallName :: "string \<Rightarrow> bool" where
  "outcallName n \<longleftrightarrow> n = ''webhook'' \<or> n = ''header.fetch''"

definition wfOutcall :: "CompiledOutcall \<Rightarrow> bool" where
  "wfOutcall co \<longleftrightarrow>
     (co_URL co = [] \<and> co_Path co \<noteq> [] \<or> co_Socket co = [] \<and> co_Path co = []) \<and>
     list_all (\<lambda>n. CanonicalMIMEHeaderKey n = n) (co_Send co)"

definition wfActions :: "string list \<Rightarrow> CompiledAction list \<Rightarrow> bool" where
  "wfActions valid as \<longleftrightarrow>
     list_all (\<lambda>a. ca_Name a \<in> set valid \<and> (outcallName (ca_Name a) \<longleftrightarrow> ca_Outcall a \<noteq> None) \<and>
       (case ca_Outcall a of None \<Rightarrow> True | Some co \<Rightarrow> wfOutcall co)) as"

definition wfRule :: "CompiledRule \<Rightarrow> bool" where
  "wfRule cr \<longleftrightarrow>
     list_all wfMatcher [connHost cr, connPort cr, connProto cr, msgPath cr, msgMethod cr] \<and>
     list_all wfMatcher (map snd (msgHeader cr)) \<and>
     list_all (\<lambda>h. CanonicalMIMEHeaderKey (fst h) = fst h) (msgHeader cr) \<and>
     distinct (map fst (msgHeader cr)) \<and>
     wfActions validRequestActions (cr_request cr) \<and> wfActions validResponseActions (cr_response cr) \<and>
     (cr_hasMsg cr \<longrightarrow> cr_mitm cr) \<and>
     (\<not> cr_hasMsg cr \<longrightarrow> always (msgPath cr) \<and> always (msgMethod cr) \<and> msgHeader cr = []) \<and>
     (cr_deny cr \<longrightarrow> \<not> cr_mitm cr \<and> \<not> cr_hasMsg cr \<and> cr_request cr = [] \<and> cr_response cr = [])"

lemma compileOutcallAction_wf: "compileOutcallAction G a = Inr co \<Longrightarrow> wfOutcall co"
  by (auto simp: compileOutcallAction_def wfOutcall_def Let_def list_all_iff CanonicalMIMEHeaderKey_idem
      split: if_splits option.splits)

lemma compileActionsFrom_wf: "compileActionsFrom G i as valid phase = Inr out \<Longrightarrow> wfActions valid out"
proof (induction G i as valid phase arbitrary: out rule: compileActionsFrom.induct)
  case (2 G i a as valid phase)
  then show ?case
    by (auto simp: wfActions_def outcallName_def compileOutcallAction_wf split: if_splits sum.splits)
qed (simp add: wfActions_def)

lemma compileActionsFrom_Nil: "compileActionsFrom G i [] valid phase = Inr out \<Longrightarrow> out = []"
  by simp

lemma compileField_wf: "compileField G f p = Inr m \<Longrightarrow> wfMatcher m"
  by (auto simp: compileField_def compileMatcher_wf split: sum.splits)

lemma compileField_empty: "compileField G f [] = Inr m \<Longrightarrow> always m"
  by (auto simp: compileField_def compileMatcher_def)

lemma compileHeaders_wf:
  assumes "compileHeaders G hs acc = Inr out" and "list_all wfMatcher (map snd acc)"
    and "list_all (\<lambda>h. CanonicalMIMEHeaderKey (fst h) = fst h) acc" and "distinct (map fst acc)"
  shows "list_all wfMatcher (map snd out) \<and> list_all (\<lambda>h. CanonicalMIMEHeaderKey (fst h) = fst h) out \<and> distinct (map fst out)"
  using assms
proof (induction G hs acc rule: compileHeaders.induct)
  case (2 G name pattern hs acc)
  from 2(2) obtain m where m: "compileMatcher G pattern = Inr m"
      "compileHeaders G hs (AList.update (CanonicalMIMEHeaderKey name) m acc) = Inr out"
    by (auto split: sum.splits)
  have upd: "p \<in> set (AList.update k v al) \<Longrightarrow> p = (k, v) \<or> p \<in> set al" for p k v and al :: "(string \<times> matcher) list"
    by (induction al) (auto split: if_splits)
  show ?case
  proof (rule 2(1) [OF m])
    show "list_all wfMatcher (map snd (AList.update (CanonicalMIMEHeaderKey name) m acc))"
      using 2(3) compileMatcher_wf [OF m(1)] by (auto simp: list_all_iff dest!: upd)
    show "list_all (\<lambda>h. CanonicalMIMEHeaderKey (fst h) = fst h) (AList.update (CanonicalMIMEHeaderKey name) m acc)"
      using 2(4) by (auto simp: list_all_iff CanonicalMIMEHeaderKey_idem dest!: upd)
    show "distinct (map fst (AList.update (CanonicalMIMEHeaderKey name) m acc))"
      using 2(5) by (rule distinct_update)
  qed
qed simp

lemma denyChecks_cases:
  assumes "denyChecks r cr = Inr cr'"
  shows "cr' = cr \<or>
    (cr' = cr\<lparr>cr_deny := True, cr_mitm := False\<rparr> \<and> \<not> cr_hasMsg cr \<and> r_Request r = [] \<and> r_Response r = [])"
  using assms by (auto simp: denyChecks_def split: option.splits bool.splits if_splits)

theorem compileRule_wf:
  assumes "compileRule G r = Inr cr"
  shows "wfRule cr"
proof -
  let ?m = "r_Match r"
  from assms obtain host port proto path meth hdrs cr0 req resp where
    f: "compileField G ''match.host'' (m_Host ?m) = Inr host" "compileField G ''match.port'' (m_Port ?m) = Inr port"
      "compileField G ''match.proto'' (m_Proto ?m) = Inr proto" "compileField G ''match.path'' (m_Path ?m) = Inr path"
      "compileField G ''match.method'' (m_Method ?m) = Inr meth"
    and h: "compileHeaders G (m_Header ?m) [] = Inr hdrs"
    and mitm: "rule_mitm r \<or> \<not> hasMessageFields ?m"
    and d: "denyChecks r \<lparr>connHost = host, connPort = port, connProto = proto, msgPath = path, msgMethod = meth,
           msgHeader = hdrs, cr_mitm = rule_mitm r, cr_deny = False, cr_hasMsg = hasMessageFields ?m,
           cr_request = [], cr_response = []\<rparr> = Inr cr0"
    and a: "compileActions G (r_Request r) validRequestActions ''request'' = Inr req"
      "compileActions G (r_Response r) validResponseActions ''response'' = Inr resp"
    and cr: "cr = cr0\<lparr>cr_request := req, cr_response := resp\<rparr>"
    unfolding compileRule_def Let_def by (auto split: if_splits)
  note wfs = f [THEN compileField_wf] compileHeaders_wf [OF h, simplified] a [unfolded compileActions_def, THEN compileActionsFrom_wf]
  have none: "\<not> hasMessageFields ?m \<Longrightarrow> always path \<and> always meth \<and> hdrs = []"
    using f(4,5) h by (auto simp: hasMessageFields_def dest: compileField_empty)
  have nil: "r_Request r = [] \<Longrightarrow> req = []" "r_Response r = [] \<Longrightarrow> resp = []"
    using a by (auto simp: compileActions_def)
  from denyChecks_cases [OF d] show ?thesis
    using wfs none nil mitm by (elim disjE) (auto simp: cr wfRule_def)
qed

lemma compileFrom_nth:
  "compileFrom G i rs = Inr crs \<Longrightarrow> length crs = length rs \<and> (\<forall>j < length rs. compileRule G (rs ! j) = Inr (crs ! j))"
proof (induction G i rs arbitrary: crs rule: compileFrom.induct)
  case (2 G i r rs)
  then show ?case by (auto simp: nth_Cons' less_Suc_eq_0_disj split: sum.splits)
qed simp

lemma Compile_wf: "Compile G http = Inr crs \<Longrightarrow> list_all wfRule crs"
  using compileFrom_nth [of G 0 http crs] compileRule_wf
  by (auto simp: Compile_def list_all_length)

end
