(* ===== verification/NetAddr.thy ===== *)
theory NetAddr
  imports Encoding
begin

text \<open>
  Addresses and prefixes of Go's \<open>net/netip\<close>, as the rule engine and the proxy use them:
  parsing, printing, unmapping and prefix containment. An address is its bytes in network order
  with an IPv6 zone; the zero \<open>Addr\<close>, which no parser returns, is not represented.
\<close>

record Addr =
  addr_is4 :: bool
  addr_bytes :: "byte list"
  addr_zone :: string

definition wfAddr :: "Addr \<Rightarrow> bool" where
  "wfAddr a \<longleftrightarrow> length (addr_bytes a) = (if addr_is4 a then 4 else 16) \<and> (addr_is4 a \<longrightarrow> addr_zone a = [])"

definition BitLen :: "Addr \<Rightarrow> nat" where
  "BitLen a = (if addr_is4 a then 32 else 128)"

text \<open>The big-endian value of a byte string, \<open>big.Int.SetBytes\<close>.\<close>

definition bytesValue :: "byte list \<Rightarrow> int" where
  "bytesValue bs = foldl (\<lambda>n b. 256 * n + uint b) 0 bs"

definition v4Addr :: "byte list \<Rightarrow> Addr" where
  "v4Addr bs = \<lparr>addr_is4 = True, addr_bytes = bs, addr_zone = []\<rparr>"

definition v6Addr :: "byte list \<Rightarrow> string \<Rightarrow> Addr" where
  "v6Addr bs zone = \<lparr>addr_is4 = False, addr_bytes = bs, addr_zone = zone\<rparr>"

definition AddrFromSlice :: "byte list \<Rightarrow> Addr option" where
  "AddrFromSlice bs =
     (if length bs = 4 then Some (v4Addr bs) else if length bs = 16 then Some (v6Addr bs []) else None)"

subsection \<open>Parsing\<close>

definition parseOctet :: "string \<Rightarrow> byte option" where
  "parseOctet f =
     (if f = [] \<or> \<not> list_all isDigit f \<or> (1 < length f \<and> hd f = CHR ''0'') then None
      else if digitsValue f \<le> 255 then Some (word_of_int (digitsValue f)) else None)"

definition parseIPv4Fields :: "string \<Rightarrow> byte list option" where
  "parseIPv4Fields s =
     (let fs = Split s CHR ''.'' in if length fs = 4 then those (map parseOctet fs) else None)"

definition hexGroup :: "string \<Rightarrow> byte list" where
  "hexGroup ds =
     (let acc = foldl (\<lambda>n c. 16 * n + (case hexValue c of Some v \<Rightarrow> v | None \<Rightarrow> 0)) 0 ds in
      [word_of_int (acc div 256), word_of_int acc])"

definition isHex :: "char \<Rightarrow> bool" where
  "isHex c \<longleftrightarrow> hexValue c \<noteq> None"

text \<open>
  One round of the loop over the groups of an IPv6 address. \<open>ip\<close> holds the bytes so far and
  \<open>ellipsis\<close> the position of the double colon; a round fails, ends the address, or goes on
  with the rest of the string.
\<close>

datatype groupStep =
    GroupFail
  | GroupEnd "byte list" "nat option"
  | GroupNext string "byte list" "nat option"

definition parseGroup :: "string \<Rightarrow> byte list \<Rightarrow> nat option \<Rightarrow> groupStep" where
  "parseGroup s ip ellipsis =
     (let ds = takeWhile isHex s; rest = dropWhile isHex s; ip' = ip @ hexGroup ds in
      if ds = [] \<or> 4 < length ds then GroupFail
      else if rest \<noteq> [] \<and> hd rest = CHR ''.'' then
        (if ellipsis = None \<and> length ip \<noteq> 12 then GroupFail
         else if 16 < length ip + 4 then GroupFail
         else case parseIPv4Fields s of None \<Rightarrow> GroupFail | Some fs \<Rightarrow> GroupEnd (ip @ fs) ellipsis)
      else if rest = [] then GroupEnd ip' ellipsis
      else if hd rest \<noteq> CHR '':'' \<or> length rest = 1 then GroupFail
      else if hd (tl rest) = CHR '':'' then
        (if ellipsis \<noteq> None then GroupFail
         else if tl (tl rest) = [] then GroupEnd ip' (Some (length ip'))
         else GroupNext (tl (tl rest)) ip' (Some (length ip')))
      else GroupNext (tl rest) ip' ellipsis)"

lemma length_hexGroup [simp]: "length (hexGroup ds) = 2"
  by (simp add: hexGroup_def Let_def)

lemma parseGroup_Next:
  "parseGroup s ip e = GroupNext s' ip' e' \<Longrightarrow> length ip' = length ip + 2 \<and> (e' = e \<or> e' = Some (length ip'))"
  by (auto simp: parseGroup_def Let_def split: if_splits option.splits)

function parseGroups :: "string \<Rightarrow> byte list \<Rightarrow> nat option \<Rightarrow> (byte list \<times> nat option \<times> string) option" where
  "parseGroups s ip ellipsis =
     (if 16 \<le> length ip then Some (ip, ellipsis, s)
      else case parseGroup s ip ellipsis of
        GroupFail \<Rightarrow> None
      | GroupEnd ip' e' \<Rightarrow> Some (ip', e', [])
      | GroupNext s' ip' e' \<Rightarrow> parseGroups s' ip' e')"
  by pat_completeness auto
termination
  by (relation "measure (\<lambda>(s, ip, e). 16 - length ip)") (auto dest!: parseGroup_Next)

declare parseGroups.simps [simp del]

definition expandEllipsis :: "byte list \<Rightarrow> nat option \<Rightarrow> byte list option" where
  "expandEllipsis ip ellipsis =
     (if length ip < 16 then
        (case ellipsis of
           None \<Rightarrow> None
         | Some e \<Rightarrow> Some (take e ip @ replicate (16 - length ip) 0 @ drop e ip))
      else if ellipsis \<noteq> None then None else Some ip)"

definition parseIPv6 :: "string \<Rightarrow> Addr option" where
  "parseIPv6 str =
     (let (s, zone) = (case Cut str CHR ''%'' of None \<Rightarrow> (str, None) | Some (a, z) \<Rightarrow> (a, Some z)) in
      if zone = Some [] then None
      else
        let z = (case zone of None \<Rightarrow> [] | Some z \<Rightarrow> z);
            lead = HasPrefix s ''::'';
            s' = (if lead then drop 2 s else s)
        in if lead \<and> s' = [] then Some (v6Addr (replicate 16 0) z)
           else case parseGroups s' [] (if lead then Some 0 else None) of
             None \<Rightarrow> None
           | Some (ip, ellipsis, rest) \<Rightarrow>
               if rest \<noteq> [] then None
               else map_option (\<lambda>bs. v6Addr bs z) (expandEllipsis ip ellipsis))"

fun firstSep :: "string \<Rightarrow> char option" where
  "firstSep [] = None"
| "firstSep (c # cs) = (if c = CHR ''.'' \<or> c = CHR '':'' \<or> c = CHR ''%'' then Some c else firstSep cs)"

definition ParseAddr :: "string \<Rightarrow> Addr option" where
  "ParseAddr s =
     (case firstSep s of
        None \<Rightarrow> None
      | Some c \<Rightarrow>
          if c = CHR ''.'' then map_option v4Addr (parseIPv4Fields s)
          else if c = CHR '':'' then parseIPv6 s
          else None)"

subsection \<open>Printing\<close>

definition v4String :: "byte list \<Rightarrow> string" where
  "v4String bs = Join (map (\<lambda>b. showNat (unat b)) bs) ''.''"

definition Is4In6 :: "Addr \<Rightarrow> bool" where
  "Is4In6 a \<longleftrightarrow> \<not> addr_is4 a \<and> take 12 (addr_bytes a) = replicate 10 0 @ [0xFF, 0xFF]"

definition Unmap :: "Addr \<Rightarrow> Addr" where
  "Unmap a = (if Is4In6 a then v4Addr (drop 12 (addr_bytes a)) else a)"

fun groups16 :: "byte list \<Rightarrow> int list" where
  "groups16 (a # b # bs) = (256 * uint a + uint b) # groups16 bs"
| "groups16 _ = []"

function showHex :: "int \<Rightarrow> string" where
  "showHex n = (if n < 16 then [hexDigit n] else showHex (n div 16) @ [hexDigit (n mod 16)])"
  by pat_completeness auto
termination
  by (relation "measure nat") auto

declare showHex.simps [simp del]

text \<open>The first longest run of at least two zero groups, as start and end.\<close>

definition zeroRun :: "int list \<Rightarrow> nat \<Rightarrow> nat" where
  "zeroRun gs i = i + length (takeWhile (\<lambda>g. g = 0) (drop i gs))"

definition zeroSpan :: "int list \<Rightarrow> (nat \<times> nat) option" where
  "zeroSpan gs =
     foldl (\<lambda>best i. let j = zeroRun gs i; l = j - i in
       if 2 \<le> l \<and> (case best of None \<Rightarrow> True | Some (s, e) \<Rightarrow> e - s < l) then Some (i, j) else best)
       None [0..<8]"

definition v6String :: "byte list \<Rightarrow> string" where
  "v6String bs =
     (let gs = groups16 bs in
      case zeroSpan gs of
        None \<Rightarrow> Join (map showHex gs) '':''
      | Some (s, e) \<Rightarrow> Join (map showHex (take s gs)) '':'' @ ''::'' @ Join (map showHex (drop e gs)) '':'')"

definition Addr_String :: "Addr \<Rightarrow> string" where
  "Addr_String a =
     (if addr_is4 a then v4String (addr_bytes a)
      else (if Is4In6 a then ''::ffff:'' @ v4String (drop 12 (addr_bytes a)) else v6String (addr_bytes a)) @
           (if addr_zone a = [] then [] else CHR ''%'' # addr_zone a))"

subsection \<open>Prefixes\<close>

record Prefix =
  pfx_addr :: Addr
  pfx_bits :: nat

definition ParsePrefix :: "string \<Rightarrow> Prefix option" where
  "ParsePrefix s =
     (let i = LastIndexByte s CHR ''/'' in
      if i < 0 then None
      else case ParseAddr (take (nat i) s) of
        None \<Rightarrow> None
      | Some ip \<Rightarrow>
          if \<not> addr_is4 ip \<and> addr_zone ip \<noteq> [] then None
          else
            let bitsStr = drop (nat i + 1) s in
            if 1 < length bitsStr \<and> (hd bitsStr < CHR ''1'' \<or> CHR ''9'' < hd bitsStr) then None
            else case Atoi bitsStr of
              None \<Rightarrow> None
            | Some bits \<Rightarrow>
                if bits < 0 \<or> int (BitLen ip) < bits then None
                else Some \<lparr>pfx_addr = ip, pfx_bits = nat bits\<rparr>)"

definition Contains :: "Prefix \<Rightarrow> Addr \<Rightarrow> bool" where
  "Contains p ip \<longleftrightarrow>
     addr_zone ip = [] \<and> BitLen (pfx_addr p) = BitLen ip \<and>
     bytesValue (addr_bytes ip) div 2 ^ (BitLen ip - pfx_bits p) =
     bytesValue (addr_bytes (pfx_addr p)) div 2 ^ (BitLen ip - pfx_bits p)"

subsection \<open>What the parsers return\<close>

lemma those_length: "those xs = Some ys \<Longrightarrow> length ys = length xs"
  by (induction xs arbitrary: ys) (auto split: option.splits)

lemma parseIPv4Fields_length: "parseIPv4Fields s = Some bs \<Longrightarrow> length bs = 4"
  by (auto simp: parseIPv4Fields_def Let_def dest: those_length split: if_splits)

lemma parseGroup_End:
  assumes "parseGroup s ip e = GroupEnd ip' e'" and "length ip \<le> 14" and "\<forall>k. e = Some k \<longrightarrow> k \<le> length ip"
  shows "length ip' \<le> 16 \<and> (\<forall>k. e' = Some k \<longrightarrow> k \<le> length ip')"
  using assms by (auto simp: parseGroup_def Let_def dest: parseIPv4Fields_length split: if_splits option.splits)

lemma parseGroups_length:
  assumes "parseGroups s ip e = Some (ip', e', rest)" and "even (length ip)" and "length ip \<le> 16"
    and "\<forall>k. e = Some k \<longrightarrow> k \<le> length ip"
  shows "length ip' \<le> 16 \<and> (\<forall>k. e' = Some k \<longrightarrow> k \<le> length ip')"
  using assms
proof (induction s ip e rule: parseGroups.induct)
  case (1 s ip e)
  show ?case
  proof (cases "16 \<le> length ip")
    case True
    with 1 show ?thesis by (auto simp: parseGroups.simps [of s])
  next
    case False
    with 1(3) have len: "length ip \<le> 14" by (elim evenE) auto
    show ?thesis
    proof (cases "parseGroup s ip e")
      case GroupFail
      with 1(2) False show ?thesis by (simp add: parseGroups.simps [of s])
    next
      case (GroupEnd ip1 e1)
      with 1(2) False parseGroup_End [OF GroupEnd len 1(5)] show ?thesis
        by (simp add: parseGroups.simps [of s])
    next
      case (GroupNext s1 ip1 e1)
      note nxt = parseGroup_Next [OF GroupNext]
      have "parseGroups s1 ip1 e1 = Some (ip', e', rest)"
        using 1(2) False GroupNext by (simp add: parseGroups.simps [of s])
      moreover have "even (length ip1)" "length ip1 \<le> 16" "\<forall>k. e1 = Some k \<longrightarrow> k \<le> length ip1"
        using nxt 1(3,5) len by auto
      ultimately show ?thesis by (rule 1(1) [OF False GroupNext])
    qed
  qed
qed

lemma expandEllipsis_length:
  "expandEllipsis ip e = Some bs \<Longrightarrow> length ip \<le> 16 \<Longrightarrow> \<forall>k. e = Some k \<longrightarrow> k \<le> length ip \<Longrightarrow> length bs = 16"
  by (auto simp: expandEllipsis_def split: if_splits option.splits)

lemma parseIPv6_wf:
  assumes "parseIPv6 s = Some a"
  shows "wfAddr a \<and> \<not> addr_is4 a"
  using assms
  by (auto simp: parseIPv6_def wfAddr_def v6Addr_def Let_def split: if_splits option.splits prod.splits
      dest!: parseGroups_length expandEllipsis_length)

theorem ParseAddr_wf: "ParseAddr s = Some a \<Longrightarrow> wfAddr a"
  by (auto simp: ParseAddr_def wfAddr_def [of "v4Addr _"] v4Addr_def [abs_def] split: option.splits if_splits
      dest!: parseIPv4Fields_length parseIPv6_wf) (simp add: wfAddr_def)

end
