(* ===== verification/Egress.thy ===== *)
theory Egress
  imports NetAddr Matcher
begin

text \<open>
  The egress list of a rule file, \<open>src/internal/rules/egress.go\<close>: parsing of ports and
  ranges, compilation of the entries, and the ordered first-match lookup
  (\<open>RuleSet.LookupEgress\<close> in \<open>engine.go\<close>) that decides whether a resolved
  address may be dialled. Falling off the end denies.
\<close>

record EgressRule =
  e_CIDR :: string
  e_Port :: string
  e_Proto :: string
  e_Action :: string

record portRange =
  pr_always :: bool
  pr_lo :: "16 word"
  pr_hi :: "16 word"

datatype egressError =
    BadCIDR string
  | BadPort string
  | LowAboveHigh string
  | BadProto patternError
  | BadAction string
  | EgressAt nat egressError

definition parsePort :: "string \<Rightarrow> (egressError, 16 word) res" where
  "parsePort s =
     (case ParseUint (TrimSpace s) 16 of
        None \<Rightarrow> Inl (BadPort s)
      | Some n \<Rightarrow> Inr (word_of_int n))"

definition compilePortRange :: "string \<Rightarrow> (egressError, portRange) res" where
  "compilePortRange s =
     (if s = [] \<or> s = ''*'' then Inr \<lparr>pr_always = True, pr_lo = 0, pr_hi = 0\<rparr>
      else case Cut s CHR ''-'' of
        Some (lo, hi) \<Rightarrow>
          bindR (parsePort lo) (\<lambda>loN.
          bindR (parsePort hi) (\<lambda>hiN.
          if hiN < loN then Inl (LowAboveHigh s)
          else Inr \<lparr>pr_always = False, pr_lo = loN, pr_hi = hiN\<rparr>))
      | None \<Rightarrow> bindR (parsePort s) (\<lambda>n. Inr \<lparr>pr_always = False, pr_lo = n, pr_hi = n\<rparr>))"

definition port_match :: "portRange \<Rightarrow> 16 word \<Rightarrow> bool" where
  "port_match p port \<longleftrightarrow> pr_always p \<or> (pr_lo p \<le> port \<and> port \<le> pr_hi p)"

record CompiledEgress =
  ce_prefix :: Prefix
  ce_port :: portRange
  ce_proto :: matcher
  ce_allow :: bool

definition compileEgressRule :: "golib \<Rightarrow> EgressRule \<Rightarrow> (egressError, CompiledEgress) res" where
  "compileEgressRule G r =
     (case ParsePrefix (e_CIDR r) of
        None \<Rightarrow> Inl (BadCIDR (e_CIDR r))
      | Some prefix \<Rightarrow>
          bindR (compilePortRange (e_Port r)) (\<lambda>port.
          bindR (case compileMatcher G (e_Proto r) of Inl e \<Rightarrow> Inl (BadProto e) | Inr m \<Rightarrow> Inr m) (\<lambda>proto.
          if e_Action r = ''allow'' then
            Inr \<lparr>ce_prefix = prefix, ce_port = port, ce_proto = proto, ce_allow = True\<rparr>
          else if e_Action r = ''deny'' then
            Inr \<lparr>ce_prefix = prefix, ce_port = port, ce_proto = proto, ce_allow = False\<rparr>
          else Inl (BadAction (e_Action r)))))"

fun compileEgressFrom :: "golib \<Rightarrow> nat \<Rightarrow> EgressRule list \<Rightarrow> (egressError, CompiledEgress list) res" where
  "compileEgressFrom G i [] = Inr []"
| "compileEgressFrom G i (r # rs) =
     (case compileEgressRule G r of
        Inl e \<Rightarrow> Inl (EgressAt i e)
      | Inr ce \<Rightarrow> bindR (compileEgressFrom G (Suc i) rs) (\<lambda>ces. Inr (ce # ces)))"

definition CompileEgress :: "golib \<Rightarrow> EgressRule list \<Rightarrow> (egressError, CompiledEgress list) res" where
  "CompileEgress G rs = compileEgressFrom G 0 rs"

definition egress_match :: "golib \<Rightarrow> Addr \<Rightarrow> 16 word \<Rightarrow> string \<Rightarrow> CompiledEgress \<Rightarrow> bool" where
  "egress_match G addr port proto e \<longleftrightarrow>
     Contains (ce_prefix e) addr \<and> port_match (ce_port e) port \<and> matches G (ce_proto e) proto"

text \<open>\<open>LookupEgress\<close> on the compiled list: the decision and whether an entry matched.\<close>

definition lookupEgressList :: "golib \<Rightarrow> CompiledEgress list \<Rightarrow> Addr \<Rightarrow> 16 word \<Rightarrow> string \<Rightarrow> bool \<times> bool" where
  "lookupEgressList G es addr port proto =
     (case find (egress_match G addr port proto) es of
        Some e \<Rightarrow> (ce_allow e, True)
      | None \<Rightarrow> (False, False))"

subsection \<open>Ports\<close>

lemma parsePort_value:
  assumes "parsePort s = Inr w"
  shows "ParseUint (TrimSpace s) 16 = Some (uint w)"
proof -
  obtain n where n: "ParseUint (TrimSpace s) 16 = Some n" "w = word_of_int n"
    using assms by (auto simp: parsePort_def split: option.splits)
  from ParseUint_bounds [OF n(1)] have "uint w = n"
    by (simp add: n(2) uint_word_of_int take_bit_int_eq_self)
  with n(1) show ?thesis by simp
qed

lemma isDigit_graphic: "isDigit c \<Longrightarrow> graphic c"
  by (simp add: isDigit_def graphic_def ascii_def isSpaceRune_def)

lemma TrimSpace_showNat [simp]: "TrimSpace (showNat n) = showNat n"
  using showNat_digits [of n] by (intro TrimSpace_graphic) (auto simp: list_all_iff isDigit_graphic)

lemma parsePort_showNat: "n < 65536 \<Longrightarrow> parsePort (showNat n) = Inr (of_nat n)"
  by (simp add: parsePort_def ParseUint_showNat)

lemma showNat_no_dash: "CHR ''-'' \<notin> set (showNat n)"
  using showNat_digits [of n] by (auto simp: list_all_iff isDigit_def)

lemma showNat_not_star: "showNat n \<noteq> ''*'' \<and> showNat n \<noteq> []"
  using showNat_digits [of n] by (auto simp: isDigit_def)

text \<open>A compiled range is never inverted, and it accepts exactly the ports its text names.\<close>

definition wfPortRange :: "portRange \<Rightarrow> bool" where
  "wfPortRange p \<longleftrightarrow> pr_always p \<or> pr_lo p \<le> pr_hi p"

lemma compilePortRange_wf: "compilePortRange s = Inr p \<Longrightarrow> wfPortRange p"
  by (auto simp: compilePortRange_def wfPortRange_def split: if_splits option.splits)

lemma compilePortRange_print:
  assumes "lo \<le> hi" and "hi < 65536"
  shows "compilePortRange (showNat lo @ ''-'' @ showNat hi) =
    Inr \<lparr>pr_always = False, pr_lo = of_nat lo, pr_hi = of_nat hi\<rparr>"
proof -
  have cut: "Cut (showNat lo @ CHR ''-'' # showNat hi) CHR ''-'' = Some (showNat lo, showNat hi)"
    by (simp add: Cut_Some showNat_no_dash)
  have "(of_nat lo :: 16 word) \<le> of_nat hi"
    using assms by (simp add: word_le_nat_alt unat_of_nat take_bit_nat_eq_self)
  moreover have "showNat lo @ CHR ''-'' # showNat hi \<noteq> ''*''" by (cases "showNat lo") auto
  ultimately show ?thesis
    using assms cut by (simp add: compilePortRange_def parsePort_showNat)
qed

subsection \<open>The lookup\<close>

lemma find_Some_split:
  "find P xs = Some x \<longleftrightarrow> (\<exists>as bs. xs = as @ x # bs \<and> P x \<and> (\<forall>a \<in> set as. \<not> P a))"
proof (induction xs)
  case (Cons y ys)
  show ?case
  proof (cases "P y")
    case True
    then show ?thesis by (auto simp: Cons_eq_append_conv)
  next
    case False
    with Cons show ?thesis by (auto simp: Cons_eq_append_conv) (metis append_Cons set_ConsD)
  qed
qed simp

lemma compileEgressFrom_nth:
  "compileEgressFrom G i rs = Inr ces \<Longrightarrow>
    length ces = length rs \<and> (\<forall>j < length rs. compileEgressRule G (rs ! j) = Inr (ces ! j))"
proof (induction G i rs arbitrary: ces rule: compileEgressFrom.induct)
  case (2 G i r rs)
  then show ?case by (auto simp: nth_Cons' less_Suc_eq_0_disj split: sum.splits)
qed simp

end
