(* ===== verification/Auth.thy ===== *)
theory Auth
  imports Encoding
begin

text \<open>
  Proxy credentials, \<open>src/internal/rules/auth.go\<close>: validation of the \<open>auth.http_proxy\<close>
  block when a rule file loads, and the check of a presented \<open>Proxy-Authorization\<close> value against
  the local credentials. The key derivation of the argon2 package is a parameter, a function of
  password, salt, time, memory, threads and key length; SHA-256 is in \<open>golib\<close>.
\<close>

type_synonym argon2_IDKey = "string \<Rightarrow> string \<Rightarrow> int \<Rightarrow> int \<Rightarrow> int \<Rightarrow> nat \<Rightarrow> string"

record BasicCredential =
  bc_User :: string
  bc_Hash :: string

record BearerCredential =
  rc_ID :: string
  rc_Hash :: string

record AuthBroker =
  ab_Socket :: string
  ab_URL :: string
  ab_Path :: string

record HTTPProxyAuth =
  hp_Required :: bool
  hp_Realm :: string
  hp_Basic :: "BasicCredential list"
  hp_Bearer :: "BearerCredential list"
  hp_Broker :: "AuthBroker option"

record AuthConfig =
  ac_HTTPProxy :: "HTTPProxyAuth option"

record CompiledAuth =
  au_Required :: bool
  au_Realm :: string
  au_Basic :: "BasicCredential list"
  au_Bearer :: "BearerCredential list"
  au_Broker :: "AuthBroker option"

datatype authError =
    BrokerSocketXorURL
  | BrokerPathNeedsSocket
  | RequiredWithoutScheme
  | EmptyUser
  | DuplicateUser string
  | BadArgon2 string
  | EmptyID
  | DuplicateID string
  | BadSHA256 string

subsection \<open>Stored hashes\<close>

record argon2idParams =
  ap_memory :: int
  ap_time :: int
  ap_threads :: int
  ap_salt :: string
  ap_sum :: string

definition scanArgon2Params :: "string \<Rightarrow> (int \<times> int \<times> int) option" where
  "scanArgon2Params s =
     (case scanLit ''m='' s of None \<Rightarrow> None | Some s1 \<Rightarrow>
     (case scanUint 32 s1 of None \<Rightarrow> None | Some (m, s2) \<Rightarrow>
     (case scanLit '',t='' s2 of None \<Rightarrow> None | Some s3 \<Rightarrow>
     (case scanUint 32 s3 of None \<Rightarrow> None | Some (t, s4) \<Rightarrow>
     (case scanLit '',p='' s4 of None \<Rightarrow> None | Some s5 \<Rightarrow>
     (case scanUint 8 s5 of None \<Rightarrow> None | Some (p, s6) \<Rightarrow> Some (m, t, p)))))))"

definition parseArgon2idHash :: "string \<Rightarrow> argon2idParams option" where
  "parseArgon2idHash hash =
     (let parts = Split hash CHR ''$'' in
      if length parts \<noteq> 6 \<or> parts ! 0 \<noteq> [] \<or> parts ! 1 \<noteq> ''argon2id'' then None
      else case scanLit ''v='' (parts ! 2) of
        None \<Rightarrow> None
      | Some v \<Rightarrow>
          (case scanInt 64 v of
             None \<Rightarrow> None
           | Some _ \<Rightarrow>
               (case scanArgon2Params (parts ! 3) of
                  None \<Rightarrow> None
                | Some (memory, time, threads) \<Rightarrow>
                    (case (b64Decode False (parts ! 4), b64Decode False (parts ! 5)) of
                       (Some salt, Some sm) \<Rightarrow>
                         Some \<lparr>ap_memory = memory, ap_time = time, ap_threads = threads, ap_salt = salt, ap_sum = sm\<rparr>
                     | _ \<Rightarrow> None))))"

definition verifyArgon2id :: "argon2_IDKey \<Rightarrow> string \<Rightarrow> string \<Rightarrow> bool option" where
  "verifyArgon2id IDKey hash password =
     (case parseArgon2idHash hash of
        None \<Rightarrow> None
      | Some p \<Rightarrow>
          Some (IDKey password (ap_salt p) (ap_time p) (ap_memory p) (ap_threads p) (length (ap_sum p)) = ap_sum p))"

definition parseSHA256Hash :: "string \<Rightarrow> string option" where
  "parseSHA256Hash hash =
     (case CutPrefix hash ''sha256:'' of
        None \<Rightarrow> None
      | Some hexPart \<Rightarrow>
          (case hexDecode hexPart of
             None \<Rightarrow> None
           | Some sm \<Rightarrow> if length sm \<noteq> 32 then None else Some sm))"

definition verifyBearerToken :: "golib \<Rightarrow> string \<Rightarrow> string \<Rightarrow> bool option" where
  "verifyBearerToken G hash token =
     (case parseSHA256Hash hash of
        None \<Rightarrow> None
      | Some want \<Rightarrow> Some (sha256_Sum256 G token = want))"

subsection \<open>Compilation\<close>

definition compileBroker :: "AuthBroker option \<Rightarrow> (authError, AuthBroker option) res" where
  "compileBroker b =
     (case b of
        None \<Rightarrow> Inr None
      | Some br \<Rightarrow>
          let hasSocket = (ab_Socket br \<noteq> []); hasURL = (ab_URL br \<noteq> []) in
          if hasSocket = hasURL then Inl BrokerSocketXorURL
          else if hasSocket \<and> ab_Path br = [] then Inr (Some (br\<lparr>ab_Path := ''/''\<rparr>))
          else if hasURL \<and> ab_Path br \<noteq> [] then Inl BrokerPathNeedsSocket
          else Inr (Some br))"

fun checkBasic :: "string list \<Rightarrow> BasicCredential list \<Rightarrow> (authError, unit) res" where
  "checkBasic seen [] = Inr ()"
| "checkBasic seen (c # cs) =
     (if bc_User c = [] then Inl EmptyUser
      else if bc_User c \<in> set seen then Inl (DuplicateUser (bc_User c))
      else if parseArgon2idHash (bc_Hash c) = None then Inl (BadArgon2 (bc_User c))
      else checkBasic (bc_User c # seen) cs)"

fun checkBearer :: "string list \<Rightarrow> BearerCredential list \<Rightarrow> (authError, unit) res" where
  "checkBearer seen [] = Inr ()"
| "checkBearer seen (c # cs) =
     (if rc_ID c = [] then Inl EmptyID
      else if rc_ID c \<in> set seen then Inl (DuplicateID (rc_ID c))
      else if parseSHA256Hash (rc_Hash c) = None then Inl (BadSHA256 (rc_ID c))
      else checkBearer (rc_ID c # seen) cs)"

definition defaultRealm :: string where
  "defaultRealm = ''mitmania''"

definition CompileAuth :: "AuthConfig option \<Rightarrow> (authError, CompiledAuth option) res" where
  "CompileAuth a =
     (case a of
        None \<Rightarrow> Inr None
      | Some ac \<Rightarrow>
          (case ac_HTTPProxy ac of
             None \<Rightarrow> Inr None
           | Some hp \<Rightarrow>
               bindR (compileBroker (hp_Broker hp)) (\<lambda>broker.
               if hp_Required hp \<and> hp_Basic hp = [] \<and> hp_Bearer hp = [] \<and> hp_Broker hp = None
               then Inl RequiredWithoutScheme
               else
                 bindR (checkBasic [] (hp_Basic hp)) (\<lambda>_.
                 bindR (checkBearer [] (hp_Bearer hp)) (\<lambda>_.
                 Inr (Some \<lparr>au_Required = hp_Required hp,
                            au_Realm = (if hp_Realm hp = [] then defaultRealm else hp_Realm hp),
                            au_Basic = hp_Basic hp, au_Bearer = hp_Bearer hp, au_Broker = broker\<rparr>))))))"

definition ChallengeSchemes :: "CompiledAuth \<Rightarrow> string list" where
  "ChallengeSchemes ca =
     (if au_Basic ca \<noteq> [] \<or> au_Broker ca \<noteq> None then [''Basic''] else []) @
     (if au_Bearer ca \<noteq> [] \<or> au_Broker ca \<noteq> None then [''Bearer''] else [])"

subsection \<open>Checking a credential\<close>

definition authenticateBasic :: "argon2_IDKey \<Rightarrow> CompiledAuth \<Rightarrow> string \<Rightarrow> bool \<times> string" where
  "authenticateBasic IDKey ca b64 =
     (case b64Decode True b64 of
        None \<Rightarrow> (False, [])
      | Some raw \<Rightarrow>
          (case Cut raw CHR '':'' of
             None \<Rightarrow> (False, [])
           | Some (user, pass) \<Rightarrow>
               (case find (\<lambda>c. bc_User c = user \<and> verifyArgon2id IDKey (bc_Hash c) pass = Some True) (au_Basic ca) of
                  None \<Rightarrow> (False, [])
                | Some c \<Rightarrow> (True, bc_User c))))"

definition authenticateBearer :: "golib \<Rightarrow> CompiledAuth \<Rightarrow> string \<Rightarrow> bool \<times> string" where
  "authenticateBearer G ca token =
     (case find (\<lambda>c. verifyBearerToken G (rc_Hash c) token = Some True) (au_Bearer ca) of
        None \<Rightarrow> (False, [])
      | Some c \<Rightarrow> (True, rc_ID c))"

definition Authenticate :: "argon2_IDKey \<Rightarrow> golib \<Rightarrow> CompiledAuth \<Rightarrow> string \<Rightarrow> bool \<times> string" where
  "Authenticate IDKey G ca proxyAuthorization =
     (case Cut proxyAuthorization CHR '' '' of
        None \<Rightarrow> (False, [])
      | Some (scheme, val) \<Rightarrow>
          if scheme = ''Basic'' then authenticateBasic IDKey ca val
          else if scheme = ''Bearer'' then authenticateBearer G ca val
          else (False, []))"

subsection \<open>What a compiled block guarantees\<close>

definition wfAuth :: "CompiledAuth \<Rightarrow> bool" where
  "wfAuth ca \<longleftrightarrow>
     (au_Required ca \<longrightarrow> ChallengeSchemes ca \<noteq> []) \<and> au_Realm ca \<noteq> [] \<and>
     distinct (map bc_User (au_Basic ca)) \<and> distinct (map rc_ID (au_Bearer ca)) \<and>
     list_all (\<lambda>c. bc_User c \<noteq> [] \<and> parseArgon2idHash (bc_Hash c) \<noteq> None) (au_Basic ca) \<and>
     list_all (\<lambda>c. rc_ID c \<noteq> [] \<and> parseSHA256Hash (rc_Hash c) \<noteq> None) (au_Bearer ca) \<and>
     (case au_Broker ca of
        None \<Rightarrow> True
      | Some br \<Rightarrow> (ab_Socket br \<noteq> []) \<noteq> (ab_URL br \<noteq> []) \<and> (ab_Path br \<noteq> [] \<longleftrightarrow> ab_Socket br \<noteq> []))"

lemma checkBasic_ok:
  "checkBasic seen cs = Inr u \<longleftrightarrow>
    distinct (map bc_User cs) \<and> set (map bc_User cs) \<inter> set seen = {} \<and>
    list_all (\<lambda>c. bc_User c \<noteq> [] \<and> parseArgon2idHash (bc_Hash c) \<noteq> None) cs"
  by (induction seen cs rule: checkBasic.induct) auto

lemma checkBearer_ok:
  "checkBearer seen cs = Inr u \<longleftrightarrow>
    distinct (map rc_ID cs) \<and> set (map rc_ID cs) \<inter> set seen = {} \<and>
    list_all (\<lambda>c. rc_ID c \<noteq> [] \<and> parseSHA256Hash (rc_Hash c) \<noteq> None) cs"
  by (induction seen cs rule: checkBearer.induct) auto

lemma compileBroker_ok:
  "compileBroker b = Inr b' \<Longrightarrow> (b' = None \<longleftrightarrow> b = None) \<and>
    (case b' of None \<Rightarrow> True
     | Some br \<Rightarrow> (ab_Socket br \<noteq> []) \<noteq> (ab_URL br \<noteq> []) \<and> (ab_Path br \<noteq> [] \<longleftrightarrow> ab_Socket br \<noteq> []))"
  by (auto simp: compileBroker_def Let_def split: option.splits if_splits)

lemma CompileAuth_wf:
  assumes "CompileAuth a = Inr (Some ca)"
  shows "wfAuth ca"
proof -
  obtain ac hp broker where hp: "a = Some ac" "ac_HTTPProxy ac = Some hp" "compileBroker (hp_Broker hp) = Inr broker"
    and req: "\<not> (hp_Required hp \<and> hp_Basic hp = [] \<and> hp_Bearer hp = [] \<and> hp_Broker hp = None)"
    and ok: "checkBasic [] (hp_Basic hp) = Inr ()" "checkBearer [] (hp_Bearer hp) = Inr ()"
    and ca: "ca = \<lparr>au_Required = hp_Required hp, au_Realm = (if hp_Realm hp = [] then defaultRealm else hp_Realm hp),
        au_Basic = hp_Basic hp, au_Bearer = hp_Bearer hp, au_Broker = broker\<rparr>"
    using assms by (auto simp: CompileAuth_def split: option.splits if_splits)
  from compileBroker_ok [OF hp(3)] req ok show ?thesis
    by (auto simp: ca wfAuth_def ChallengeSchemes_def defaultRealm_def checkBasic_ok checkBearer_ok)
qed

end
