(* ===== verification/RuleSet.thy ===== *)
theory RuleSet
  imports HostIndex RuleCompile Egress Auth
begin

text \<open>
  One client's compiled policy and its lookups, the first part of
  \<open>src/internal/rules/engine.go\<close>, with the construction of the host index
  (\<open>buildHostCandidateIndex\<close> of \<open>host_index.go\<close>).

  The index is used through the interface \<open>candidate_index\<close>: a source of sorted, distinct
  rule numbers that misses no rule whose host pattern accepts the host. Any lookup that returns the
  first rule with a property implying the host pattern then gives what a scan of the whole list
  gives. The interpretation shows that the flattened index is such a source.
\<close>

record RuleFile =
  rf_UUID :: string
  rf_Auth :: "AuthConfig option"
  rf_HTTP :: "Rule list"
  rf_Egress :: "EgressRule list option"

record ConnInput =
  ci_Host :: string
  ci_Port :: string
  ci_Proto :: string

record MsgInput =
  mi_Conn :: ConnInput
  mi_Path :: string
  mi_Method :: string
  mi_Header :: header

record RuleSet =
  rs_rules :: "CompiledRule list"
  rs_hostIndex :: "hostCandidateIndex option"
  rs_egress :: "CompiledEgress list"
  rs_uuid :: string
  rs_auth :: "CompiledAuth option"

definition emptyRuleSet :: RuleSet where
  "emptyRuleSet = \<lparr>rs_rules = [], rs_hostIndex = None, rs_egress = [], rs_uuid = [], rs_auth = None\<rparr>"

subsection \<open>Building the index\<close>

definition indexRule ::
    "mutableHostIndexNode \<times> nat list \<Rightarrow> nat \<Rightarrow> matcher \<Rightarrow> mutableHostIndexNode \<times> nat list" where
  "indexRule st ruleID m =
     (case importedSuffixRegex m of
        Some hosts \<Rightarrow> (foldl (\<lambda>n suffix. insertHostSuffix n suffix ruleID) (fst st) hosts, snd st)
      | None \<Rightarrow>
          if literalGlobSuffix m \<noteq> [] then (insertHostSuffix (fst st) (literalGlobSuffix m) ruleID, snd st)
          else (fst st, snd st @ [ruleID]))"

definition indexRules :: "CompiledRule list \<Rightarrow> nat \<Rightarrow> mutableHostIndexNode \<times> nat list" where
  "indexRules rules k = foldl (\<lambda>st i. indexRule st i (connHost (rules ! i))) (emptyNode, []) [0..<k]"

definition buildHostCandidateIndex :: "CompiledRule list \<Rightarrow> hostCandidateIndex" where
  "buildHostCandidateIndex rules =
     (case indexRules rules (length rules) of (rootNode, fb) \<Rightarrow> compactHostIndex rootNode fb)"

definition newRuleSetWithHostIndex ::
    "CompiledRule list \<Rightarrow> hostCandidateIndex \<Rightarrow> CompiledEgress list \<Rightarrow> string \<Rightarrow> CompiledAuth option \<Rightarrow> RuleSet" where
  "newRuleSetWithHostIndex rules idx egress uuid auth =
     \<lparr>rs_rules = rules, rs_hostIndex = Some idx, rs_egress = egress, rs_uuid = uuid, rs_auth = auth\<rparr>"

definition newRuleSet ::
    "CompiledRule list \<Rightarrow> CompiledEgress list \<Rightarrow> string \<Rightarrow> CompiledAuth option \<Rightarrow> RuleSet" where
  "newRuleSet rules egress uuid auth =
     newRuleSetWithHostIndex rules (buildHostCandidateIndex rules) egress uuid auth"

subsection \<open>Lookups\<close>

definition headerGet :: "header \<Rightarrow> string \<Rightarrow> string" where
  "headerGet h name = (case h (CanonicalMIMEHeaderKey name) of Some (v # _) \<Rightarrow> v | _ \<Rightarrow> [])"

definition matchHeaders :: "golib \<Rightarrow> (string \<times> matcher) list \<Rightarrow> header \<Rightarrow> bool" where
  "matchHeaders G want got \<longleftrightarrow> list_all (\<lambda>(name, m). matches G m (headerGet got name)) want"

definition connMatches :: "golib \<Rightarrow> ConnInput \<Rightarrow> CompiledRule \<Rightarrow> bool" where
  "connMatches G inp r \<longleftrightarrow>
     matches G (connHost r) (ci_Host inp) \<and> matches G (connPort r) (ci_Port inp) \<and>
     matches G (connProto r) (ci_Proto inp)"

definition msgMatches :: "golib \<Rightarrow> MsgInput \<Rightarrow> CompiledRule \<Rightarrow> bool" where
  "msgMatches G inp r \<longleftrightarrow>
     \<not> cr_deny r \<and> connMatches G (mi_Conn inp) r \<and>
     matches G (msgPath r) (mi_Path inp) \<and> matches G (msgMethod r) (mi_Method inp) \<and>
     matchHeaders G (msgHeader r) (mi_Header inp)"

text \<open>The rules a lookup visits, in order: all of them, or the candidates of the host.\<close>

definition visited :: "golib \<Rightarrow> RuleSet \<Rightarrow> string \<Rightarrow> CompiledRule list" where
  "visited G rs host =
     (case rs_hostIndex rs of
        None \<Rightarrow> rs_rules rs
      | Some idx \<Rightarrow> map ((!) (rs_rules rs)) (appendCandidates G idx host))"

definition LookupConn :: "golib \<Rightarrow> RuleSet \<Rightarrow> ConnInput \<Rightarrow> bool \<times> bool \<times> bool" where
  "LookupConn G rs inp =
     (case find (connMatches G inp) (visited G rs (ci_Host inp)) of
        Some r \<Rightarrow> (cr_mitm r, cr_deny r, True)
      | None \<Rightarrow> (False, False, False))"

definition LookupRequest :: "golib \<Rightarrow> RuleSet \<Rightarrow> MsgInput \<Rightarrow> CompiledRule option" where
  "LookupRequest G rs inp = find (msgMatches G inp) (visited G rs (ci_Host (mi_Conn inp)))"

definition LookupEgress :: "golib \<Rightarrow> RuleSet \<Rightarrow> Addr \<Rightarrow> 16 word \<Rightarrow> string \<Rightarrow> bool \<times> bool" where
  "LookupEgress G rs addr port proto = lookupEgressList G (rs_egress rs) addr port proto"

subsection \<open>The interface of a candidate source\<close>

lemma find_map: "find P (map f xs) = map_option f (find (P \<circ> f) xs)"
  by (induction xs) auto

lemma find_upt_nth: "find P xs = map_option ((!) xs) (find (\<lambda>i. P (xs ! i)) [0..<length xs])"
  using find_map [of P "(!) xs" "[0..<length xs]"] by (simp add: map_nth comp_def)

locale candidate_index =
  fixes valid :: "'r list \<Rightarrow> bool"
    and candidates :: "'r list \<Rightarrow> 'h \<Rightarrow> nat list"
    and hostOK :: "'r \<Rightarrow> 'h \<Rightarrow> bool"
  assumes cand_sorted: "valid rs \<Longrightarrow> sorted (candidates rs h)"
    and cand_distinct: "valid rs \<Longrightarrow> distinct (candidates rs h)"
    and cand_bound: "valid rs \<Longrightarrow> set (candidates rs h) \<subseteq> {..<length rs}"
    and cand_complete: "valid rs \<Longrightarrow> i < length rs \<Longrightarrow> hostOK (rs ! i) h \<Longrightarrow> i \<in> set (candidates rs h)"
begin

lemma first_match:
  assumes "valid rs" and "\<And>r. P r \<Longrightarrow> hostOK r h"
  shows "find P (map ((!) rs) (candidates rs h)) = find P rs"
proof -
  have "find (\<lambda>i. P (rs ! i)) (candidates rs h) = find (\<lambda>i. P (rs ! i)) [0..<length rs]"
  proof (rule find_sorted_subset)
    show "set (candidates rs h) \<subseteq> set [0..<length rs]" using cand_bound [OF assms(1), of h] by auto
    show "i \<in> set (candidates rs h)" if "i \<in> set [0..<length rs]" "P (rs ! i)" for i
      using that assms cand_complete by auto
  qed (simp_all add: assms(1) cand_sorted cand_distinct)
  then show ?thesis by (simp add: find_map comp_def find_upt_nth [of P rs])
qed

end

subsection \<open>The host index is a candidate source\<close>

definition walkedLabels :: "golib \<Rightarrow> string \<Rightarrow> string list" where
  "walkedLabels G host = labelsOf (ToLower G (TrimSuffix host ''.''))"

lemma labelsOf_domain: "literalDomain ls \<Longrightarrow> labelsOf (Join ls ''.'') = rev ls"
  by (intro labelsOf_Join) (auto simp: literalDomain_def list_all_iff dest: isLiteralDNSLabel_litBytes)

lemma endsInDomain_walk:
  assumes "endsInDomain G host ls" and "literalDomain ls"
  shows "take (length ls) (walkedLabels G host) = rev ls"
proof -
  have ok: "\<forall>l \<in> set ls. l \<noteq> [] \<and> CHR ''.'' \<notin> set l" "ls \<noteq> []"
    using assms(2) by (auto simp: literalDomain_def list_all_iff dest: isLiteralDNSLabel_litBytes)
  from assms(1) show ?thesis
    unfolding endsInDomain_def Let_def walkedLabels_def
    using labelsOf_domain [OF assms(2)] labelsOf_append_Join [OF ok] by auto
qed

lemma insertHostSuffix_collect:
  assumes "literalDomain ls"
  shows "set (collect (insertHostSuffix n (Join ls ''.'') r) ps) =
    set (collect n ps) \<union> (if take (length ls) ps = rev ls then {r} else {})"
  using assms
  by (simp add: insertHostSuffix_def insertFrom_labels labelsOf_domain set_collect_insertLabels literalDomain_def)

lemma insertHostSuffix_wf: "wfNode n \<Longrightarrow> wfNode (insertHostSuffix n host r)"
  by (simp add: insertHostSuffix_def insertFrom_labels wfNode_insertLabels)

lemma insertHosts_collect:
  assumes "list_all (\<lambda>h. literalDomain (Split h CHR ''.'')) hosts"
  shows "set (collect (foldl (\<lambda>n suffix. insertHostSuffix n suffix r) n hosts) ps) =
    set (collect n ps) \<union>
    (if \<exists>h \<in> set hosts. take (length (Split h CHR ''.'')) ps = rev (Split h CHR ''.'') then {r} else {})"
  using assms
proof (induction hosts arbitrary: n)
  case (Cons h hosts)
  have "insertHostSuffix n h r = insertHostSuffix n (Join (Split h CHR ''.'') ''.'') r" by (simp add: Join_Split)
  with Cons insertHostSuffix_collect [of "Split h CHR ''.''" n r ps] show ?case by auto
qed simp

lemma insertHosts_wf: "wfNode n \<Longrightarrow> wfNode (foldl (\<lambda>n suffix. insertHostSuffix n suffix r) n hosts)"
  by (induction hosts arbitrary: n) (auto simp: insertHostSuffix_wf)

text \<open>One rule: the tree stays well formed, gains at most this rule, and gains it wherever it may match.\<close>

lemma indexRule_spec:
  fixes st :: "mutableHostIndexNode \<times> nat list"
  defines "reach \<equiv> \<lambda>s ps. set (snd s) \<union> set (collect (fst s) ps)"
  assumes wf: "wfNode (fst st)" and m: "wfMatcher m"
  shows "wfNode (fst (indexRule st i m))"
    and "reach st ps \<subseteq> reach (indexRule st i m) ps \<and> reach (indexRule st i m) ps \<subseteq> insert i (reach st ps)"
    and "matches G m host \<Longrightarrow> i \<in> reach (indexRule st i m) (walkedLabels G host)"
proof -
  consider (imported) hosts where "suffixes m = Some hosts" "list_all (\<lambda>h. literalDomain (Split h CHR ''.'')) hosts"
    | (glob) ls where "suffixes m = None" "literalDomain ls" "literalGlobSuffix m = Join ls ''.''" "literalGlobSuffix m \<noteq> []"
    | (fb) "suffixes m = None" "literalGlobSuffix m = []"
  proof (cases "suffixes m")
    case None
    show ?thesis
    proof (cases "literalGlobSuffix m = []")
      case False
      then obtain as ls where "literalDomain ls" "literalGlobSuffix m = Join ls ''.''"
        by (rule literalGlobSuffix_labels)
      with None False that(2) show ?thesis by blast
    qed (use None that(3) in blast)
  next
    case (Some hosts)
    with m that(1) show ?thesis by (simp add: wfMatcher_def)
  qed
  note cases = this
  from cases show "wfNode (fst (indexRule st i m))"
    by cases (simp_all add: indexRule_def importedSuffixRegex_def wf insertHostSuffix_wf insertHosts_wf)
  from cases show "reach st ps \<subseteq> reach (indexRule st i m) ps \<and> reach (indexRule st i m) ps \<subseteq> insert i (reach st ps)"
    by cases (auto simp: reach_def indexRule_def importedSuffixRegex_def insertHosts_collect insertHostSuffix_collect)
  assume host: "matches G m host"
  from cases show "i \<in> reach (indexRule st i m) (walkedLabels G host)"
  proof cases
    case imported
    with host m have "list_ex (suffixMatches G host) hosts" by (simp add: matches_def wfMatcher_def)
    then obtain h where h: "h \<in> set hosts" "suffixMatches G host h" by (auto simp: list_ex_iff)
    with imported have ld: "literalDomain (Split h CHR ''.'')" by (auto simp: list_all_iff)
    have "endsInDomain G host (Split h CHR ''.'')"
      using suffixMatches_endsInDomain [OF ld] h(2) by (simp add: Join_Split)
    from endsInDomain_walk [OF this ld] h(1) imported show ?thesis
      by (auto simp: reach_def indexRule_def importedSuffixRegex_def insertHosts_collect)
  next
    case glob
    from literalGlobSuffix_endsInDomain [OF glob(3,2) host] have "endsInDomain G host ls" .
    from endsInDomain_walk [OF this glob(2)] glob show ?thesis
      by (simp add: reach_def indexRule_def importedSuffixRegex_def insertHostSuffix_collect)
  next
    case fb
    then show ?thesis by (simp add: reach_def indexRule_def importedSuffixRegex_def)
  qed
qed

lemma indexRules_Suc:
  "indexRules rules (Suc k) = indexRule (indexRules rules k) k (connHost (rules ! k))"
  by (simp add: indexRules_def)

lemma indexRules_spec:
  fixes rules :: "CompiledRule list"
  defines "reach \<equiv> \<lambda>k ps. set (snd (indexRules rules k)) \<union> set (collect (fst (indexRules rules k)) ps)"
  assumes wf: "list_all wfRule rules"
  shows "k \<le> length rules \<Longrightarrow> wfNode (fst (indexRules rules k)) \<and> (\<forall>ps. reach k ps \<subseteq> {..<k}) \<and>
    (\<forall>i < k. matches G (connHost (rules ! i)) host \<longrightarrow> i \<in> reach k (walkedLabels G host))"
proof (induction k)
  case 0
  then show ?case by (simp add: indexRules_def reach_def)
next
  case (Suc k)
  let ?m = "connHost (rules ! k)"
  have "wfRule (rules ! k)" using wf Suc(2) by (simp add: list_all_length)
  then have m: "wfMatcher ?m" by (simp add: wfRule_def)
  have IH: "wfNode (fst (indexRules rules k))" "\<And>ps. reach k ps \<subseteq> {..<k}"
      "\<And>i. i < k \<Longrightarrow> matches G (connHost (rules ! i)) host \<Longrightarrow> i \<in> reach k (walkedLabels G host)"
    using Suc by simp_all
  note step = indexRule_spec [OF IH(1) m, where i = k, folded indexRules_Suc]
  have grow: "reach k ps \<subseteq> reach (Suc k) ps" "reach (Suc k) ps \<subseteq> insert k (reach k ps)" for ps
    using step(2) [of ps] by (simp_all add: reach_def)
  have new: "matches G ?m host \<Longrightarrow> k \<in> reach (Suc k) (walkedLabels G host)"
    using step(3) by (simp add: reach_def)
  have "\<forall>i < Suc k. matches G (connHost (rules ! i)) host \<longrightarrow> i \<in> reach (Suc k) (walkedLabels G host)"
    using IH(3) new grow(1) by (auto simp: less_Suc_eq)
  moreover have "reach (Suc k) ps \<subseteq> {..<Suc k}" for ps using grow(2) [of ps] IH(2) [of ps] by auto
  ultimately show ?case using step(1) by simp
qed

definition indexable :: "CompiledRule list \<Rightarrow> bool" where
  "indexable rules \<longleftrightarrow> list_all wfRule rules \<and> fits_uint32 (buildHostCandidateIndex rules)"

interpretation host_index: candidate_index indexable "\<lambda>rules. appendCandidates G (buildHostCandidateIndex rules)"
    "\<lambda>r. matches G (connHost r)" for G
proof
  fix rules :: "CompiledRule list" and h
  assume ok: "indexable rules"
  obtain rt fb where rt: "indexRules rules (length rules) = (rt, fb)" by (cases "indexRules rules (length rules)")
  have idx: "buildHostCandidateIndex rules = compactHostIndex rt fb"
    by (simp add: buildHostCandidateIndex_def rt)
  have fits: "fits_uint32 (compactHostIndex rt fb)" using ok by (simp add: indexable_def idx)
  note spec = indexRules_spec [of rules "length rules", OF _ order_refl, unfolded rt fst_conv snd_conv]
  have wf: "list_all wfRule rules" using ok by (simp add: indexable_def)
  have node: "wfNode rt" using spec wf by simp
  note cs = candidates_spec [OF node fits, of G h]
  show "sorted (appendCandidates G (buildHostCandidateIndex rules) h)" using cs(2) by (simp add: idx)
  show "distinct (appendCandidates G (buildHostCandidateIndex rules) h)" using cs(3) by (simp add: idx)
  show "set (appendCandidates G (buildHostCandidateIndex rules) h) \<subseteq> {..<length rules}"
    using cs(1) spec [OF wf] by (simp add: idx walkedLabels_def)
  show "i \<in> set (appendCandidates G (buildHostCandidateIndex rules) h)"
    if "i < length rules" "matches G (connHost (rules ! i)) h" for i
    using cs(1) spec [OF wf, of G h] that by (simp add: idx walkedLabels_def)
qed

lemma indexable_Compile:
  "Compile G http = Inr rules \<Longrightarrow> fits_uint32 (buildHostCandidateIndex rules) \<Longrightarrow> indexable rules"
  by (simp add: indexable_def Compile_wf)

lemma visited_first_match:
  assumes "indexable rules" and "\<And>r. P r \<Longrightarrow> matches G (connHost r) host"
  shows "find P (visited G (newRuleSet rules egress uuid auth) host) = find P rules"
  using host_index.first_match [OF assms(1), of P G host] assms(2)
  by (simp add: visited_def newRuleSet_def newRuleSetWithHostIndex_def)

subsection \<open>A small policy for evaluations\<close>

definition demoRule :: "string \<Rightarrow> bool option \<Rightarrow> Rule" where
  "demoRule host acc =
     \<lparr>r_Match = emptyMatch\<lparr>m_Host := host\<rparr>, r_Connection = map_option (\<lambda>b. \<lparr>c_Accept = Some b\<rparr>) acc,
      r_MITM = None, r_Request = [], r_Response = []\<rparr>"

definition demoHTTP :: "Rule list" where
  "demoHTTP =
     [demoRule ''*.ads.example'' (Some False),
      demoRule (''re:'' @ importedPrefix @ ''tracker'' @ [CHR 0x5C] @ ''.example'' @ importedSuffix) (Some False),
      demoRule [] None]"

definition demoRules :: "CompiledRule list" where
  "demoRules = (case Compile plainLib demoHTTP of Inr rs \<Rightarrow> rs | Inl _ \<Rightarrow> [])"

definition demoConn :: "string \<Rightarrow> ConnInput" where
  "demoConn host = \<lparr>ci_Host = host, ci_Port = ''443'', ci_Proto = ''https''\<rparr>"

lemma demo_compiles: "Compile plainLib demoHTTP = Inr demoRules"
proof -
  have "\<not> isl (Compile plainLib demoHTTP)" by code_simp
  then show ?thesis by (auto simp: demoRules_def split: sum.split)
qed

lemma demo_fits: "fits_uint32 (buildHostCandidateIndex demoRules)"
  by code_simp

subsection \<open>The indexed lookups are first-match scans\<close>

text \<open>
  C5. The connection-phase lookup through the host index decides as the scan of the whole rule list
  in order: for every list the compiler accepts whose index fits its 32-bit offsets, and every
  connection, the verdict is that of the first rule whose host, port and protocol patterns match.
\<close>

theorem LookupConn_first_match:
  assumes "Compile G http = Inr rules" and "fits_uint32 (buildHostCandidateIndex rules)"
  shows "LookupConn G (newRuleSet rules egress uuid auth) inp =
    (case find (connMatches G inp) rules of
       Some r \<Rightarrow> (cr_mitm r, cr_deny r, True)
     | None \<Rightarrow> (False, False, False))"
proof -
  have "find (connMatches G inp) (visited G (newRuleSet rules egress uuid auth) (ci_Host inp)) =
      find (connMatches G inp) rules"
    using assms by (intro visited_first_match indexable_Compile) (auto simp: connMatches_def)
  then show ?thesis by (simp add: LookupConn_def)
qed

theorem LookupConn_first_match_witness:
  "LookupConn plainLib (newRuleSet demoRules [] [] None) (demoConn ''a.ads.example'') = (False, True, True)"
proof -
  have "map_option (\<lambda>r. (cr_mitm r, cr_deny r)) (find (connMatches plainLib (demoConn ''a.ads.example'')) demoRules)
      = Some (False, True)"
    by code_simp
  then obtain r where "find (connMatches plainLib (demoConn ''a.ads.example'')) demoRules = Some r"
      "\<not> cr_mitm r" "cr_deny r"
    by auto
  with LookupConn_first_match [OF demo_compiles demo_fits, of "[]" "[]" None "demoConn ''a.ads.example''"]
  show ?thesis by simp
qed

text \<open>
  C6. The message-phase lookup through the host index returns the first rule, in list order, whose
  whole predicate (host, port, protocol, path, method and headers) matches and that is not a
  connection-phase reject.
\<close>

theorem LookupRequest_first_match:
  assumes "Compile G http = Inr rules" and "fits_uint32 (buildHostCandidateIndex rules)"
  shows "LookupRequest G (newRuleSet rules egress uuid auth) inp = find (msgMatches G inp) rules"
  unfolding LookupRequest_def
  using assms by (intro visited_first_match indexable_Compile) (auto simp: msgMatches_def connMatches_def)

definition demoMsg :: "string \<Rightarrow> MsgInput" where
  "demoMsg host = \<lparr>mi_Conn = demoConn host, mi_Path = ''/'', mi_Method = ''GET'', mi_Header = (\<lambda>_. None)\<rparr>"

theorem LookupRequest_first_match_witness:
  "map_option cr_mitm (LookupRequest plainLib (newRuleSet demoRules [] [] None) (demoMsg ''example.org'')) = Some True"
proof -
  have "map_option cr_mitm (find (msgMatches plainLib (demoMsg ''example.org'')) demoRules) = Some True"
    by code_simp
  with LookupRequest_first_match [OF demo_compiles demo_fits, of "[]" "[]" None "demoMsg ''example.org''"]
  show ?thesis by simp
qed

end
