(* ===== verification/HttpError.thy ===== *)
theory HttpError
  imports RuleSet
begin

text \<open>
  The synthetic responses of \<open>src/internal/httperror/httperror.go\<close>: the fixed cases, the
  ones built from a rule or a broker reply, and the bytes of a complete HTTP/1.1 response. The body of the
  page (an HTML template with a time stamp) is an argument of the writer.
\<close>

record Spec =
  sp_Status :: int
  sp_ErrCode :: string
  sp_Message :: string
  sp_Headers :: "(string \<times> string list) list"

definition plainSpec :: "int \<Rightarrow> string \<Rightarrow> string \<Rightarrow> Spec" where
  "plainSpec status code msg = \<lparr>sp_Status = status, sp_ErrCode = code, sp_Message = msg, sp_Headers = []\<rparr>"

subsection \<open>The fixed cases\<close>

definition NoMatch :: Spec where
  "NoMatch = plainSpec 511 ''ERR_ACCESS_DENIED'' ''No rule matched this request.''"

definition InvalidRequest :: Spec where
  "InvalidRequest = plainSpec 400 ''ERR_INVALID_REQ'' ''Invalid or malformed request.''"

definition HeadersTooLarge :: Spec where
  "HeadersTooLarge = plainSpec 431 ''ERR_TOO_BIG'' ''Request headers too large.''"

definition RequestTimeout :: Spec where
  "RequestTimeout = plainSpec 408 ''ERR_REQUEST_TIMEOUT'' ''Timed out waiting for the request.''"

definition URITooLarge :: Spec where
  "URITooLarge = plainSpec 414 ''ERR_TOO_BIG'' ''Request URI too large.''"

definition UnsupportedMethod :: Spec where
  "UnsupportedMethod = plainSpec 501 ''ERR_UNSUP_REQ'' ''Unsupported request method.''"

definition UpstreamUnreachable :: Spec where
  "UpstreamUnreachable = plainSpec 523 ''ERR_DNS_FAIL'' (''The remote server'' @ [CHR 0x27] @ ''s address could not be resolved.'')"

definition UpstreamDown :: Spec where
  "UpstreamDown = plainSpec 521 ''ERR_CONNECT_FAIL'' ''The remote server refused the connection.''"

definition ConnectTimeout :: Spec where
  "ConnectTimeout = plainSpec 522 ''ERR_CONNECT_FAIL'' ''Connection to the remote server timed out.''"

definition ReadTimeout :: Spec where
  "ReadTimeout = plainSpec 524 ''ERR_READ_TIMEOUT'' ''The remote server stopped responding.''"

definition TLSHandshakeFail :: Spec where
  "TLSHandshakeFail = plainSpec 525 ''ERR_SECURE_CONNECT_FAIL'' ''Unable to negotiate a secure connection to the remote server.''"

definition InvalidUpstreamCert :: Spec where
  "InvalidUpstreamCert = plainSpec 526 ''ERR_SECURE_CONNECT_FAIL'' (''The remote server'' @ [CHR 0x27] @ ''s certificate is invalid.'')"

definition BadGateway :: Spec where
  "BadGateway = plainSpec 502 ''ERR_INVALID_RESP'' ''The remote server returned an invalid response.''"

definition ZeroSizeObject :: Spec where
  "ZeroSizeObject = plainSpec 502 ''ERR_ZERO_SIZE_OBJECT'' ''The remote server closed the connection without sending a response.''"

definition LoopDetected :: Spec where
  "LoopDetected = plainSpec 508 ''ERR_ACCESS_DENIED'' ''Forwarding loop detected.''"

definition InternalError :: Spec where
  "InternalError = plainSpec 500 ''ERR_GATEWAY_FAILURE'' ''Internal proxy error.''"

definition ForwardingDenied :: Spec where
  "ForwardingDenied = plainSpec 403 ''ERR_FORWARDING_DENIED'' ''Forwarding to this address is not permitted.''"

definition RuleDenied :: Spec where
  "RuleDenied = plainSpec 403 ''ERR_RULE_DENIED'' ''This connection is denied by policy.''"

definition MisdirectedRequest :: Spec where
  "MisdirectedRequest = plainSpec 421 ''ERR_MISDIRECTED_REQUEST'' ''This connection cannot serve requests for the requested host.''"

definition OutcallFail :: Spec where
  "OutcallFail = plainSpec 502 ''ERR_OUTCALL_FAIL'' ''The policy service could not be reached.''"

subsection \<open>The cases with parameters\<close>

definition quoteChar :: char where "quoteChar = CHR 0x22"

definition ProxyAuthRequired :: "string \<Rightarrow> string list \<Rightarrow> Spec" where
  "ProxyAuthRequired realm schemes =
     (let realm' = filter (\<lambda>c. c \<noteq> quoteChar) realm;
          values = map (\<lambda>scheme. scheme @ '' realm='' @ [quoteChar] @ realm' @ [quoteChar]) schemes in
      \<lparr>sp_Status = 407, sp_ErrCode = ''ERR_CACHE_ACCESS_DENIED'', sp_Message = ''Proxy authentication required.'',
       sp_Headers = (if values = [] then [] else [(''Proxy-Authenticate'', values)])\<rparr>)"

definition OutcallDenied :: "int \<Rightarrow> string \<Rightarrow> Spec" where
  "OutcallDenied status msg =
     plainSpec (if status = 0 then 403 else status) ''ERR_OUTCALL_DENIED'' (if msg = [] then ''Denied by policy.'' else msg)"

definition Raise :: "int \<Rightarrow> string \<Rightarrow> Spec" where
  "Raise status msg = plainSpec (if status = 0 then 403 else status) ''ERR_ACCESS_DENIED'' msg"

subsection \<open>Writing a response\<close>

definition cloudflareStatusText :: "int \<Rightarrow> string" where
  "cloudflareStatusText code =
     (if code = 521 then ''Web Server Is Down'' else if code = 522 then ''Connection Timed Out''
      else if code = 523 then ''Origin Is Unreachable'' else if code = 524 then ''A Timeout Occurred''
      else if code = 525 then ''SSL Handshake Failed'' else if code = 526 then ''Invalid SSL Certificate'' else [])"

text \<open>\<open>http.StatusText\<close> is the argument \<open>text\<close>.\<close>

definition statusText :: "(int \<Rightarrow> string) \<Rightarrow> int \<Rightarrow> string" where
  "statusText text code = (let t = text code in if t \<noteq> [] then t else cloudflareStatusText code)"

definition crlf :: string where "crlf = [CHR 0x0D, CHR 0x0A]"

definition headerLine :: "string \<Rightarrow> string \<Rightarrow> string" where
  "headerLine name v = name @ '': '' @ v @ crlf"

definition WriteResponse :: "(int \<Rightarrow> string) \<Rightarrow> string \<Rightarrow> Spec \<Rightarrow> string" where
  "WriteResponse text body spec =
     ''HTTP/1.1 '' @ Itoa (sp_Status spec) @ '' '' @ statusText text (sp_Status spec) @ crlf @
     headerLine ''Content-Type'' ''text/html; charset=utf-8'' @
     headerLine ''Content-Length'' (Itoa (int (length body))) @
     concat (map (\<lambda>(name, values). concat (map (headerLine name) values)) (sp_Headers spec)) @
     headerLine ''Connection'' ''close'' @ crlf @ body"

subsection \<open>Reading a response back\<close>

text \<open>A reader of the head of a message: the lines up to the first empty one, and the rest.\<close>

fun takeLine :: "string \<Rightarrow> (string \<times> string) option" where
  "takeLine (a # b # s) =
     (if a = CHR 0x0D \<and> b = CHR 0x0A then Some ([], s) else map_option (\<lambda>(l, r). (a # l, r)) (takeLine (b # s)))"
| "takeLine s = None"

lemma takeLine_shorter: "takeLine s = Some (l, r) \<Longrightarrow> length r < length s"
  by (induction s arbitrary: l rule: takeLine.induct) (auto split: if_splits)

function readHead :: "string \<Rightarrow> string list \<times> string" where
  "readHead s =
     (case takeLine s of
        None \<Rightarrow> ([], [])
      | Some (l, r) \<Rightarrow> if l = [] then ([], r) else (let (ls, b) = readHead r in (l # ls, b)))"
  by auto
termination
  by (relation "measure length") (auto dest: takeLine_shorter)

declare readHead.simps [simp del]

lemma takeLine_line: "CHR 0x0D \<notin> set l \<Longrightarrow> takeLine (l @ crlf @ r) = Some (l, r)"
proof (induction l)
  case (Cons a l)
  obtain b s where "l @ crlf @ r = b # s" by (cases "l @ crlf @ r") (auto simp: crlf_def)
  with Cons show ?case by auto
qed (simp add: crlf_def)

definition lineOf :: "string \<Rightarrow> bool" where
  "lineOf l \<longleftrightarrow> l \<noteq> [] \<and> CHR 0x0D \<notin> set l"

lemma readHead_lines:
  "list_all lineOf ls \<Longrightarrow> readHead (concat (map (\<lambda>l. l @ crlf) ls) @ crlf @ body) = (ls, body)"
proof (induction ls)
  case Nil
  have "takeLine (crlf @ body) = Some ([], body)" using takeLine_line [of "[]" body] by simp
  then show ?case by (simp add: readHead.simps)
next
  case (Cons l ls)
  then have "takeLine (l @ crlf @ concat (map (\<lambda>l. l @ crlf) ls) @ crlf @ body) = Some (l, concat (map (\<lambda>l. l @ crlf) ls) @ crlf @ body)"
    by (intro takeLine_line) (simp add: lineOf_def)
  with Cons show ?case by (subst readHead.simps) (simp add: lineOf_def)
qed

definition responseLines :: "(int \<Rightarrow> string) \<Rightarrow> string \<Rightarrow> Spec \<Rightarrow> string list" where
  "responseLines text body spec =
     [''HTTP/1.1 '' @ Itoa (sp_Status spec) @ '' '' @ statusText text (sp_Status spec),
      ''Content-Type: text/html; charset=utf-8'',
      ''Content-Length: '' @ Itoa (int (length body))] @
     concat (map (\<lambda>(name, values). map (\<lambda>v. name @ '': '' @ v) values) (sp_Headers spec)) @
     [''Connection: close'']"

lemma WriteResponse_lines:
  "WriteResponse text body spec = concat (map (\<lambda>l. l @ crlf) (responseLines text body spec)) @ crlf @ body"
proof -
  have "concat (map (\<lambda>(name, values). concat (map (headerLine name) values)) hs) =
      concat (map (\<lambda>l. l @ crlf) (concat (map (\<lambda>(name, values). map (\<lambda>v. name @ '': '' @ v) values) hs)))" for hs
    by (induction hs) (auto simp: headerLine_def comp_def)
  then show ?thesis by (simp add: WriteResponse_def responseLines_def headerLine_def)
qed

lemma Itoa_no_cr: "CHR 0x0D \<notin> set (Itoa n)"
proof -
  have "CHR 0x0D \<notin> set (showNat k)" for k using showNat_digits [of k] by (auto simp: list_all_iff isDigit_def)
  then show ?thesis by (simp add: Itoa_def)
qed

definition headersClean :: "Spec \<Rightarrow> bool" where
  "headersClean spec \<longleftrightarrow> list_all (\<lambda>(name, values). CHR 0x0D \<notin> set name \<and> list_all (\<lambda>v. CHR 0x0D \<notin> set v) values) (sp_Headers spec)"

text \<open>
  C34. Every synthetic response is correctly framed: when the status text and the extra headers carry no carriage return,
  a reader that takes the header lines up to the first empty line finds the status line, one
  Content-Length with the length of the page, the challenge headers and Connection: close, and
  what follows is exactly the page, whatever bytes the page contains.
\<close>

theorem response_framing:
  assumes "headersClean spec" and "CHR 0x0D \<notin> set (text (sp_Status spec))"
  shows "readHead (WriteResponse text body spec) = (responseLines text body spec, body)"
proof -
  have "CHR 0x0D \<notin> set (statusText text (sp_Status spec))"
    using assms(2) by (auto simp: statusText_def cloudflareStatusText_def Let_def)
  then have "list_all lineOf (responseLines text body spec)"
    using assms(1) Itoa_no_cr by (auto simp: responseLines_def lineOf_def headersClean_def list_all_iff)
  then show ?thesis by (simp add: WriteResponse_lines readHead_lines)
qed

theorem response_framing_witness:
  "readHead (WriteResponse (\<lambda>_. ''Proxy Authentication Required'') ''page'' (ProxyAuthRequired ''corp'' [''Basic''])) =
     ([''HTTP/1.1 407 Proxy Authentication Required'', ''Content-Type: text/html; charset=utf-8'', ''Content-Length: 4'',
       ''Proxy-Authenticate: Basic realm='' @ [quoteChar] @ ''corp'' @ [quoteChar], ''Connection: close''], ''page'')"
proof -
  have clean: "headersClean (ProxyAuthRequired ''corp'' [''Basic''])" by code_simp
  have "responseLines (\<lambda>_. ''Proxy Authentication Required'') ''page'' (ProxyAuthRequired ''corp'' [''Basic'']) =
    [''HTTP/1.1 407 Proxy Authentication Required'', ''Content-Type: text/html; charset=utf-8'', ''Content-Length: 4'',
       ''Proxy-Authenticate: Basic realm='' @ [quoteChar] @ ''corp'' @ [quoteChar], ''Connection: close'']"
    by code_simp
  with response_framing [OF clean, of "\<lambda>_. ''Proxy Authentication Required''" "''page''"] show ?thesis by simp
qed

end
