(* ===== verification/Authority.thy ===== *)
theory Authority
  imports HttpError
begin

text \<open>
  Names, addresses and bounds of the proxy: \<open>src/internal/proxy/authority.go\<close>
  (authorities, canonical hosts, the bounded header block), \<open>trustedproxy.go\<close> (client
  recovery), \<open>egress.go\<close> (resolve and pin), \<open>errclass.go\<close>,
  \<open>retry.go\<close> and the client identity of \<open>src/internal/session/session.go\<close>. The IDNA
  conversion and the DNS resolver are parameters.
\<close>

subsection \<open>Host and port\<close>

text \<open>\<open>net.SplitHostPort\<close>.\<close>

fun indexOf :: "string \<Rightarrow> char \<Rightarrow> nat option" where
  "indexOf [] c = None"
| "indexOf (x # xs) c = (if x = c then Some 0 else map_option Suc (indexOf xs c))"

definition SplitHostPort :: "string \<Rightarrow> (string \<times> string) option" where
  "SplitHostPort hp =
     (let i = LastIndexByte hp CHR '':'' in
      if i < 0 then None
      else
        let i = nat i;
            checked = (\<lambda>host j k.
              if CHR ''['' \<in> set (drop j hp) \<or> CHR '']'' \<in> set (drop k hp) then None
              else Some (host, drop (i + 1) hp)) in
        if hd hp = CHR ''['' then
          (case indexOf hp CHR '']'' of
             None \<Rightarrow> None
           | Some fin \<Rightarrow> if fin + 1 = i then checked (slice hp 1 fin) 1 (fin + 1) else None)
        else if CHR '':'' \<in> set (take i hp) then None
        else checked (take i hp) 0 0)"

definition JoinHostPort :: "string \<Rightarrow> string \<Rightarrow> string" where
  "JoinHostPort host port =
     (if CHR '':'' \<in> set host then ''['' @ host @ '']:'' @ port else host @ '':'' @ port)"

datatype authorityError = EmptyAuthority | InvalidAuthority string | BadPort string | InvalidHost string

definition canonicalHost :: "golib \<Rightarrow> (string \<Rightarrow> string option) \<Rightarrow> string \<Rightarrow> (authorityError, string) res" where
  "canonicalHost G idna host0 =
     (let host = TrimSuffix (ToLower G (TrimSpace host0)) ''.'' in
      case ParseAddr host of
        Some ip \<Rightarrow> Inr (Addr_String (Unmap ip))
      | None \<Rightarrow>
          (case idna host of
             None \<Rightarrow> Inl (InvalidHost host)
           | Some asciiHost \<Rightarrow> if asciiHost = [] then Inl (InvalidHost host) else Inr (ToLower G asciiHost)))"

definition normalizeAuthority ::
    "golib \<Rightarrow> (string \<Rightarrow> string option) \<Rightarrow> string \<Rightarrow> string \<Rightarrow> (authorityError, string \<times> string \<times> string) res" where
  "normalizeAuthority G idna authority0 defaultPort =
     (let authority = TrimSpace authority0 in
      if authority = [] then Inl EmptyAuthority
      else
        bindR (case SplitHostPort authority of
                 Some hp \<Rightarrow> Inr hp
               | None \<Rightarrow>
                   if HasPrefix authority ''['' \<and> HasSuffix authority '']'' then
                     Inr (TrimSuffix (TrimPrefix authority ''['') '']'', defaultPort)
                   else if CHR '':'' \<in> set authority \<and> ParseAddr authority = None then Inl (InvalidAuthority authority)
                   else Inr (authority, defaultPort)) (\<lambda>(host, port).
        if host = [] then Inl (InvalidAuthority authority)
        else
          case Atoi port of
            None \<Rightarrow> Inl (BadPort port)
          | Some n \<Rightarrow>
              if n < 1 \<or> 65535 < n then Inl (BadPort port)
              else bindR (canonicalHost G idna host) (\<lambda>policyHost. Inr (policyHost, port, JoinHostPort host port))))"

definition sameHost :: "golib \<Rightarrow> (string \<Rightarrow> string option) \<Rightarrow> string \<Rightarrow> string \<Rightarrow> bool" where
  "sameHost G idna a b =
     (case (canonicalHost G idna a, canonicalHost G idna b) of (Inr ca, Inr cb) \<Rightarrow> ca = cb | _ \<Rightarrow> False)"

definition authorityMatches :: "golib \<Rightarrow> (string \<Rightarrow> string option) \<Rightarrow> string \<Rightarrow> string \<Rightarrow> string \<Rightarrow> string \<Rightarrow> bool" where
  "authorityMatches G idna got expectHost expectPort proto =
     (case normalizeAuthority G idna got (if proto = ''https'' then ''443'' else ''80'') of
        Inl _ \<Rightarrow> False
      | Inr (host, port, _) \<Rightarrow> sameHost G idna host expectHost \<and> port = expectPort)"

subsection \<open>The bounded header block\<close>

text \<open>
  The peer's bytes are a string and the error the connection ends with; a read returns the bytes up to a line feed, a
  full buffer, or what is left.
\<close>

datatype readError = EndOfFile | DeadlineExceeded | ConnectionReset

datatype headerError = HeadersTooLargeErr | EmptyConnectionErr readError | HeaderReadErr readError

definition bufioReadSize :: nat where "bufioReadSize = 4096"

definition lineEnd :: "string \<Rightarrow> nat option" where
  "lineEnd s = map_option Suc (indexOf s CHR 0x0A)"

definition ReadSlice :: "string \<Rightarrow> string \<times> string \<times> bool" where
  "ReadSlice s =
     (case lineEnd (take bufioReadSize s) of
        Some n \<Rightarrow> (take n s, drop n s, False)
      | None \<Rightarrow>
          if bufioReadSize \<le> length s then (take bufioReadSize s, drop bufioReadSize s, False)
          else (s, [], True))"

definition blankLine :: "string \<Rightarrow> bool" where
  "blankLine data \<longleftrightarrow> HasSuffix data (crlf @ crlf) \<or> HasSuffix data [CHR 0x0A, CHR 0x0A]"

lemma lineEnd_bounds: "lineEnd s = Some n \<Longrightarrow> 0 < n \<and> n \<le> length s"
proof -
  have "indexOf s c = Some i \<Longrightarrow> i < length s" for c i by (induction s arbitrary: i) (auto split: if_splits)
  then show "lineEnd s = Some n \<Longrightarrow> ?thesis" by (fastforce simp: lineEnd_def)
qed

lemma ReadSlice_shorter: "ReadSlice s = (frag, rest, False) \<Longrightarrow> length rest < length s"
  by (fastforce simp: ReadSlice_def bufioReadSize_def split: option.splits if_splits dest: lineEnd_bounds)

function headerLoop :: "nat \<Rightarrow> readError \<Rightarrow> string \<Rightarrow> string \<Rightarrow> (headerError, string) res" where
  "headerLoop limit err header s =
     (case ReadSlice s of
        (frag, rest, ended) \<Rightarrow>
          if limit < length header + length frag then Inl HeadersTooLargeErr
          else
            let data = header @ frag in
            if blankLine data then Inr data
            else if ended then Inl (if data = [] then EmptyConnectionErr err else HeaderReadErr err)
            else headerLoop limit err data rest)"
  by auto
termination
  by (relation "measure (\<lambda>(limit, err, header, s). length s)") (auto dest: ReadSlice_shorter simp: eq_commute)

declare headerLoop.simps [simp del]

text \<open>
  \<open>boundNextHeaderBlock\<close>: the verdict, and what the next reader of the connection sees.
\<close>

definition boundNextHeaderBlock :: "nat \<Rightarrow> readError \<Rightarrow> string \<Rightarrow> (headerError, string) res \<times> string option" where
  "boundNextHeaderBlock limit err s =
     (if limit = 0 then (Inl HeadersTooLargeErr, None)
      else case headerLoop limit err [] s of
        Inl HeadersTooLargeErr \<Rightarrow> (Inl HeadersTooLargeErr, None)
      | r \<Rightarrow> (r, Some s))"

subsection \<open>Client identity\<close>

definition isTrustedPeer :: "Addr \<Rightarrow> Prefix list \<Rightarrow> bool" where
  "isTrustedPeer addr trusted = list_ex (\<lambda>p. Contains p addr) trusted"

definition headerValues :: "header \<Rightarrow> string \<Rightarrow> string list" where
  "headerValues h name = (case h (CanonicalMIMEHeaderKey name) of Some vs \<Rightarrow> vs | None \<Rightarrow> [])"

fun walkHops :: "Prefix list \<Rightarrow> string list \<Rightarrow> Addr option" where
  "walkHops trusted [] = None"
| "walkHops trusted (hop0 # hops) =
     (let hop = TrimSpace hop0 in
      if hop = [] then walkHops trusted hops
      else case ParseAddr hop of
        None \<Rightarrow> walkHops trusted hops
      | Some addr \<Rightarrow> if isTrustedPeer addr trusted then walkHops trusted hops else Some addr)"

definition recoverClientIP :: "Addr \<Rightarrow> header \<Rightarrow> Prefix list \<Rightarrow> Addr" where
  "recoverClientIP peer h trusted =
     (if \<not> isTrustedPeer peer trusted then peer
      else
        let hops = Split (Join (headerValues h ''X-Forwarded-For'') '','') CHR '','' in
        case walkHops trusted (rev hops) of
          Some addr \<Rightarrow> addr
        | None \<Rightarrow>
            (case ParseAddr (TrimSpace (headerGet h ''X-Real-IP'')) of
               Some addr \<Rightarrow> addr
             | None \<Rightarrow> peer))"

datatype Transport = TransportExplicit | TransportTProxy | TransportRedirect

fun Transport_String :: "Transport \<Rightarrow> string" where
  "Transport_String TransportExplicit = ''explicit''"
| "Transport_String TransportTProxy = ''tproxy''"
| "Transport_String TransportRedirect = ''redirect''"

type_synonym AddrPort = "Addr \<times> 16 word"

record Session =
  se_Client :: "AddrPort option"
  se_Dst :: "AddrPort option"
  se_Transport :: Transport
  se_Acceptor :: string

definition loopback :: Addr where
  "loopback = v4Addr [127, 0, 0, 1]"

definition ClientKey :: "Session \<Rightarrow> Addr" where
  "ClientKey s = (case se_Client s of Some (addr, _) \<Rightarrow> addr | None \<Rightarrow> loopback)"

definition tcpAddrPort :: "byte list \<Rightarrow> int \<Rightarrow> AddrPort option" where
  "tcpAddrPort ip port = map_option (\<lambda>addr. (Unmap addr, word_of_int port)) (AddrFromSlice ip)"

subsection \<open>Resolve and pin\<close>

text \<open>
  What the code asks of an error: whether a \<open>net.DNSError\<close> is in its chain (\<open>errors.As\<close>), whether it is a timeout
  (\<open>isTimeout\<close>), and whether it is \<open>io.EOF\<close>.
\<close>

record netError =
  ne_dns :: bool
  ne_timeout :: bool
  ne_eof :: bool
  ne_text :: string

datatype pinError = InvalidPort string | LookupFailed netError | EgressDenied Addr | IndexOutOfRange

type_synonym resolver = "string \<Rightarrow> (netError, Addr list) res"

definition resolveAndPin ::
    "golib \<Rightarrow> RuleSet \<Rightarrow> resolver \<Rightarrow> string \<Rightarrow> string \<Rightarrow> string \<Rightarrow> (pinError, string) res" where
  "resolveAndPin G rs LookupIP host port proto =
     (case ParseUint port 16 of
        None \<Rightarrow> Inl (InvalidPort port)
      | Some portNum \<Rightarrow>
          bindR (case ParseAddr host of
                   Some addr \<Rightarrow> Inr [addr]
                 | None \<Rightarrow> (case LookupIP host of Inl e \<Rightarrow> Inl (LookupFailed e) | Inr addrs \<Rightarrow> Inr addrs)) (\<lambda>addrs.
          case find (\<lambda>addr. \<not> fst (LookupEgress G rs addr (word_of_int portNum) proto)) addrs of
            Some addr \<Rightarrow> Inl (EgressDenied addr)
          | None \<Rightarrow>
              (case addrs of
                 [] \<Rightarrow> Inl IndexOutOfRange
               | addr # _ \<Rightarrow> Inr (JoinHostPort (Addr_String addr) port))))"

subsection \<open>Failures of the upstream leg\<close>

definition classifyConnectErr :: "netError \<Rightarrow> Spec" where
  "classifyConnectErr e =
     (if ne_dns e then UpstreamUnreachable else if ne_timeout e then ConnectTimeout else UpstreamDown)"

definition classifyReadErr :: "netError \<Rightarrow> Spec" where
  "classifyReadErr e =
     (if ne_timeout e then ReadTimeout else if ne_eof e then ZeroSizeObject else BadGateway)"

definition classifyTerminateDialErr :: "netError \<Rightarrow> Spec" where
  "classifyTerminateDialErr e =
     (if ne_dns e then UpstreamUnreachable else if ne_timeout e then ConnectTimeout else TLSHandshakeFail)"

text \<open>\<open>withRetries\<close> over an attempt that threads the state of the world.\<close>

datatype 'e retryError = TriesNotPositive | LastError 'e

fun retryLoop :: "nat \<Rightarrow> ('w \<Rightarrow> ('e, 'a) res \<times> 'w) \<Rightarrow> 'e retryError \<Rightarrow> 'w \<Rightarrow> ('e retryError, 'a) res \<times> 'w" where
  "retryLoop 0 attempt lastErr w = (Inl lastErr, w)"
| "retryLoop (Suc n) attempt lastErr w =
     (case attempt w of
        (Inr v, w') \<Rightarrow> (Inr v, w')
      | (Inl e, w') \<Rightarrow> retryLoop n attempt (LastError e) w')"

definition withRetries :: "int \<Rightarrow> ('w \<Rightarrow> ('e, 'a) res \<times> 'w) \<Rightarrow> 'w \<Rightarrow> ('e retryError, 'a) res \<times> 'w" where
  "withRetries tries attempt w =
     (if tries \<le> 0 then (Inl TriesNotPositive, w) else retryLoop (nat tries) attempt TriesNotPositive w)"

subsection \<open>Facts about the header block\<close>

lemma indexOf_split: "indexOf s c = Some i \<Longrightarrow> i < length s \<and> s ! i = c \<and> c \<notin> set (take i s)"
  by (induction s arbitrary: i) (auto split: if_splits)

lemma indexOf_None: "indexOf s c = None \<longleftrightarrow> c \<notin> set s"
  by (induction s) auto

text \<open>A line feed stands at the end of a read or nowhere in it, and a read that ends the stream has none.\<close>

lemma ReadSlice_cases:
  assumes "ReadSlice s = (frag, rest, ended)"
  shows "s = frag @ rest \<and> CHR 0x0A \<notin> set (butlast frag) \<and> (ended \<longrightarrow> rest = [] \<and> CHR 0x0A \<notin> set frag) \<and>
    (\<not> ended \<longrightarrow> frag \<noteq> [])"
proof (cases "indexOf (take bufioReadSize s) CHR 0x0A")
  case (Some i)
  with assms have r: "frag = take (Suc i) s" "rest = drop (Suc i) s" "\<not> ended" by (simp_all add: ReadSlice_def lineEnd_def)
  from indexOf_split [OF Some] have i: "i < length s" "i < bufioReadSize" "CHR 0x0A \<notin> set (take i s)"
    by (simp_all add: min_def split: if_splits)
  then have "butlast frag = take i s" by (simp add: r butlast_take)
  moreover have "frag \<noteq> []" using i(1) by (cases s) (simp_all add: r)
  ultimately show ?thesis using i(3) r by simp
next
  case None
  then have no: "CHR 0x0A \<notin> set (take bufioReadSize s)" by (simp add: indexOf_None)
  show ?thesis
  proof (cases "bufioReadSize \<le> length s")
    case True
    with None assms have r: "frag = take bufioReadSize s" "rest = drop bufioReadSize s" "\<not> ended"
      by (simp_all add: ReadSlice_def lineEnd_def)
    moreover have "0 < bufioReadSize" by (simp add: bufioReadSize_def)
    then have "frag \<noteq> []" using True r by (cases s) simp_all
    moreover have "CHR 0x0A \<notin> set (butlast frag)" using no r in_set_butlastD by fastforce
    ultimately show ?thesis by simp
  next
    case False
    with None assms have r: "frag = s" "rest = []" "ended" by (simp_all add: ReadSlice_def lineEnd_def)
    with False no have "CHR 0x0A \<notin> set frag" by simp
    then show ?thesis using r in_set_butlastD by fastforce
  qed
qed

lemmas ReadSlice_spec =
  ReadSlice_cases [THEN conjunct1] ReadSlice_cases [THEN conjunct2, THEN conjunct1]
  ReadSlice_cases [THEN conjunct2, THEN conjunct2, THEN conjunct1, rule_format]
  ReadSlice_cases [THEN conjunct2, THEN conjunct2, THEN conjunct2, rule_format]

lemma blankLine_lf: "blankLine u \<Longrightarrow> u \<noteq> [] \<and> last u = CHR 0x0A"
  by (auto simp: blankLine_def HasSuffix_iff crlf_def)

definition firstBlank :: "string \<Rightarrow> bool" where
  "firstBlank u \<longleftrightarrow> blankLine u \<and> (\<forall>n < length u. \<not> blankLine (take n u))"

lemma headerLoop_sound: "headerLoop limit err header s = Inr d \<Longrightarrow> \<exists>u v. s = u @ v \<and> d = header @ u \<and> length d \<le> limit \<and> blankLine d"
proof (induction limit err header s rule: headerLoop.induct)
  case (1 limit err header s)
  obtain frag rest ended where r: "ReadSlice s = (frag, rest, ended)" by (cases "ReadSlice s") auto
  note split = ReadSlice_spec(1) [OF r]
  show ?case
  proof (cases "blankLine (header @ frag)")
    case True
    with 1(2) r have "d = header @ frag \<and> length d \<le> limit"
      by (auto simp: headerLoop.simps [of limit err header s] Let_def split: if_splits)
    with True split show ?thesis by blast
  next
    case False
    with 1(2) r have more: "\<not> limit < length header + length frag" "\<not> ended" "headerLoop limit err (header @ frag) rest = Inr d"
      by (auto simp: headerLoop.simps [of limit err header s] Let_def split: if_splits)
    from 1(1) [OF r [symmetric] refl more(1) refl False more(2) more(3)] split show ?thesis by fastforce
  qed
qed

text \<open>No read steps over the end of the block: the loop stops exactly there.\<close>

lemma headerLoop_complete:
  assumes "firstBlank (header @ u)" and "u \<noteq> []" and "s = u @ v" and "length (header @ u) \<le> limit"
  shows "headerLoop limit err header s = Inr (header @ u)"
  using assms
proof (induction limit err header s arbitrary: u rule: headerLoop.induct)
  case (1 limit err header s)
  obtain frag rest ended where r: "ReadSlice s = (frag, rest, ended)" by (cases "ReadSlice s") auto
  note spec = ReadSlice_spec [OF r]
  have lf: "last u = CHR 0x0A" using blankLine_lf [of "header @ u"] 1(2,3) by (auto simp: firstBlank_def)
  have inside: "length frag \<le> length u"
  proof (rule ccontr)
    assume "\<not> ?thesis"
    then have "length u < length frag" by simp
    moreover from this have "take (length u) frag = u" using spec(1) 1(4) by (auto simp: append_eq_append_conv_if)
    ultimately have "take (length u) (butlast frag) = u" using take_butlast [of "length u" frag] by simp
    then have "set u \<subseteq> set (butlast frag)" using set_take_subset [of "length u" "butlast frag"] by simp
    moreover have "CHR 0x0A \<in> set u" using last_in_set [OF 1(3)] lf by simp
    ultimately show False using spec(2) by blast
  qed
  then obtain w where u: "u = frag @ w" "rest = w @ v" using spec(1) 1(4) by (auto simp: append_eq_append_conv2)
  have "CHR 0x0A \<in> set u" using last_in_set [OF 1(3)] lf by simp
  with spec(3) u have go: "\<not> ended" by auto
  have short: "\<not> limit < length header + length frag" using 1(5) u by simp
  show ?case
  proof (cases w)
    case Nil
    then show ?thesis using 1(2) r u short by (simp add: headerLoop.simps [of limit err header s] firstBlank_def)
  next
    case (Cons c cs)
    then have "length (header @ frag) < length (header @ u)" using u by simp
    then have "\<not> blankLine (take (length (header @ frag)) (header @ u))" using 1(2) unfolding firstBlank_def by blast
    then have nb: "\<not> blankLine (header @ frag)" using u by simp
    have "headerLoop limit err (header @ frag) rest = Inr ((header @ frag) @ w)"
      using 1(1) [OF r [symmetric] refl short refl nb go, of w] 1(2,5) u Cons by simp
    then show ?thesis using r short nb go u by (simp add: headerLoop.simps [of limit err header s] Let_def)
  qed
qed

lemma firstBlank_exists:
  assumes "blankLine d"
  shows "\<exists>n \<le> length d. firstBlank (take n d)"
proof -
  have ex: "blankLine (take (length d) d)" using assms by simp
  define n where "n = (LEAST n. blankLine (take n d))"
  have n: "blankLine (take n d)" unfolding n_def by (rule LeastI [of "\<lambda>n. blankLine (take n d)", OF ex])
  have le: "n \<le> length d" unfolding n_def by (rule Least_le) (rule ex)
  have "\<not> blankLine (take m d)" if "m < n" for m using not_less_Least that unfolding n_def by blast
  with n le show ?thesis by (intro exI [of _ n]) (auto simp: firstBlank_def min_def)
qed

lemma headerLoop_iff:
  "headerLoop limit err [] s = Inr u \<longleftrightarrow> firstBlank u \<and> length u \<le> limit \<and> (\<exists>v. s = u @ v)"
proof
  assume ok: "headerLoop limit err [] s = Inr u"
  from headerLoop_sound [OF this] obtain v where v: "s = u @ v" "length u \<le> limit" "blankLine u" by auto
  from firstBlank_exists [OF v(3)] obtain n where n: "n \<le> length u" "firstBlank (take n u)" by auto
  then have "take n u \<noteq> []" by (auto simp: firstBlank_def dest: blankLine_lf)
  then have "headerLoop limit err [] s = Inr (take n u)"
    using headerLoop_complete [of "[]" "take n u" s "drop n u @ v" limit err] n v by simp
  with ok n v show "firstBlank u \<and> length u \<le> limit \<and> (\<exists>v. s = u @ v)" by auto
next
  assume "firstBlank u \<and> length u \<le> limit \<and> (\<exists>v. s = u @ v)"
  moreover from this have "u \<noteq> []" by (auto simp: firstBlank_def dest: blankLine_lf)
  ultimately show "headerLoop limit err [] s = Inr u" using headerLoop_complete [of "[]" u s _ limit err] by auto
qed


subsection \<open>Facts about client recovery\<close>

lemma walkHops_append: "walkHops trusted (xs @ ys) = (case walkHops trusted xs of Some a \<Rightarrow> Some a | None \<Rightarrow> walkHops trusted ys)"
  by (induction xs) (auto simp: Let_def split: option.splits)

lemma walkHops_skip: "walkHops trusted (xs @ ys) = walkHops trusted ys" if "walkHops trusted xs = None"
  using that by (simp add: walkHops_append)

lemma Split_Join_snoc: "Split (Join (vs @ [v]) '','') CHR '','' = (if vs = [] then [] else Split (Join vs '','') CHR '','') @ Split v CHR '',''"
  by (cases "vs = []") (simp_all add: Join_append Split_append_sep)

text \<open>
  C24. What a client writes into its own \<open>X-Forwarded-For\<close> cannot change who it is taken for. When the peer is a trusted
  proxy, the last hop that is not is the client, as long as every hop to its right is an address of a
  trusted proxy, whatever stands to its left, in the same line or in earlier lines. When the peer is not trusted, no
  header counts at all.
\<close>

theorem forwarded_for_spoof:
  assumes "h ''X-Forwarded-For'' = Some (earlier @ [Join (forged @ hop # relays) '',''])"
    and "\<forall>l \<in> set (hop # relays). CHR '','' \<notin> set l"
    and "ParseAddr (TrimSpace hop) = Some client" and "\<not> isTrustedPeer client trusted"
    and "\<forall>r \<in> set relays. \<exists>a. ParseAddr (TrimSpace r) = Some a \<and> isTrustedPeer a trusted"
  shows "recoverClientIP peer h trusted = (if isTrustedPeer peer trusted then client else peer)"
proof (cases "isTrustedPeer peer trusted")
  case True
  have line: "Split (Join (forged @ hop # relays) '','') CHR '','' =
      (if forged = [] then [] else Split (Join forged '','') CHR '','') @ (hop # relays)"
    using Split_Join [of "hop # relays" "CHR '',''"] assms(2)
    by (cases "forged = []") (simp_all add: Join_append Split_append_sep)
  have relays: "walkHops trusted (rev relays) = None"
  proof -
    have "walkHops trusted xs = None" if "\<forall>r \<in> set xs. \<exists>a. ParseAddr (TrimSpace r) = Some a \<and> isTrustedPeer a trusted" for xs
      using that by (induction xs) (auto simp: Let_def)
    then show ?thesis using assms(5) by simp
  qed
  have "ParseAddr [] = None" by code_simp
  then have hop: "walkHops trusted (hop # rest) = Some client" for rest
    using assms(3,4) by (auto simp: Let_def)
  have key: "CanonicalMIMEHeaderKey ''X-Forwarded-For'' = ''X-Forwarded-For''" by code_simp
  define pre where "pre = (if earlier = [] then [] else Split (Join earlier '','') CHR '','') @
    (if forged = [] then [] else Split (Join forged '','') CHR '','')"
  have "Split (Join (headerValues h ''X-Forwarded-For'') '','') CHR '','' = pre @ hop # relays"
    unfolding pre_def headerValues_def key assms(1) by (simp add: Split_Join_snoc line)
  then show ?thesis using True relays hop by (simp add: recoverClientIP_def walkHops_append)
next
  case False
  then show ?thesis by (simp add: recoverClientIP_def)
qed

definition proxyNet :: "Prefix list" where
  "proxyNet = [\<lparr>pfx_addr = v4Addr [10, 0, 0, 0], pfx_bits = 8\<rparr>]"

theorem forwarded_for_spoof_witness:
  "recoverClientIP (v4Addr [10, 0, 0, 1]) [''X-Forwarded-For'' \<mapsto> [''192.0.2.1'', ''198.51.100.9, 203.0.113.7, 10.0.0.2'']] proxyNet =
   v4Addr [203, 0, 113, 7]"
proof -
  have "ParseAddr (TrimSpace '' 203.0.113.7'') = Some (v4Addr [203, 0, 113, 7])"
    "ParseAddr (TrimSpace '' 10.0.0.2'') = Some (v4Addr [10, 0, 0, 2])"
    "isTrustedPeer (v4Addr [10, 0, 0, 1]) proxyNet" "isTrustedPeer (v4Addr [10, 0, 0, 2]) proxyNet"
    "\<not> isTrustedPeer (v4Addr [203, 0, 113, 7]) proxyNet"
    by code_simp+
  then show ?thesis
    using forwarded_for_spoof [of "[''X-Forwarded-For'' \<mapsto> [''192.0.2.1'', ''198.51.100.9, 203.0.113.7, 10.0.0.2'']]" "[''192.0.2.1'']"
        "[''198.51.100.9'']" "'' 203.0.113.7''" "['' 10.0.0.2'']" "v4Addr [203, 0, 113, 7]" proxyNet "v4Addr [10, 0, 0, 1]"]
    by simp
qed

text \<open>
  A hop the parser does not accept is passed over, not treated as the end of what can be trusted: when a trusted
  proxy records the client with its port, or as \<open>unknown\<close>, the walk goes on to what that client wrote itself, so the
  client chooses the address it is taken for.
\<close>

theorem unparsable_hop_spoof:
  assumes "isTrustedPeer peer trusted" and "h ''X-Forwarded-For'' = Some [forged @ '','' @ hop]"
    and "CHR '','' \<notin> set hop" and "ParseAddr (TrimSpace hop) = None"
    and "CHR '','' \<notin> set forged" and "ParseAddr (TrimSpace forged) = Some chosen" and "\<not> isTrustedPeer chosen trusted"
  shows "recoverClientIP peer h trusted = chosen"
proof -
  have key: "CanonicalMIMEHeaderKey ''X-Forwarded-For'' = ''X-Forwarded-For''" by code_simp
  have "ParseAddr [] = None" by code_simp
  then have "TrimSpace forged \<noteq> []" using assms(6) by auto
  moreover have "Split (forged @ CHR '','' # hop) CHR '','' = [forged, hop]"
    using assms(3,5) by (simp add: Split_append_sep Split_no_sep)
  ultimately show ?thesis
    using assms by (simp add: recoverClientIP_def headerValues_def key Let_def)
qed

theorem unparsable_hop_spoof_witness:
  "recoverClientIP (v4Addr [10, 0, 0, 1]) [''X-Forwarded-For'' \<mapsto> [''192.0.2.1, 203.0.113.7:50123'']] proxyNet = v4Addr [192, 0, 2, 1]"
proof -
  have "ParseAddr (TrimSpace ''192.0.2.1'') = Some (v4Addr [192, 0, 2, 1])"
    "ParseAddr (TrimSpace '' 203.0.113.7:50123'') = None"
    "isTrustedPeer (v4Addr [10, 0, 0, 1]) proxyNet" "\<not> isTrustedPeer (v4Addr [192, 0, 2, 1]) proxyNet"
    by code_simp+
  then show ?thesis
    using unparsable_hop_spoof [of "v4Addr [10, 0, 0, 1]" proxyNet "[''X-Forwarded-For'' \<mapsto> [''192.0.2.1, 203.0.113.7:50123'']]"
        "''192.0.2.1''" "'' 203.0.113.7:50123''"]
    by simp
qed

subsection \<open>Facts about authorities\<close>

definition plainPort :: "string \<Rightarrow> bool" where
  "plainPort p \<longleftrightarrow> CHR '':'' \<notin> set p \<and> CHR ''['' \<notin> set p \<and> CHR '']'' \<notin> set p"

lemma plainPort_digits: "list_all isDigit p \<Longrightarrow> plainPort p"
  by (auto simp: plainPort_def list_all_iff isDigit_def)

lemma indexOf_append: "c \<notin> set s \<Longrightarrow> indexOf (s @ c # t) c = Some (length s)"
  by (induction s) auto

lemma SplitHostPort_JoinHostPort:
  assumes "CHR ''['' \<notin> set host" and "CHR '']'' \<notin> set host" and "plainPort port"
  shows "SplitHostPort (JoinHostPort host port) = Some (host, port)"
proof (cases "CHR '':'' \<in> set host")
  case True
  have "LastIndexByte ((CHR ''['' # host @ '']'') @ CHR '':'' # port) CHR '':'' = int (length host + 2)"
    using LastIndexByte_append [of "CHR '':''" port "CHR ''['' # host @ '']''"] assms(3) by (simp add: plainPort_def)
  moreover have "indexOf ((CHR ''['' # host) @ CHR '']'' # CHR '':'' # port) CHR '']'' = Some (length (CHR ''['' # host))"
    using assms(2) by (intro indexOf_append) auto
  ultimately show ?thesis using True assms
    by (simp add: SplitHostPort_def JoinHostPort_def plainPort_def slice_def nat_add_distrib)
next
  case False
  have "LastIndexByte (host @ CHR '':'' # port) CHR '':'' = int (length host)"
    using LastIndexByte_append [of "CHR '':''" port host] assms(3) by (simp add: plainPort_def)
  moreover have "hd (host @ CHR '':'' # port) \<noteq> CHR ''[''" using assms(1) by (cases host) auto
  ultimately show ?thesis using False assms by (simp add: SplitHostPort_def JoinHostPort_def plainPort_def)
qed

lemma digitsValue_zeros: "digitsValue (replicate k CHR ''0'' @ s) = digitsValue s"
  by (induction k) (simp_all add: digitsValue_def)

lemma Atoi_digits: "p \<noteq> [] \<Longrightarrow> list_all isDigit p \<Longrightarrow> digitsValue p < 2 ^ 63 \<Longrightarrow> Atoi p = Some (digitsValue p)"
proof -
  assume "p \<noteq> []" and digits: "list_all isDigit p" and small: "digitsValue p < 2 ^ 63"
  then have "hd p \<noteq> CHR ''-''" "hd p \<noteq> CHR ''+''" by (auto simp: neq_Nil_conv isDigit_def)
  with \<open>p \<noteq> []\<close> digits small show ?thesis by (simp add: Atoi_def ParseInt_def)
qed

lemma normalizeAuthority_port:
  assumes "plainPort host" and "host \<noteq> []" and "\<forall>c \<in> set host. graphic c" and "canonicalHost G idna host = Inr ph"
    and "list_all isDigit p" and "p \<noteq> []" and "1 \<le> digitsValue p" and "digitsValue p \<le> 65535"
  shows "normalizeAuthority G idna (host @ '':'' @ p) dp = Inr (ph, p, host @ '':'' @ p)"
proof -
  have join: "JoinHostPort host p = host @ '':'' @ p" using assms(1) by (simp add: JoinHostPort_def plainPort_def)
  have "SplitHostPort (host @ '':'' @ p) = Some (host, p)"
    using SplitHostPort_JoinHostPort [of host p] assms(1) plainPort_digits [OF assms(5)] by (simp add: join plainPort_def)
  moreover have "TrimSpace (host @ '':'' @ p) = host @ '':'' @ p"
    using assms(3,5) by (intro TrimSpace_graphic)
      (auto simp: list_all_iff isDigit_graphic, simp add: graphic_def ascii_def isSpaceRune_def)
  moreover have "Atoi p = Some (digitsValue p)" using assms(8) by (intro Atoi_digits assms) simp
  ultimately show ?thesis using assms(2,4,7,8) by (simp add: normalizeAuthority_def join)
qed

subsection \<open>Facts about resolving\<close>

definition resolved :: "resolver \<Rightarrow> string \<Rightarrow> (netError, Addr list) res" where
  "resolved LookupIP host = (case ParseAddr host of Some addr \<Rightarrow> Inr [addr] | None \<Rightarrow> LookupIP host)"

definition egressAllows :: "golib \<Rightarrow> RuleSet \<Rightarrow> int \<Rightarrow> string \<Rightarrow> Addr \<Rightarrow> bool" where
  "egressAllows G rs n proto addr =
     (case find (egress_match G addr (word_of_int n) proto) (rs_egress rs) of Some e \<Rightarrow> ce_allow e | None \<Rightarrow> False)"

lemma egressAllows_iff: "fst (LookupEgress G rs addr (word_of_int n) proto) = egressAllows G rs n proto addr"
  by (simp add: LookupEgress_def lookupEgressList_def egressAllows_def split: option.splits)

lemma find_refused: "find (\<lambda>b. \<not> P b) addrs = Some a \<Longrightarrow> \<not> list_all P addrs"
  by (induction addrs) (auto split: if_splits)

lemma resolveAndPin_Inr:
  "resolveAndPin G rs LookupIP host port proto = Inr dst \<longleftrightarrow>
     (\<exists>n a as. ParseUint port 16 = Some n \<and> resolved LookupIP host = Inr (a # as) \<and>
        list_all (egressAllows G rs n proto) (a # as) \<and> dst = JoinHostPort (Addr_String a) port)"
  unfolding resolveAndPin_def resolved_def egressAllows_iff
  by (auto simp: find_None_iff split: option.splits sum.splits list.splits dest: find_refused)
    (auto simp: list_all_iff)

lemma resolveAndPin_EgressDenied:
  "resolveAndPin G rs LookupIP host port proto = Inl (EgressDenied a) \<longleftrightarrow>
     (\<exists>n addrs. ParseUint port 16 = Some n \<and> resolved LookupIP host = Inr addrs \<and>
        find (\<lambda>b. \<not> egressAllows G rs n proto b) addrs = Some a)"
  unfolding resolveAndPin_def resolved_def egressAllows_iff
  by (auto split: option.splits sum.splits list.splits)


subsection \<open>Facts about retries\<close>

text \<open>The attempts made on a world that counts them, and their outcomes.\<close>

fun outcomes :: "nat \<Rightarrow> ('w \<Rightarrow> ('e, 'a) res \<times> 'w) \<Rightarrow> 'w \<Rightarrow> (('e, 'a) res \<times> 'w) list" where
  "outcomes 0 attempt w = []"
| "outcomes (Suc n) attempt w = attempt w # outcomes n attempt (snd (attempt w))"

lemma outcomes_length [simp]: "length (outcomes n attempt w) = n"
  by (induction n arbitrary: w) auto

lemma retryLoop_Inr:
  "retryLoop n attempt e0 w = (Inr v, w') \<longleftrightarrow>
     (\<exists>i < n. outcomes n attempt w ! i = (Inr v, w') \<and> (\<forall>j < i. isl (fst (outcomes n attempt w ! j))))"
proof (induction n arbitrary: e0 w)
  case (Suc n)
  obtain r w1 where r: "attempt w = (r, w1)" by (cases "attempt w") auto
  show ?case
  proof (cases r)
    case (Inl e)
    have "retryLoop (Suc n) attempt e0 w = retryLoop n attempt (LastError e) w1" using r Inl by simp
    moreover have "(\<forall>j < Suc i. isl (fst (outcomes (Suc n) attempt w ! j))) \<longleftrightarrow> (\<forall>j < i. isl (fst (outcomes n attempt w1 ! j)))" for i
      using r Inl by (auto simp: less_Suc_eq_0_disj)
    ultimately show ?thesis using Suc.IH [of "LastError e" w1] r Inl by (auto simp: Ex_less_Suc2)
  next
    case (Inr v1)
    then show ?thesis using r by (auto simp: less_Suc_eq_0_disj)
  qed
qed simp

text \<open>
  \<open>withRetries\<close> makes at most the configured number of attempts and stops at the first success: it returns a value
  iff one of the first \<open>tries\<close> attempts, each run on the world the one before left, succeeds after only failures, and
  the value and the world are that attempt's. A count that is not positive never runs the attempt and is an error.
\<close>

theorem retries_first_success:
  "(fst (withRetries tries attempt w) = Inr v \<longleftrightarrow>
     (\<exists>i < nat tries. fst (outcomes (nat tries) attempt w ! i) = Inr v \<and>
        (\<forall>j < i. isl (fst (outcomes (nat tries) attempt w ! j))))) \<and>
   (tries \<le> 0 \<longrightarrow> withRetries tries attempt w = (Inl TriesNotPositive, w))"
proof -
  have "fst (withRetries tries attempt w) = Inr v \<longleftrightarrow> (\<exists>w'. retryLoop (nat tries) attempt TriesNotPositive w = (Inr v, w'))"
    by (cases "withRetries tries attempt w") (auto simp: withRetries_def split: if_splits)
  also have "\<dots> \<longleftrightarrow> (\<exists>i < nat tries. fst (outcomes (nat tries) attempt w ! i) = Inr v \<and>
        (\<forall>j < i. isl (fst (outcomes (nat tries) attempt w ! j))))"
    unfolding retryLoop_Inr by (auto simp: prod_eq_iff) 
  finally show ?thesis by (simp add: withRetries_def)
qed

definition thirdTime :: "nat \<Rightarrow> (string, nat) res \<times> nat" where
  "thirdTime w = (if w < 2 then (Inl ''refused'', w + 1) else (Inr w, w + 1))"

theorem retries_first_success_witness:
  "fst (withRetries 5 thirdTime 0) = Inr 2 \<and> withRetries (- 1) thirdTime 7 = (Inl TriesNotPositive, 7)"
proof -
  have "outcomes 5 thirdTime 0 = [(Inl ''refused'', 1), (Inl ''refused'', 2), (Inr 2, 3), (Inr 3, 4), (Inr 4, 5)]"
    by code_simp
  then have "\<exists>i < nat 5. fst (outcomes (nat 5) thirdTime 0 ! i) = Inr 2 \<and> (\<forall>j < i. isl (fst (outcomes (nat 5) thirdTime 0 ! j)))"
    by (intro exI [of _ 2]) (auto simp: less_Suc_eq numeral_2_eq_2)
  then show ?thesis
    using retries_first_success [of 5 thirdTime 0 2] retries_first_success [of "- 1" thirdTime 7 0] by simp
qed

end
