(* ===== verification/Outcall.thy ===== *)
theory Outcall
  imports RuleSet
begin

text \<open>
  The broker client of \<open>src/internal/outcall\<close>: the envelope, the freshness rules of
  \<open>cachecontrol.go\<close> with durations as 64-bit signed nanoseconds, and the service with its
  response cache and its cap on concurrent calls. Times are unbounded integers (nanoseconds). What the network
  answers, \<open>http.ParseTime\<close> and the decoding of a reply are parameters. The background
  revalidation of a stale entry is a task the caller is handed.
\<close>

subsection \<open>Envelope\<close>

record Target =
  tg_Socket :: string
  tg_Path :: string
  tg_URL :: string

definition target_key :: "Target \<Rightarrow> string" where
  "target_key t = (if tg_Socket t \<noteq> [] then ''unix:'' @ tg_Socket t else ''url:'' @ tg_URL t)"

definition requestURL :: "Target \<Rightarrow> string \<times> string" where
  "requestURL t =
     (if tg_Socket t \<noteq> [] then (''http://mitmania.local'' @ tg_Path t, ''mitmania.local'') else (tg_URL t, []))"

record HTTPRequest =
  hq_Method :: string
  hq_URL :: string
  hq_Headers :: header

record Credential =
  cr_Scheme :: string
  cr_Value :: string

record Request =
  rq_Version :: int
  rq_Action :: string
  rq_UUID :: string
  rq_Client :: string
  rq_Proto :: string
  rq_Dst :: string
  rq_HTTP :: "HTTPRequest option"
  rq_Credential :: "Credential option"

record HeaderValue =
  hv_Delete :: bool
  hv_Values :: "string list"

record Response =
  rp_HTTP :: "(string \<times> HeaderValue) list option"
  rp_Message :: string
  rp_HTTPStatus :: int
  rp_Principal :: string

definition emptyResponse :: Response where
  "emptyResponse = \<lparr>rp_HTTP = None, rp_Message = [], rp_HTTPStatus = 0, rp_Principal = []\<rparr>"

subsection \<open>Freshness\<close>

text \<open>The value of a signed 64-bit result, and \<open>time.Duration(n) * time.Second\<close>.\<close>

definition wrap64 :: "int \<Rightarrow> int" where
  "wrap64 x = (x + 9223372036854775808) mod 18446744073709551616 - 9223372036854775808"

definition seconds :: "int \<Rightarrow> int" where
  "seconds n = wrap64 (n * 1000000000)"

text \<open>\<open>Time.Sub\<close> saturates.\<close>

definition time_Sub :: "int \<Rightarrow> int \<Rightarrow> int" where
  "time_Sub t u = max (- 9223372036854775808) (min 9223372036854775807 (t - u))"

record cacheControl =
  ct_noStore :: bool
  ct_mustRevalidate :: bool
  ct_hasMaxAge :: bool
  ct_maxAge :: int
  ct_staleWhileRevalidate :: int
  ct_staleIfError :: int

definition noCacheControl :: cacheControl where
  "noCacheControl = \<lparr>ct_noStore = False, ct_mustRevalidate = False, ct_hasMaxAge = False, ct_maxAge = 0,
     ct_staleWhileRevalidate = 0, ct_staleIfError = 0\<rparr>"

definition trimQuotes :: "string \<Rightarrow> string" where
  "trimQuotes s = (let q = (\<lambda>c. c = CHR 0x22) in rev (dropWhile q (rev (dropWhile q s))))"

definition directive :: "golib \<Rightarrow> string \<Rightarrow> cacheControl \<Rightarrow> cacheControl" where
  "directive G dir0 cc =
     (let dir = TrimSpace dir0 in
      if dir = [] then cc
      else
        let (name0, arg0) = (case Cut dir CHR ''='' of Some (a, b) \<Rightarrow> (a, b) | None \<Rightarrow> (dir, []));
            name = ToLower G (TrimSpace name0); arg = trimQuotes (TrimSpace arg0) in
        if name = ''no-store'' then cc\<lparr>ct_noStore := True\<rparr>
        else if name = ''must-revalidate'' then cc\<lparr>ct_mustRevalidate := True\<rparr>
        else if name = ''max-age'' then
          (case Atoi arg of Some n \<Rightarrow> cc\<lparr>ct_hasMaxAge := True, ct_maxAge := seconds n\<rparr> | None \<Rightarrow> cc)
        else if name = ''stale-while-revalidate'' then
          (case Atoi arg of Some n \<Rightarrow> cc\<lparr>ct_staleWhileRevalidate := seconds n\<rparr> | None \<Rightarrow> cc)
        else if name = ''stale-if-error'' then
          (case Atoi arg of Some n \<Rightarrow> cc\<lparr>ct_staleIfError := seconds n\<rparr> | None \<Rightarrow> cc)
        else cc)"

definition parseCacheControl :: "golib \<Rightarrow> string \<Rightarrow> cacheControl" where
  "parseCacheControl G s = fold (directive G) (Split s CHR '','') noCacheControl"

record freshness =
  fr_cacheable :: bool
  fr_freshFor :: int
  fr_mustRevalidate :: bool
  fr_staleWhileRevalidate :: int
  fr_staleIfError :: int

definition parseFreshness :: "golib \<Rightarrow> (string \<Rightarrow> int option) \<Rightarrow> header \<Rightarrow> int \<Rightarrow> freshness" where
  "parseFreshness G parseTime h now =
     (let cc = parseCacheControl G (headerGet h ''Cache-Control'') in
      if ct_noStore cc then \<lparr>fr_cacheable = False, fr_freshFor = 0, fr_mustRevalidate = False, fr_staleWhileRevalidate = 0, fr_staleIfError = 0\<rparr>
      else
        let f = \<lparr>fr_cacheable = False, fr_freshFor = 0, fr_mustRevalidate = ct_mustRevalidate cc,
                 fr_staleWhileRevalidate = ct_staleWhileRevalidate cc, fr_staleIfError = ct_staleIfError cc\<rparr> in
        if ct_hasMaxAge cc then f\<lparr>fr_cacheable := True, fr_freshFor := ct_maxAge cc\<rparr>
        else if headerGet h ''Expires'' \<noteq> [] then
          (case parseTime (headerGet h ''Expires'') of
             Some t \<Rightarrow> (let d = time_Sub t now in f\<lparr>fr_cacheable := True, fr_freshFor := (if 0 < d then d else 0)\<rparr>)
           | None \<Rightarrow> f)
        else f)"

subsection \<open>The service\<close>

datatype outcallError =
    DeniedError string int
  | OverCapacity
  | BrokerFailed string

type_synonym result = "(outcallError, Response) res"

record cacheEntry =
  ce_resp :: Response
  ce_denied :: bool
  ce_status :: int
  ce_etag :: string
  ce_freshUntil :: int
  ce_swrUntil :: int
  ce_sieUntil :: int
  ce_mustRevalidate :: bool

definition entry_fresh :: "cacheEntry \<Rightarrow> int \<Rightarrow> bool" where
  "entry_fresh e now \<longleftrightarrow> now < ce_freshUntil e"

definition withinSWR :: "cacheEntry \<Rightarrow> int \<Rightarrow> bool" where
  "withinSWR e now \<longleftrightarrow> now < ce_swrUntil e"

definition withinSIE :: "cacheEntry \<Rightarrow> int \<Rightarrow> bool" where
  "withinSIE e now \<longleftrightarrow> now < ce_sieUntil e"

definition entry_result :: "cacheEntry \<Rightarrow> result" where
  "entry_result e =
     (if ce_denied e then Inl (DeniedError (rp_Message (ce_resp e)) (ce_status e)) else Inr (ce_resp e))"

text \<open>What the network gives for one request: nothing, or a status, headers and a body that may break off.\<close>

record httpReply =
  hr_StatusCode :: int
  hr_Header :: header
  hr_Body :: "string option"

record outcallLib =
  ol_ParseTime :: "string \<Rightarrow> int option"
  ol_Unmarshal :: "string \<Rightarrow> Response option"

record Service =
  sv_maxInflight :: nat
  sv_inflight :: nat
  sv_cache :: "string \<rightharpoonup> cacheEntry"

definition NewService :: "nat \<Rightarrow> Service" where
  "NewService maxInflight = \<lparr>sv_maxInflight = maxInflight, sv_inflight = 0, sv_cache = (\<lambda>_. None)\<rparr>"

definition maxResponseBytes :: nat where "maxResponseBytes = 65536"

definition service_store ::
    "golib \<Rightarrow> outcallLib \<Rightarrow> string \<Rightarrow> Response \<Rightarrow> bool \<Rightarrow> int \<Rightarrow> header \<Rightarrow> int \<Rightarrow> Service \<Rightarrow> Service" where
  "service_store G L cacheKey resp denied status h now s =
     (let fr = parseFreshness G (ol_ParseTime L) h now in
      if \<not> fr_cacheable fr then s\<lparr>sv_cache := (sv_cache s)(cacheKey := None)\<rparr>
      else s\<lparr>sv_cache := (sv_cache s)(cacheKey \<mapsto>
        \<lparr>ce_resp = resp, ce_denied = denied, ce_status = status, ce_etag = headerGet h ''ETag'',
         ce_freshUntil = now + fr_freshFor fr,
         ce_swrUntil = now + wrap64 (fr_freshFor fr + fr_staleWhileRevalidate fr),
         ce_sieUntil = now + wrap64 (fr_freshFor fr + fr_staleIfError fr),
         ce_mustRevalidate = fr_mustRevalidate fr\<rparr>)\<rparr>)"

definition service_refresh ::
    "golib \<Rightarrow> outcallLib \<Rightarrow> string \<Rightarrow> cacheEntry \<Rightarrow> header \<Rightarrow> int \<Rightarrow> Service \<Rightarrow> Service" where
  "service_refresh G L cacheKey prior h now s =
     (let fr = parseFreshness G (ol_ParseTime L) h now in
      if \<not> fr_cacheable fr then s\<lparr>sv_cache := (sv_cache s)(cacheKey := None)\<rparr>
      else s\<lparr>sv_cache := (sv_cache s)(cacheKey \<mapsto>
        prior\<lparr>ce_freshUntil := now + fr_freshFor fr,
              ce_swrUntil := now + wrap64 (fr_freshFor fr + fr_staleWhileRevalidate fr),
              ce_sieUntil := now + wrap64 (fr_freshFor fr + fr_staleIfError fr),
              ce_mustRevalidate := fr_mustRevalidate fr,
              ce_etag := (if headerGet h ''ETag'' \<noteq> [] then headerGet h ''ETag'' else ce_etag prior)\<rparr>)\<rparr>)"

text \<open>The reading of a reply's body: the envelope, or why there is none.\<close>

definition readEnvelope :: "outcallLib \<Rightarrow> httpReply \<Rightarrow> (outcallError, Response) res" where
  "readEnvelope L r =
     (case hr_Body r of
        None \<Rightarrow> Inl (BrokerFailed ''read response'')
      | Some data \<Rightarrow>
          if maxResponseBytes < length data then Inl (BrokerFailed ''response body exceeds the limit'')
          else if data = [] then Inr emptyResponse
          else
            let ct = headerGet (hr_Header r) ''Content-Type'' in
            if ct \<noteq> [] \<and> \<not> HasPrefix ct ''application/json'' then Inl (BrokerFailed ''unexpected response content-type'')
            else (case ol_Unmarshal L data of
              None \<Rightarrow> Inl (BrokerFailed ''unparseable response body'')
            | Some resp \<Rightarrow> Inr resp))"

text \<open>The end of a broker call, once the network has answered: the cache is updated and the slot is given back.\<close>

definition finishHTTP ::
    "golib \<Rightarrow> outcallLib \<Rightarrow> string \<Rightarrow> cacheEntry option \<Rightarrow> httpReply option \<Rightarrow> int \<Rightarrow> Service \<Rightarrow> result \<times> Service" where
  "finishHTTP G L cacheKey prior reply now s =
     (let release = (\<lambda>s. s\<lparr>sv_inflight := sv_inflight s - 1\<rparr>) in
      case reply of
        None \<Rightarrow> (Inl (BrokerFailed ''call''), release s)
      | Some r \<Rightarrow>
          (case (if hr_StatusCode r = 304 then prior else None) of
             Some p \<Rightarrow> (entry_result p, release (service_refresh G L cacheKey p (hr_Header r) now s))
           | None \<Rightarrow>
               (case readEnvelope L r of
                  Inl e \<Rightarrow> (Inl e, release s)
                | Inr resp \<Rightarrow>
                    (let denied = (hr_StatusCode r < 200 \<or> 300 \<le> hr_StatusCode r);
                         s' = service_store G L cacheKey resp denied (hr_StatusCode r) (hr_Header r) now s in
                     (if denied then Inl (DeniedError (rp_Message resp) (rp_HTTPStatus resp)) else Inr resp, release s')))))"

definition doHTTP ::
    "golib \<Rightarrow> outcallLib \<Rightarrow> (Target \<Rightarrow> Request \<Rightarrow> string option \<Rightarrow> httpReply option) \<Rightarrow>
     string \<Rightarrow> Target \<Rightarrow> Request \<Rightarrow> cacheEntry option \<Rightarrow> int \<Rightarrow> Service \<Rightarrow> result \<times> Service" where
  "doHTTP G L net cacheKey target req prior now s =
     (if sv_maxInflight s \<le> sv_inflight s then (Inl OverCapacity, s)
      else
        let etag = (case prior of Some p \<Rightarrow> if ce_etag p \<noteq> [] then Some (ce_etag p) else None | None \<Rightarrow> None) in
        finishHTTP G L cacheKey prior (net target req etag) now (s\<lparr>sv_inflight := sv_inflight s + 1\<rparr>))"

definition isDenied :: "outcallError \<Rightarrow> bool" where
  "isDenied e = (case e of DeniedError _ _ \<Rightarrow> True | _ \<Rightarrow> False)"

text \<open>
  One call of \<open>Do\<close> with no other call in between: the result, the entry to revalidate in
  the background if any, and the state after the foreground work. \<open>now\<close> is the time
  at its start, \<open>later\<close> the time the reply is handled.
\<close>

definition Do ::
    "golib \<Rightarrow> outcallLib \<Rightarrow> (Target \<Rightarrow> Request \<Rightarrow> string option \<Rightarrow> httpReply option) \<Rightarrow>
     string \<Rightarrow> Target \<Rightarrow> Request \<Rightarrow> int \<Rightarrow> int \<Rightarrow> Service \<Rightarrow> result \<times> cacheEntry option \<times> Service" where
  "Do G L net cacheKey target req now later s =
     (let miss = (\<lambda>entry.
        let (r, s') = doHTTP G L net cacheKey target req entry later s in
        case r of
          Inr resp \<Rightarrow> (Inr resp, None, s')
        | Inl err \<Rightarrow>
            (case (if isDenied err then None else entry) of
               Some e \<Rightarrow> if withinSIE e now then (entry_result e, None, s') else (Inl err, None, s')
             | None \<Rightarrow> (Inl err, None, s'))) in
      case sv_cache s cacheKey of
        None \<Rightarrow> miss None
      | Some entry \<Rightarrow>
          if entry_fresh entry now then (entry_result entry, None, s)
          else if \<not> ce_mustRevalidate entry \<and> withinSWR entry now then (entry_result entry, Some entry, s)
          else miss (Some entry))"

subsection \<open>Concurrent calls\<close>

text \<open>
  The calls in flight: \<open>singleflight\<close> lets the callers of one key share one broker call,
  and a call holds a slot from its start until its reply has been handled.
\<close>

record flights =
  fl_service :: Service
  fl_keys :: "string list"

inductive outcall_step :: "golib \<Rightarrow> outcallLib \<Rightarrow> flights \<Rightarrow> flights \<Rightarrow> bool" for G L where
  join: "key \<in> set (fl_keys f) \<Longrightarrow> outcall_step G L f f"
| reject: "key \<notin> set (fl_keys f) \<Longrightarrow> sv_maxInflight (fl_service f) \<le> sv_inflight (fl_service f) \<Longrightarrow> outcall_step G L f f"
| start: "key \<notin> set (fl_keys f) \<Longrightarrow> sv_inflight (fl_service f) < sv_maxInflight (fl_service f) \<Longrightarrow>
    outcall_step G L f \<lparr>fl_service = (fl_service f)\<lparr>sv_inflight := sv_inflight (fl_service f) + 1\<rparr>, fl_keys = key # fl_keys f\<rparr>"
| finish: "key \<in> set (fl_keys f) \<Longrightarrow> finishHTTP G L key prior reply now (fl_service f) = (r, s') \<Longrightarrow>
    outcall_step G L f \<lparr>fl_service = s', fl_keys = remove1 key (fl_keys f)\<rparr>"

lemma finishHTTP_slots:
  "finishHTTP G L key prior reply now s = (r, s') \<Longrightarrow>
    sv_inflight s' = sv_inflight s - 1 \<and> sv_maxInflight s' = sv_maxInflight s"
  by (auto simp: finishHTTP_def service_refresh_def service_store_def Let_def split: option.splits sum.splits if_splits)

lemma doHTTP_slots:
  "doHTTP G L net key target req prior now s = (r, s') \<Longrightarrow>
    sv_inflight s' = sv_inflight s \<and> sv_maxInflight s' = sv_maxInflight s"
  by (auto simp: doHTTP_def Let_def split: if_splits dest!: finishHTTP_slots)

text \<open>
  C31. The cap on concurrent broker calls holds in every interleaving: from a new service on, the slots taken are
  exactly the calls in flight, at most one per cache key and never more than the configured maximum.
\<close>

theorem outcall_capacity:
  assumes "(outcall_step G L)\<^sup>*\<^sup>* \<lparr>fl_service = NewService n, fl_keys = []\<rparr> f"
  shows "sv_inflight (fl_service f) = length (fl_keys f) \<and> distinct (fl_keys f) \<and> length (fl_keys f) \<le> n \<and>
    sv_maxInflight (fl_service f) = n"
  using assms
proof (induction rule: rtranclp_induct)
  case base
  then show ?case by (simp add: NewService_def)
next
  case (step f f')
  from step(2) show ?case
  proof cases
    case (finish key prior reply now r s')
    with step(3) finishHTTP_slots [OF finish(3)] show ?thesis by (auto simp: length_remove1 dest: length_pos_if_in_set)
  qed (use step(3) in auto)
qed

theorem outcall_capacity_witness:
  "\<exists>f. (outcall_step plainLib \<lparr>ol_ParseTime = (\<lambda>_. None), ol_Unmarshal = (\<lambda>_. None)\<rparr>)\<^sup>*\<^sup>* \<lparr>fl_service = NewService 1, fl_keys = []\<rparr> f \<and>
     fl_keys f = [''k''] \<and> sv_inflight (fl_service f) = 1"
proof -
  let ?L = "\<lparr>ol_ParseTime = (\<lambda>_. None), ol_Unmarshal = (\<lambda>_. None)\<rparr>" and ?f = "\<lparr>fl_service = NewService 1, fl_keys = []\<rparr>"
  let ?f' = "\<lparr>fl_service = (fl_service ?f)\<lparr>sv_inflight := sv_inflight (fl_service ?f) + 1\<rparr>, fl_keys = ''k'' # fl_keys ?f\<rparr>"
  have "outcall_step plainLib ?L ?f ?f'" by (rule outcall_step.start) (simp_all add: NewService_def)
  then have run: "(outcall_step plainLib ?L)\<^sup>*\<^sup>* ?f ?f'" by blast
  from outcall_capacity [OF run] run show ?thesis by (intro exI [of _ ?f']) simp
qed

subsection \<open>What a call may answer\<close>

definition etagOf :: "cacheEntry option \<Rightarrow> string option" where
  "etagOf prior = (case prior of Some p \<Rightarrow> if ce_etag p \<noteq> [] then Some (ce_etag p) else None | None \<Rightarrow> None)"

lemma finishHTTP_cases:
  assumes "finishHTTP G L key prior reply now s = (r, s')"
  obtains (silent) "reply = None" "r = Inl (BrokerFailed ''call'')"
  | (revalidated) h p where "reply = Some h" "hr_StatusCode h = 304" "prior = Some p" "r = entry_result p"
  | (incoherent) h e where "reply = Some h" "readEnvelope L h = Inl e" "r = Inl e"
  | (allowed) h resp where "reply = Some h" "readEnvelope L h = Inr resp" "200 \<le> hr_StatusCode h" "hr_StatusCode h < 300" "r = Inr resp"
  | (refused) h resp where "reply = Some h" "readEnvelope L h = Inr resp" "\<not> (200 \<le> hr_StatusCode h \<and> hr_StatusCode h < 300)"
      "r = Inl (DeniedError (rp_Message resp) (rp_HTTPStatus resp))"
proof (cases reply)
  case None
  with assms show thesis by (intro silent) (auto simp: finishHTTP_def)
next
  case (Some h)
  show thesis
  proof (cases "hr_StatusCode h = 304 \<and> prior \<noteq> None")
    case True
    with Some assms show thesis by (auto simp: finishHTTP_def intro: revalidated)
  next
    case False
    then have none: "(if hr_StatusCode h = 304 then prior else None) = None" by auto
    show thesis
    proof (cases "readEnvelope L h")
      case (Inl e)
      show thesis by (rule incoherent [OF Some Inl]) (use Some assms none Inl in \<open>auto simp: finishHTTP_def\<close>)
    next
      case (Inr resp)
      show thesis
      proof (cases "200 \<le> hr_StatusCode h \<and> hr_StatusCode h < 300")
        case True
        then show thesis by (intro allowed [OF Some Inr]) (use Some assms none Inr True in \<open>auto simp: finishHTTP_def Let_def\<close>)
      next
        case False
        show thesis by (rule refused [OF Some Inr False]) (use Some assms none Inr False in \<open>auto simp: finishHTTP_def Let_def\<close>)
      qed
    qed
  qed
qed

lemma readEnvelope_error: "readEnvelope L h = Inl e \<Longrightarrow> \<not> isDenied e"
  by (auto simp: readEnvelope_def isDenied_def Let_def split: option.splits if_splits)

lemma doHTTP_allow:
  assumes "doHTTP G L net key target req prior now s = (Inr resp, s')"
  shows "(\<exists>h. net target req (etagOf prior) = Some h \<and> readEnvelope L h = Inr resp \<and> 200 \<le> hr_StatusCode h \<and> hr_StatusCode h < 300) \<or>
    (\<exists>h p. net target req (etagOf prior) = Some h \<and> hr_StatusCode h = 304 \<and> prior = Some p \<and> \<not> ce_denied p \<and> resp = ce_resp p)"
proof -
  have "finishHTTP G L key prior (net target req (etagOf prior)) now (s\<lparr>sv_inflight := sv_inflight s + 1\<rparr>) = (Inr resp, s')"
    using assms by (auto simp: doHTTP_def etagOf_def Let_def split: if_splits)
  then show ?thesis by (cases rule: finishHTTP_cases) (auto simp: entry_result_def split: if_splits)
qed


definition okReply :: httpReply where
  "okReply = \<lparr>hr_StatusCode = 204, hr_Header = (\<lambda>_. None), hr_Body = Some []\<rparr>"

definition noLib :: outcallLib where
  "noLib = \<lparr>ol_ParseTime = (\<lambda>_. None), ol_Unmarshal = (\<lambda>_. None)\<rparr>"

definition demoTarget :: Target where
  "demoTarget = \<lparr>tg_Socket = ''/run/broker.sock'', tg_Path = ''/'', tg_URL = []\<rparr>"

definition demoRequest :: Request where
  "demoRequest = \<lparr>rq_Version = 1, rq_Action = ''webhook'', rq_UUID = [], rq_Client = ''10.0.0.7'', rq_Proto = ''http'', rq_Dst = ''192.0.2.1:443'',
     rq_HTTP = None, rq_Credential = None\<rparr>"


text \<open>
  C32. A refusal is a decision, not an outage: when the call reaches the broker and the broker answers
  with a readable envelope and a status other than 2xx (and not a 304 to a revalidation), the result is that
  refusal, even if an entry within its stale-if-error window says allow.
\<close>

theorem refusal_is_final:
  assumes "net target req (etagOf (sv_cache s key)) = Some h" and "readEnvelope L h = Inr resp"
    and "\<not> (200 \<le> hr_StatusCode h \<and> hr_StatusCode h < 300)" and "hr_StatusCode h \<noteq> 304"
    and "sv_inflight s < sv_maxInflight s"
    and "\<forall>e. sv_cache s key = Some e \<longrightarrow> \<not> entry_fresh e now \<and> \<not> (\<not> ce_mustRevalidate e \<and> withinSWR e now)"
  shows "fst (Do G L net key target req now later s) = Inl (DeniedError (rp_Message resp) (rp_HTTPStatus resp))"
proof -
  have "fst (doHTTP G L net key target req (sv_cache s key) later s) = Inl (DeniedError (rp_Message resp) (rp_HTTPStatus resp))"
    using assms(1-5) by (auto simp: doHTTP_def finishHTTP_def etagOf_def Let_def split: option.splits)
  then show ?thesis
    using assms(6) by (cases "sv_cache s key") (auto simp: Do_def isDenied_def split: prod.splits)
qed

definition refusal :: httpReply where
  "refusal = \<lparr>hr_StatusCode = 403, hr_Header = (\<lambda>_. None), hr_Body = Some []\<rparr>"

theorem refusal_is_final_witness:
  "fst (Do plainLib noLib (\<lambda>_ _ _. Some refusal) ''k'' demoTarget demoRequest 50 60
     ((NewService 1)\<lparr>sv_cache := [''k'' \<mapsto> \<lparr>ce_resp = emptyResponse, ce_denied = False, ce_status = 200, ce_etag = [], ce_freshUntil = 10,
        ce_swrUntil = 10, ce_sieUntil = 1000, ce_mustRevalidate = False\<rparr>]\<rparr>)) = Inl (DeniedError [] 0)"
  using refusal_is_final [of "\<lambda>_ _ _. Some refusal" demoTarget demoRequest
      "(NewService 1)\<lparr>sv_cache := [''k'' \<mapsto> \<lparr>ce_resp = emptyResponse, ce_denied = False, ce_status = 200, ce_etag = [], ce_freshUntil = 10,
        ce_swrUntil = 10, ce_sieUntil = 1000, ce_mustRevalidate = False\<rparr>]\<rparr>" "''k''" refusal noLib emptyResponse 50 plainLib 60]
  by (simp add: refusal_def readEnvelope_def emptyResponse_def NewService_def entry_fresh_def withinSWR_def)

subsection \<open>Durations\<close>

lemma wrap64_id: "- 9223372036854775808 \<le> x \<Longrightarrow> x < 9223372036854775808 \<Longrightarrow> wrap64 x = x"
  by (simp add: wrap64_def)

lemma wrap64_bounds: "- 9223372036854775808 \<le> wrap64 x \<and> wrap64 x < 9223372036854775808"
  using pos_mod_bound [of 18446744073709551616 "x + 9223372036854775808"] pos_mod_sign [of 18446744073709551616 "x + 9223372036854775808"]
  by (simp add: wrap64_def)

lemma Atoi_showNat: "n < 9223372036854775808 \<Longrightarrow> Atoi (showNat n) = Some (int n)"
proof -
  have d: "showNat n \<noteq> []" "list_all isDigit (showNat n)" "digitsValue (showNat n) = int n" using showNat_digits [of n] by simp_all
  then have "isDigit (hd (showNat n))" by (cases "showNat n") auto
  then have "hd (showNat n) \<noteq> CHR ''-''" "hd (showNat n) \<noteq> CHR ''+''" by (auto simp: isDigit_def)
  with d show "n < 9223372036854775808 \<Longrightarrow> ?thesis" by (simp add: Atoi_def ParseInt_def)
qed

lemma trimQuotes_id: "CHR 0x22 \<notin> set s \<Longrightarrow> trimQuotes s = s"
proof -
  have drop: "CHR 0x22 \<notin> set t \<Longrightarrow> dropWhile (\<lambda>c. c = CHR 0x22) t = t" for t by (cases t) auto
  show "CHR 0x22 \<notin> set s \<Longrightarrow> ?thesis" by (simp add: trimQuotes_def drop)
qed

lemma directive_max_age:
  assumes "n < 9223372036854775808"
  shows "parseCacheControl G (''max-age='' @ showNat n) = noCacheControl\<lparr>ct_hasMaxAge := True, ct_maxAge := seconds (int n)\<rparr>"
proof -
  let ?d = "showNat n"
  have digit: "isDigit c" if "c \<in> set ?d" for c using showNat_digits [of n] that by (simp add: list_all_iff)
  have no: "CHR '','' \<notin> set ?d" "CHR 0x22 \<notin> set ?d" using digit [of "CHR '',''"] digit [of "CHR 0x22"] by (auto simp: isDigit_def)
  have lit: "\<forall>c \<in> set ''max-age=''. graphic c" by code_simp
  have graph: "\<forall>c \<in> set ?d. graphic c" using digit isDigit_graphic by blast
  then have all: "\<forall>c \<in> set (''max-age='' @ ?d). graphic c" using lit by (simp only: set_append ball_Un)
  have name: "TrimSpace ''max-age'' = ''max-age''" "ToLower G ''max-age'' = ''max-age''"
  proof -
    show "TrimSpace ''max-age'' = ''max-age''" by code_simp
    have "\<forall>c \<in> set ''max-age''. ascii c" "map asciiLower ''max-age'' = ''max-age''" by code_simp+
    then show "ToLower G ''max-age'' = ''max-age''" by (simp only: ToLower_ascii)
  qed
  have "Split (''max-age='' @ ?d) CHR '','' = [''max-age='' @ ?d]" using no(1) by (intro Split_no_sep) simp
  moreover have "Cut (''max-age='' @ ?d) CHR ''='' = Some (''max-age'', ?d)" by (simp add: Cut_Some)
  moreover have "trimQuotes ?d = ?d" using no(2) by (rule trimQuotes_id)
  ultimately show ?thesis
    unfolding parseCacheControl_def directive_def
    using TrimSpace_graphic [OF all] TrimSpace_graphic [OF graph] name Atoi_showNat [OF assms] by simp
qed

subsection \<open>Deviations\<close>

text \<open>
  A refusal is not reported the same way twice: the call that receives it reports the status the broker's envelope asks
  for, a call answered from the cache reports the HTTP status of the broker's own reply.
\<close>

theorem cached_refusal_status:
  assumes "sv_cache s key = None" and "sv_inflight s < sv_maxInflight s"
    and "net target req None = Some h" and "readEnvelope L h = Inr resp"
    and "\<not> (200 \<le> hr_StatusCode h \<and> hr_StatusCode h < 300)"
    and "fr_cacheable (parseFreshness G (ol_ParseTime L) (hr_Header h) later)"
    and "now2 < later + fr_freshFor (parseFreshness G (ol_ParseTime L) (hr_Header h) later)"
  shows "fst (Do G L net key target req now later s) = Inl (DeniedError (rp_Message resp) (rp_HTTPStatus resp)) \<and>
    fst (Do G L net2 key target req2 now2 later2 (snd (snd (Do G L net key target req now later s)))) =
      Inl (DeniedError (rp_Message resp) (hr_StatusCode h))"
proof -
  let ?fr = "parseFreshness G (ol_ParseTime L) (hr_Header h) later"
  have "Do G L net key target req now later s = (Inl (DeniedError (rp_Message resp) (rp_HTTPStatus resp)), None, s\<lparr>sv_cache := (sv_cache s)(key \<mapsto>
      \<lparr>ce_resp = resp, ce_denied = True, ce_status = hr_StatusCode h, ce_etag = headerGet (hr_Header h) ''ETag'',
       ce_freshUntil = later + fr_freshFor ?fr, ce_swrUntil = later + wrap64 (fr_freshFor ?fr + fr_staleWhileRevalidate ?fr),
       ce_sieUntil = later + wrap64 (fr_freshFor ?fr + fr_staleIfError ?fr), ce_mustRevalidate = fr_mustRevalidate ?fr\<rparr>)\<rparr>)"
    using assms(1-6)
    by (auto simp: Do_def doHTTP_def finishHTTP_def service_store_def isDenied_def Let_def)
  then show ?thesis using assms(7) by (simp add: Do_def entry_fresh_def entry_result_def)
qed

definition minuteRefusal :: httpReply where
  "minuteRefusal = \<lparr>hr_StatusCode = 403, hr_Header = [''Cache-Control'' \<mapsto> [''max-age=60'']], hr_Body = Some ''x''\<rparr>"

definition quotaLib :: outcallLib where
  "quotaLib = \<lparr>ol_ParseTime = (\<lambda>_. None), ol_Unmarshal = (\<lambda>_. Some (emptyResponse\<lparr>rp_HTTPStatus := 429\<rparr>))\<rparr>"

lemma minute_fresh:
  "parseFreshness G parseTime (hr_Header minuteRefusal) now =
     \<lparr>fr_cacheable = True, fr_freshFor = 60000000000, fr_mustRevalidate = False, fr_staleWhileRevalidate = 0, fr_staleIfError = 0\<rparr>"
proof -
  have canon: "CanonicalMIMEHeaderKey ''Cache-Control'' = ''Cache-Control''" by code_simp
  have "showNat 60 = ''60''" by code_simp
  then have "parseCacheControl G ''max-age=60'' = noCacheControl\<lparr>ct_hasMaxAge := True, ct_maxAge := 60000000000\<rparr>"
    using directive_max_age [of 60 G] by (simp add: seconds_def wrap64_def)
  then show ?thesis
    by (simp add: parseFreshness_def minuteRefusal_def headerGet_def canon noCacheControl_def)
qed

theorem cached_refusal_status_witness:
  "\<exists>s'. fst (Do plainLib quotaLib (\<lambda>_ _ _. Some minuteRefusal) ''k'' demoTarget demoRequest 0 1 (NewService 1)) = Inl (DeniedError [] 429) \<and>
     fst (Do plainLib quotaLib (\<lambda>_ _ _. None) ''k'' demoTarget demoRequest 2 3 s') = Inl (DeniedError [] 403)"
proof -
  have ct: "CanonicalMIMEHeaderKey ''Content-Type'' = ''Content-Type''" by code_simp
  have env: "readEnvelope quotaLib minuteRefusal = Inr (emptyResponse\<lparr>rp_HTTPStatus := 429\<rparr>)"
    by (simp add: readEnvelope_def quotaLib_def minuteRefusal_def maxResponseBytes_def headerGet_def ct)
  have new: "sv_cache (NewService 1) ''k'' = None" "sv_inflight (NewService 1) < sv_maxInflight (NewService 1)" by (simp_all add: NewService_def)
  have code: "\<not> (200 \<le> hr_StatusCode minuteRefusal \<and> hr_StatusCode minuteRefusal < 300)" "hr_StatusCode minuteRefusal = 403"
      "rp_Message (emptyResponse\<lparr>rp_HTTPStatus := 429\<rparr>) = []" "rp_HTTPStatus (emptyResponse\<lparr>rp_HTTPStatus := 429\<rparr>) = 429"
    by (simp_all add: minuteRefusal_def emptyResponse_def)
  have "fst (Do plainLib quotaLib (\<lambda>_ _ _. Some minuteRefusal) ''k'' demoTarget demoRequest 0 1 (NewService 1)) = Inl (DeniedError [] 429) \<and>
    fst (Do plainLib quotaLib (\<lambda>_ _ _. None) ''k'' demoTarget demoRequest 2 3
      (snd (snd (Do plainLib quotaLib (\<lambda>_ _ _. Some minuteRefusal) ''k'' demoTarget demoRequest 0 1 (NewService 1))))) = Inl (DeniedError [] 403)"
    using cached_refusal_status [OF new _ env code(1), of "\<lambda>_ _ _. Some minuteRefusal" demoTarget demoRequest plainLib 1 2 0 "\<lambda>_ _ _. None" demoRequest 3]
      code by (simp add: minute_fresh)
  then show ?thesis by blast
qed

text \<open>
  The stale-if-error window overrides must-revalidate: an entry marked must-revalidate that is within its stale-if-error window is
  served when the broker cannot be reached.
\<close>

theorem must_revalidate_served_stale:
  assumes "sv_cache s key = Some e" and "\<not> entry_fresh e now" and "ce_mustRevalidate e" and "withinSIE e now"
    and "net target req (etagOf (Some e)) = None"
  shows "fst (Do G L net key target req now later s) = entry_result e"
proof -
  have "\<exists>err s'. doHTTP G L net key target req (Some e) later s = (Inl err, s') \<and> \<not> isDenied err"
    using assms(5) by (auto simp: doHTTP_def etagOf_def finishHTTP_def isDenied_def Let_def)
  with assms(1-4) show ?thesis by (auto simp: Do_def)
qed

theorem must_revalidate_served_stale_witness:
  "fst (Do plainLib noLib (\<lambda>_ _ _. None) ''k'' demoTarget demoRequest 50 60
     ((NewService 1)\<lparr>sv_cache := [''k'' \<mapsto> \<lparr>ce_resp = emptyResponse, ce_denied = False, ce_status = 200, ce_etag = [], ce_freshUntil = 10,
        ce_swrUntil = 10, ce_sieUntil = 1000, ce_mustRevalidate = True\<rparr>]\<rparr>)) = Inr emptyResponse"
  using must_revalidate_served_stale [of "(NewService 1)\<lparr>sv_cache := [''k'' \<mapsto> \<lparr>ce_resp = emptyResponse, ce_denied = False, ce_status = 200,
        ce_etag = [], ce_freshUntil = 10, ce_swrUntil = 10, ce_sieUntil = 1000, ce_mustRevalidate = True\<rparr>]\<rparr>" "''k''" _ 50 "\<lambda>_ _ _. None"
      demoTarget demoRequest plainLib noLib 60]
  by (simp add: entry_fresh_def withinSIE_def entry_result_def)

text \<open>
  A lifetime in seconds becomes 64-bit nanoseconds: up to 9223372036 seconds (about 292 years) it is exact, and
  from the next second on (up to twice that) it wraps to a negative duration, so that an entry stored with
  such a max-age is never fresh.
\<close>

theorem max_age_wraps:
  assumes "n < 18446744073"
  shows "ct_maxAge (parseCacheControl G (''max-age='' @ showNat n)) =
    (if n \<le> 9223372036 then int n * 1000000000 else int n * 1000000000 - 18446744073709551616) \<and>
    (ct_maxAge (parseCacheControl G (''max-age='' @ showNat n)) < 0 \<longleftrightarrow> 9223372036 < n)"
proof -
  have "seconds (int n) = (if n \<le> 9223372036 then int n * 1000000000 else int n * 1000000000 - 18446744073709551616)"
  proof (cases "n \<le> 9223372036")
    case True
    then show ?thesis by (simp add: seconds_def wrap64_id)
  next
    case False
    have "(int n * 1000000000 + 9223372036854775808) mod 18446744073709551616 =
        (int n * 1000000000 + 9223372036854775808 - 18446744073709551616) mod 18446744073709551616"
      by (metis minus_mod_self2)
    also have "\<dots> = int n * 1000000000 + 9223372036854775808 - 18446744073709551616"
      using assms False by (intro mod_pos_pos_trivial) auto
    finally show ?thesis using False by (simp add: seconds_def wrap64_def)
  qed
  with directive_max_age [of n G] assms show ?thesis by auto
qed

theorem max_age_wraps_witness:
  "ct_maxAge (parseCacheControl plainLib (''max-age='' @ showNat 9223372037)) < 0"
  using max_age_wraps [of 9223372037 plainLib] by simp

end
