(* ===== verification/Actions.thy ===== *)
theory Actions
  imports Authority Outcall "HOL-Library.Multiset"
begin

text \<open>
  Rule actions and the login gate: \<open>src/internal/rules/actions_http.go\<close> (the interceptors),
  \<open>src/internal/proxy/actions.go\<close> (the pipelines), \<open>outcall.go\<close> (webhook and header.fetch) and \<open>auth.go\<close> (the
  \<open>auth.http_proxy\<close> gate). Requests and responses are the fields of \<open>net/http\<close> these files read or write. A Go map
  is ranged over in an order the language leaves open; the list of its entries fixes one.
\<close>

subsection \<open>Messages\<close>

record httpRequest =
  q_Method :: string
  q_Scheme :: string
  q_URLHost :: string
  q_Path :: string
  q_Target :: string
  q_URLText :: string
  q_Host :: string
  q_Header :: header
  q_Body :: string
  q_Close :: bool

record httpResponse =
  p_StatusCode :: int
  p_Header :: header
  p_Body :: string
  p_ContentLength :: int
  p_TransferEncoding :: "string list"
  p_ProtoMajor :: nat
  p_Close :: bool

definition headerAdd :: "header \<Rightarrow> string \<Rightarrow> string \<Rightarrow> header" where
  "headerAdd h key v = h(CanonicalMIMEHeaderKey key \<mapsto>
     (case h (CanonicalMIMEHeaderKey key) of Some vs \<Rightarrow> vs @ [v] | None \<Rightarrow> [v]))"

definition headerSet :: "header \<Rightarrow> string \<Rightarrow> string \<Rightarrow> header" where
  "headerSet h key v = h(CanonicalMIMEHeaderKey key \<mapsto> [v])"

definition headerDel :: "header \<Rightarrow> string \<Rightarrow> header" where
  "headerDel h key = h(CanonicalMIMEHeaderKey key := None)"

subsection \<open>Interceptors\<close>

record Verdict =
  vd_ShortCircuit :: bool
  vd_Resp :: "Spec option"

definition proceed :: Verdict where
  "proceed = \<lparr>vd_ShortCircuit = False, vd_Resp = None\<rparr>"

definition toString :: "golib \<Rightarrow> jsonv \<Rightarrow> string" where
  "toString G v = (case v of JStr s \<Rightarrow> s | JNull \<Rightarrow> [] | _ \<Rightarrow> fmt_Sprint G v)"

definition addHeaders :: "golib \<Rightarrow> params \<Rightarrow> header \<Rightarrow> header" where
  "addHeaders G p h = fold (\<lambda>(name, v) h. headerAdd h (CanonicalMIMEHeaderKey name) (toString G v)) p h"

definition setHeaders :: "golib \<Rightarrow> params \<Rightarrow> header \<Rightarrow> header" where
  "setHeaders G p h =
     fold (\<lambda>(name, v) h.
       let key = CanonicalMIMEHeaderKey name in
       if v = JNull then headerDel h key else headerSet h key (toString G v)) p h"

definition HeaderAdd :: "golib \<Rightarrow> params \<Rightarrow> httpRequest \<Rightarrow> Verdict \<times> httpRequest" where
  "HeaderAdd G p r = (proceed, r\<lparr>q_Header := addHeaders G p (q_Header r)\<rparr>)"

definition HeaderSet :: "golib \<Rightarrow> params \<Rightarrow> httpRequest \<Rightarrow> Verdict \<times> httpRequest" where
  "HeaderSet G p r = (proceed, r\<lparr>q_Header := setHeaders G p (q_Header r)\<rparr>)"

definition orZero :: "int option \<Rightarrow> int" where
  "orZero n = (case n of Some i \<Rightarrow> i | None \<Rightarrow> 0)"

definition orEmpty :: "string option \<Rightarrow> string" where
  "orEmpty s = (case s of Some t \<Rightarrow> t | None \<Rightarrow> [])"

definition RaiseAction :: "params \<Rightarrow> httpRequest \<Rightarrow> Verdict \<times> httpRequest" where
  "RaiseAction p r =
     (\<lparr>vd_ShortCircuit = True,
       vd_Resp = Some (Raise (orZero (Params_Int p ''http'')) (orEmpty (Params_String p ''body'')))\<rparr>, r)"

definition Block :: "params \<Rightarrow> httpRequest \<Rightarrow> Verdict \<times> httpRequest" where
  "Block p r = (\<lparr>vd_ShortCircuit = True, vd_Resp = None\<rparr>, r)"

record ResponseInterceptor =
  ri_Resp :: httpResponse
  ri_BodyOverride :: "string option"
  ri_StatusOverride :: int

definition resp_HeaderAdd :: "golib \<Rightarrow> params \<Rightarrow> ResponseInterceptor \<Rightarrow> Verdict \<times> ResponseInterceptor" where
  "resp_HeaderAdd G p r =
     (proceed, r\<lparr>ri_Resp := (ri_Resp r)\<lparr>p_Header := addHeaders G p (p_Header (ri_Resp r))\<rparr>\<rparr>)"

definition resp_HeaderSet :: "golib \<Rightarrow> params \<Rightarrow> ResponseInterceptor \<Rightarrow> Verdict \<times> ResponseInterceptor" where
  "resp_HeaderSet G p r =
     (proceed, r\<lparr>ri_Resp := (ri_Resp r)\<lparr>p_Header := setHeaders G p (p_Header (ri_Resp r))\<rparr>\<rparr>)"

definition BodyReplace :: "params \<Rightarrow> ResponseInterceptor \<Rightarrow> Verdict \<times> ResponseInterceptor" where
  "BodyReplace p r = (proceed, r\<lparr>ri_BodyOverride := Some (orEmpty (Params_String p ''body''))\<rparr>)"

definition StatusSet :: "params \<Rightarrow> ResponseInterceptor \<Rightarrow> Verdict \<times> ResponseInterceptor" where
  "StatusSet p r =
     (proceed,
      case Params_Int p ''status'' of
        Some status \<Rightarrow> if status \<noteq> 0 then r\<lparr>ri_StatusOverride := status\<rparr> else r
      | None \<Rightarrow> r)"

subsection \<open>Outcalls\<close>

definition alwaysMaskedHeaders :: "string list" where
  "alwaysMaskedHeaders = [''Authorization'', ''Proxy-Authorization'', ''Cookie'']"

definition OutcallDenylist :: "string list" where
  "OutcallDenylist = [''Host'', ''Content-Length'', ''Transfer-Encoding'', ''Connection'', ''Upgrade'', ''Te'']"

record outcallContext =
  oc_UUID :: string
  oc_Client :: string
  oc_Dst :: string
  oc_Method :: string
  oc_ReqURL :: string
  oc_Headers :: header

definition newOutcallContext :: "string \<Rightarrow> string \<Rightarrow> string \<Rightarrow> string \<Rightarrow> string \<Rightarrow> header \<Rightarrow> outcallContext" where
  "newOutcallContext uuid client dst meth reqURL headers =
     \<lparr>oc_UUID = uuid, oc_Client = client, oc_Dst = dst, oc_Method = meth, oc_ReqURL = reqURL, oc_Headers = headers\<rparr>"

text \<open>
  What a broker call depends on: the broker and the clock, at each step. The state is the service, if one is
  configured, the step, and the envelopes handed to it so far.
\<close>

record outcallEnv =
  oe_L :: outcallLib
  oe_net :: "nat \<Rightarrow> Target \<Rightarrow> Request \<Rightarrow> string option \<Rightarrow> httpReply option"
  oe_now :: "nat \<Rightarrow> int"

record outcallState =
  os_service :: "Service option"
  os_step :: nat
  os_sent :: "Request list"

definition callService ::
    "golib \<Rightarrow> outcallEnv \<Rightarrow> string \<Rightarrow> Target \<Rightarrow> Request \<Rightarrow> Service \<Rightarrow> outcallState \<Rightarrow> result \<times> outcallState" where
  "callService G E cacheKey target req sv st =
     (let t = os_step st;
          (r, bg, sv') = Do G (oe_L E) (oe_net E t) cacheKey target req (oe_now E t) (oe_now E (t + 1)) sv in
      (r, \<lparr>os_service = Some sv', os_step = t + 2, os_sent = os_sent st @ [req]\<rparr>))"

definition filterHeaders :: "header \<Rightarrow> string list \<Rightarrow> header" where
  "filterHeaders h allow =
     fold (\<lambda>name out.
       let canon = CanonicalMIMEHeaderKey name in
       if canon \<in> set alwaysMaskedHeaders then out
       else case h canon of Some v \<Rightarrow> out(canon \<mapsto> v) | None \<Rightarrow> out) allow (\<lambda>_. None)"

definition outcallVersion :: int where "outcallVersion = 1"

definition doOutcall ::
    "golib \<Rightarrow> outcallEnv \<Rightarrow> outcallContext \<Rightarrow> CompiledOutcall \<Rightarrow> string \<Rightarrow> outcallState \<Rightarrow> result \<times> outcallState" where
  "doOutcall G E oc co action st =
     (case os_service st of
        None \<Rightarrow> (Inl (BrokerFailed ''no OutcallService configured''), st)
      | Some sv \<Rightarrow>
          callService G E (co_CacheKey co) \<lparr>tg_Socket = co_Socket co, tg_Path = co_Path co, tg_URL = co_URL co\<rparr>
            \<lparr>rq_Version = outcallVersion, rq_Action = action, rq_UUID = oc_UUID oc, rq_Client = oc_Client oc,
             rq_Proto = ''http'', rq_Dst = oc_Dst oc,
             rq_HTTP = Some \<lparr>hq_Method = oc_Method oc, hq_URL = oc_ReqURL oc,
                             hq_Headers = filterHeaders (oc_Headers oc) (co_Send co)\<rparr>,
             rq_Credential = None\<rparr> sv st)"

definition outcallFailVerdict :: "CompiledOutcall \<Rightarrow> Verdict" where
  "outcallFailVerdict co =
     (if co_FailOpen co then proceed else \<lparr>vd_ShortCircuit = True, vd_Resp = Some OutcallFail\<rparr>)"

definition outcallDeniedVerdict :: "string \<Rightarrow> int \<Rightarrow> Verdict" where
  "outcallDeniedVerdict message status = \<lparr>vd_ShortCircuit = True, vd_Resp = Some (OutcallDenied status message)\<rparr>"

definition requestVerdictOutcome :: "Spec \<Rightarrow> string" where
  "requestVerdictOutcome spec =
     (if sp_ErrCode spec = ''ERR_OUTCALL_DENIED'' then ''outcall-denied''
      else if sp_ErrCode spec = ''ERR_OUTCALL_FAIL'' then ''outcall-fail''
      else ''raise'')"

definition applyWebhook ::
    "golib \<Rightarrow> outcallEnv \<Rightarrow> outcallContext \<Rightarrow> CompiledOutcall \<Rightarrow> outcallState \<Rightarrow> Verdict \<times> outcallState" where
  "applyWebhook G E oc co st =
     (case doOutcall G E oc co ''webhook'' st of
        (Inr _, st') \<Rightarrow> (proceed, st')
      | (Inl (DeniedError message status), st') \<Rightarrow> (outcallDeniedVerdict message status, st')
      | (Inl _, st') \<Rightarrow> (outcallFailVerdict co, st'))"

definition fetchHeaders :: "(string \<times> HeaderValue) list \<Rightarrow> header \<Rightarrow> header" where
  "fetchHeaders hs h =
     fold (\<lambda>(name, hv) h.
       let canon = CanonicalMIMEHeaderKey name in
       if hv_Delete hv then headerDel h canon else h(canon \<mapsto> hv_Values hv)) hs h"

definition applyHeaderFetch ::
    "golib \<Rightarrow> outcallEnv \<Rightarrow> outcallContext \<Rightarrow> httpRequest \<Rightarrow> CompiledOutcall \<Rightarrow> outcallState \<Rightarrow>
     Verdict \<times> httpRequest \<times> outcallState" where
  "applyHeaderFetch G E oc r co st =
     (case doOutcall G E oc co ''header.fetch'' st of
        (Inl (DeniedError message status), st') \<Rightarrow> (outcallDeniedVerdict message status, r, st')
      | (Inl _, st') \<Rightarrow> (outcallFailVerdict co, r, st')
      | (Inr resp, st') \<Rightarrow>
          (case rp_HTTP resp of
             None \<Rightarrow> (proceed, r, st')
           | Some headers \<Rightarrow>
               if list_ex (\<lambda>(name, _). CanonicalMIMEHeaderKey name \<in> set OutcallDenylist) headers then
                 (outcallFailVerdict co, r, st')
               else (proceed, r\<lparr>q_Header := fetchHeaders headers (q_Header r)\<rparr>, st')))"

subsection \<open>Pipelines\<close>

text \<open>
  An outcall action with no compiled outcall would be a nil dereference; it is the error of the request pipeline.
\<close>

datatype pipelinePanic = NilOutcall

fun applyRequestActions ::
    "golib \<Rightarrow> outcallEnv \<Rightarrow> outcallContext \<Rightarrow> CompiledAction list \<Rightarrow> httpRequest \<Rightarrow> outcallState \<Rightarrow>
     (pipelinePanic, Verdict) res \<times> httpRequest \<times> outcallState" where
  "applyRequestActions G E oc [] r st = (Inr proceed, r, st)"
| "applyRequestActions G E oc (a # as) r st =
     (let run =
        (if ca_Name a = ''header.add'' then (let (v, r') = HeaderAdd G (ca_Params a) r in (Inr v, r', st))
         else if ca_Name a = ''header.set'' then (let (v, r') = HeaderSet G (ca_Params a) r in (Inr v, r', st))
         else if ca_Name a = ''raise'' then (let (v, r') = RaiseAction (ca_Params a) r in (Inr v, r', st))
         else if ca_Name a = ''block'' then (let (v, r') = Block (ca_Params a) r in (Inr v, r', st))
         else if ca_Name a = ''webhook'' then
           (case ca_Outcall a of
              None \<Rightarrow> (Inl NilOutcall, r, st)
            | Some co \<Rightarrow> (let (v, st') = applyWebhook G E oc co st in (Inr v, r, st')))
         else if ca_Name a = ''header.fetch'' then
           (case ca_Outcall a of
              None \<Rightarrow> (Inl NilOutcall, r, st)
            | Some co \<Rightarrow> (let (v, r', st') = applyHeaderFetch G E oc r co st in (Inr v, r', st')))
         else (Inr proceed, r, st)) in
      case run of
        (Inl p, r', st') \<Rightarrow> (Inl p, r', st')
      | (Inr v, r', st') \<Rightarrow> if vd_ShortCircuit v then (Inr v, r', st') else applyRequestActions G E oc as r' st')"

fun applyResponseActions :: "golib \<Rightarrow> CompiledAction list \<Rightarrow> ResponseInterceptor \<Rightarrow> Verdict \<times> ResponseInterceptor" where
  "applyResponseActions G [] ri = (proceed, ri)"
| "applyResponseActions G (a # as) ri =
     (let (v, ri') =
        (if ca_Name a = ''header.add'' then resp_HeaderAdd G (ca_Params a) ri
         else if ca_Name a = ''header.set'' then resp_HeaderSet G (ca_Params a) ri
         else if ca_Name a = ''body.replace'' then BodyReplace (ca_Params a) ri
         else if ca_Name a = ''status.set'' then StatusSet (ca_Params a) ri
         else (proceed, ri)) in
      if vd_ShortCircuit v then (v, ri') else applyResponseActions G as ri')"

subsection \<open>The login gate\<close>

text \<open>The broker scheme: the decision and the principal; a broken broker is a refusal too.\<close>

definition authCacheKey :: "golib \<Rightarrow> AuthBroker \<Rightarrow> string \<Rightarrow> string \<Rightarrow> string \<Rightarrow> string" where
  "authCacheKey G broker uuid scheme val =
     (let targetKey = (if ab_Socket broker \<noteq> [] then ab_Socket broker @ ab_Path broker else ab_URL broker);
          credSum = sha256_Sum256 G (scheme @ '':'' @ val) in
      ''auth:'' @ uuid @ '':'' @ targetKey @ '':'' @ hexEncode (take 8 credSum))"

definition authRequest :: "string \<Rightarrow> string \<Rightarrow> string \<Rightarrow> string \<Rightarrow> Request" where
  "authRequest uuid client scheme val =
     \<lparr>rq_Version = outcallVersion, rq_Action = ''auth'', rq_UUID = uuid, rq_Client = client, rq_Proto = ''http'',
      rq_Dst = [], rq_HTTP = None, rq_Credential = Some \<lparr>cr_Scheme = scheme, cr_Value = val\<rparr>\<rparr>"

definition brokerTarget :: "AuthBroker \<Rightarrow> Target" where
  "brokerTarget broker = \<lparr>tg_Socket = ab_Socket broker, tg_Path = ab_Path broker, tg_URL = ab_URL broker\<rparr>"

definition authenticateBroker ::
    "golib \<Rightarrow> outcallEnv \<Rightarrow> AuthBroker \<Rightarrow> string \<Rightarrow> string \<Rightarrow> string \<Rightarrow> outcallState \<Rightarrow> (bool \<times> string) \<times> outcallState" where
  "authenticateBroker G E broker uuid client proxyAuthorization st =
     (case os_service st of
        None \<Rightarrow> ((False, []), st)
      | Some sv \<Rightarrow>
          (case Cut proxyAuthorization CHR '' '' of
             None \<Rightarrow> ((False, []), st)
           | Some (scheme, val) \<Rightarrow>
               (case callService G E (authCacheKey G broker uuid scheme val) (brokerTarget broker)
                    (authRequest uuid client scheme val) sv st of
                  (Inl _, st') \<Rightarrow> ((False, []), st')
                | (Inr resp, st') \<Rightarrow>
                    if rp_Principal resp = [] then ((False, []), st') else ((True, rp_Principal resp), st'))))"

datatype gateResult = GateOK string | GateRefused Spec string

definition checkAuth ::
    "argon2_IDKey \<Rightarrow> golib \<Rightarrow> outcallEnv \<Rightarrow> Session \<Rightarrow> RuleSet \<Rightarrow> header \<Rightarrow> outcallState \<Rightarrow> gateResult \<times> outcallState" where
  "checkAuth IDKey G E sess rs h st =
     (case rs_auth rs of
        None \<Rightarrow> (GateOK [], st)
      | Some ca \<Rightarrow>
          if \<not> au_Required ca then (GateOK [], st)
          else if se_Transport sess \<noteq> TransportExplicit then (GateRefused ForwardingDenied ''forwarding-denied'', st)
          else
            let credential = headerGet h ''Proxy-Authorization'';
                ((authOK, who), st') =
                  (case Authenticate IDKey G ca credential of
                     (True, who) \<Rightarrow> ((True, who), st)
                   | (False, who) \<Rightarrow>
                       (case au_Broker ca of
                          None \<Rightarrow> ((False, who), st)
                        | Some broker \<Rightarrow>
                            authenticateBroker G E broker (rs_uuid rs) (Addr_String (ClientKey sess)) credential st)) in
            if \<not> authOK then
              (GateRefused (ProxyAuthRequired (au_Realm ca) (ChallengeSchemes ca))
                 (if credential = [] then ''auth-required'' else ''auth-failed''), st')
            else (GateOK who, st'))"

subsection \<open>Facts about the envelopes\<close>

lemma filterHeaders_Some:
  "filterHeaders h allow k = Some v \<Longrightarrow> h k = Some v \<and> k \<notin> set alwaysMaskedHeaders \<and> k \<in> CanonicalMIMEHeaderKey ` set allow"
proof -
  define step where "step = (\<lambda>name out. let canon = CanonicalMIMEHeaderKey name in
       if canon \<in> set alwaysMaskedHeaders then out else case h canon of Some v \<Rightarrow> out(canon \<mapsto> v) | None \<Rightarrow> out)"
  have "fold step names out k = Some v \<Longrightarrow>
      out k = Some v \<or> h k = Some v \<and> k \<notin> set alwaysMaskedHeaders \<and> k \<in> CanonicalMIMEHeaderKey ` set names" for names out
  proof (induction names arbitrary: out)
    case (Cons n ns)
    from Cons.IH [of "step n out"] Cons.prems
    have "step n out k = Some v \<or> h k = Some v \<and> k \<notin> set alwaysMaskedHeaders \<and> k \<in> CanonicalMIMEHeaderKey ` set ns" by simp
    then show ?case by (auto simp: step_def Let_def split: if_splits option.splits)
  qed simp
  then show "filterHeaders h allow k = Some v \<Longrightarrow> ?thesis" by (force simp: filterHeaders_def step_def)
qed

text \<open>What an envelope may carry: headers of the snapshot that the action asks for, never a credential of the client.\<close>

definition cleanEnvelope :: "outcallContext \<Rightarrow> CompiledAction list \<Rightarrow> Request \<Rightarrow> bool" where
  "cleanEnvelope oc as req \<longleftrightarrow>
     rq_Credential req = None \<and>
     (\<exists>hq co. rq_HTTP req = Some hq \<and> Some co \<in> ca_Outcall ` set as \<and> hq_Headers hq = filterHeaders (oc_Headers oc) (co_Send co))"

lemma doOutcall_sent:
  assumes "doOutcall G E oc co action st = (r, st')"
  shows "\<exists>more. os_sent st' = os_sent st @ more \<and>
    (\<forall>req \<in> set more. rq_Credential req = None \<and>
       (\<exists>hq. rq_HTTP req = Some hq \<and> hq_Headers hq = filterHeaders (oc_Headers oc) (co_Send co)))"
  using assms by (auto simp: doOutcall_def callService_def Let_def split: option.splits prod.splits)

lemma callService_sent [simp]: "os_sent (snd (callService G E key target req sv st)) = os_sent st @ [req]"
  by (simp add: callService_def Let_def split: prod.splits)

lemma applyWebhook_snd: "snd (applyWebhook G E oc co st) = snd (doOutcall G E oc co ''webhook'' st)"
  by (auto simp: applyWebhook_def split: prod.splits sum.splits outcallError.splits)

lemma applyWebhook_state: "applyWebhook G E oc co st = (v, st') \<Longrightarrow> \<exists>r. doOutcall G E oc co ''webhook'' st = (r, st')"
  by (auto simp: applyWebhook_def split: prod.splits sum.splits outcallError.splits)

lemma applyHeaderFetch_state:
  "applyHeaderFetch G E oc r co st = (v, r', st') \<Longrightarrow> \<exists>x. doOutcall G E oc co ''header.fetch'' st = (x, st')"
  by (auto simp: applyHeaderFetch_def split: prod.splits sum.splits outcallError.splits option.splits if_splits)

definition stepAction ::
    "golib \<Rightarrow> outcallEnv \<Rightarrow> outcallContext \<Rightarrow> CompiledAction \<Rightarrow> httpRequest \<Rightarrow> outcallState \<Rightarrow>
     (pipelinePanic, Verdict) res \<times> httpRequest \<times> outcallState" where
  "stepAction G E oc a r st = applyRequestActions G E oc [a] r st"

text \<open>One action at a time: the pipeline is the fold of its steps up to the first short circuit.\<close>

lemma applyRequestActions_Cons:
  "applyRequestActions G E oc (a # as) r st =
     (case stepAction G E oc a r st of
        (Inr v, r', st') \<Rightarrow> if vd_ShortCircuit v then (Inr v, r', st') else applyRequestActions G E oc as r' st'
      | stop \<Rightarrow> stop)"
  unfolding stepAction_def
  by (simp add: Let_def proceed_def split: prod.splits sum.splits)

lemma proceed_simps [simp]: "\<not> vd_ShortCircuit proceed" "vd_Resp proceed = None"
  by (simp_all add: proceed_def)

lemma outcall_verdicts:
  "applyWebhook G E oc co st = (v, st') \<Longrightarrow> \<not> vd_ShortCircuit v \<Longrightarrow> v = proceed"
  "applyHeaderFetch G E oc r co st = (v, r', st') \<Longrightarrow> \<not> vd_ShortCircuit v \<Longrightarrow> v = proceed"
  by (auto simp: applyWebhook_def applyHeaderFetch_def outcallDeniedVerdict_def outcallFailVerdict_def
      split: prod.splits sum.splits outcallError.splits option.splits if_splits)

lemma stepAction_eqs [simp]:
  "ca_Name a = ''header.add'' \<Longrightarrow> stepAction G E oc a r st = (Inr proceed, r\<lparr>q_Header := addHeaders G (ca_Params a) (q_Header r)\<rparr>, st)"
  "ca_Name a = ''header.set'' \<Longrightarrow> stepAction G E oc a r st = (Inr proceed, r\<lparr>q_Header := setHeaders G (ca_Params a) (q_Header r)\<rparr>, st)"
  "ca_Name a = ''raise'' \<Longrightarrow> stepAction G E oc a r st = (Inr (fst (RaiseAction (ca_Params a) r)), r, st)"
  "ca_Name a = ''block'' \<Longrightarrow> stepAction G E oc a r st = (Inr (fst (Block (ca_Params a) r)), r, st)"
  "ca_Name a = ''webhook'' \<Longrightarrow> stepAction G E oc a r st =
     (case ca_Outcall a of None \<Rightarrow> (Inl NilOutcall, r, st) | Some co \<Rightarrow> let (v, st') = applyWebhook G E oc co st in (Inr v, r, st'))"
  "ca_Name a = ''header.fetch'' \<Longrightarrow> stepAction G E oc a r st =
     (case ca_Outcall a of None \<Rightarrow> (Inl NilOutcall, r, st) | Some co \<Rightarrow> let (v, r', st') = applyHeaderFetch G E oc r co st in (Inr v, r', st'))"
  by (auto simp: stepAction_def HeaderAdd_def HeaderSet_def RaiseAction_def Block_def Let_def
      split: option.splits prod.splits dest: outcall_verdicts)

lemma stepAction_sent:
  assumes "stepAction G E oc a r st = (x, r', st')"
  shows "\<exists>more. os_sent st' = os_sent st @ more \<and> list_all (cleanEnvelope oc [a]) more"
proof (cases "os_sent st' = os_sent st")
  case False
  then obtain co action y where "ca_Outcall a = Some co" "doOutcall G E oc co action st = (y, st')"
    using assms
    by (auto simp: stepAction_def proceed_def HeaderAdd_def HeaderSet_def RaiseAction_def Block_def
        split: if_splits option.splits prod.splits sum.splits dest!: applyWebhook_state applyHeaderFetch_state) 
  with doOutcall_sent [OF this(2)] show ?thesis by (fastforce simp: cleanEnvelope_def list_all_iff)
qed auto

declare applyRequestActions.simps(2) [simp del]

lemma cleanEnvelope_mono: "cleanEnvelope oc as req \<Longrightarrow> set as \<subseteq> set bs \<Longrightarrow> cleanEnvelope oc bs req"
  unfolding cleanEnvelope_def by blast

lemma applyRequestActions_sent:
  "applyRequestActions G E oc as r st = (x, r', st') \<Longrightarrow>
    \<exists>more. os_sent st' = os_sent st @ more \<and> list_all (cleanEnvelope oc as) more"
proof (induction as arbitrary: r st)
  case (Cons a as)
  obtain y r1 st1 where y: "stepAction G E oc a r st = (y, r1, st1)" by (cases "stepAction G E oc a r st") auto
  obtain m1 where m1: "os_sent st1 = os_sent st @ m1" "list_all (cleanEnvelope oc [a]) m1" using stepAction_sent [OF y] by blast
  have c1: "list_all (cleanEnvelope oc (a # as)) m1" using m1(2) by (auto simp: list_all_iff intro: cleanEnvelope_mono)
  show ?case
  proof (cases "\<exists>v. y = Inr v \<and> \<not> vd_ShortCircuit v")
    case True
    with Cons.prems y have "applyRequestActions G E oc as r1 st1 = (x, r', st')" by (auto simp: applyRequestActions_Cons)
    from Cons.IH [OF this] obtain m2 where "os_sent st' = os_sent st1 @ m2" "list_all (cleanEnvelope oc as) m2" by blast
    then show ?thesis using m1(1) c1 by (intro exI [of _ "m1 @ m2"]) (auto simp: list_all_iff intro: cleanEnvelope_mono)
  next
    case False
    with Cons.prems y have "st' = st1" by (auto simp: applyRequestActions_Cons split: sum.splits)
    then show ?thesis using m1(1) c1 by auto
  qed
qed simp

text \<open>
  C22. An outcall never leaks the client's credentials to a broker. Whatever the actions of a rule and their \<open>send\<close>
  lists, every envelope the request pipeline hands to the outcall service carries only headers of the request as it
  arrived, only those an action of the rule asks for, and never \<open>Authorization\<close>, \<open>Proxy-Authorization\<close> or \<open>Cookie\<close>.
\<close>

theorem envelopes_masked:
  assumes "applyRequestActions G E oc as r st = (x, r', st')"
  shows "\<exists>envelopes. os_sent st' = os_sent st @ envelopes \<and>
    (\<forall>req \<in> set envelopes. rq_Credential req = None \<and>
      (\<exists>hq co. rq_HTTP req = Some hq \<and> Some co \<in> ca_Outcall ` set as \<and>
        (\<forall>k v. hq_Headers hq k = Some v \<longrightarrow>
          oc_Headers oc k = Some v \<and> k \<in> CanonicalMIMEHeaderKey ` set (co_Send co) \<and>
          k \<notin> {''Authorization'', ''Proxy-Authorization'', ''Cookie''})))"
proof -
  from applyRequestActions_sent [OF assms] obtain m where m: "os_sent st' = os_sent st @ m" "list_all (cleanEnvelope oc as) m" by blast
  have masked: "set alwaysMaskedHeaders = {''Authorization'', ''Proxy-Authorization'', ''Cookie''}"
    by (simp add: alwaysMaskedHeaders_def)
  have "rq_Credential req = None \<and>
      (\<exists>hq co. rq_HTTP req = Some hq \<and> Some co \<in> ca_Outcall ` set as \<and>
        (\<forall>k v. hq_Headers hq k = Some v \<longrightarrow>
          oc_Headers oc k = Some v \<and> k \<in> CanonicalMIMEHeaderKey ` set (co_Send co) \<and>
          k \<notin> {''Authorization'', ''Proxy-Authorization'', ''Cookie''}))" if "req \<in> set m" for req
  proof -
    from m(2) that have "cleanEnvelope oc as req" by (simp add: list_all_iff)
    then obtain hq co where "rq_Credential req = None" "rq_HTTP req = Some hq" "Some co \<in> ca_Outcall ` set as"
        "hq_Headers hq = filterHeaders (oc_Headers oc) (co_Send co)"
      unfolding cleanEnvelope_def by blast
    moreover from this(4) filterHeaders_Some [of "oc_Headers oc" "co_Send co"]
    have "\<forall>k v. hq_Headers hq k = Some v \<longrightarrow> oc_Headers oc k = Some v \<and> k \<in> CanonicalMIMEHeaderKey ` set (co_Send co) \<and>
        k \<notin> {''Authorization'', ''Proxy-Authorization'', ''Cookie''}"
      by (simp add: masked)
    ultimately show ?thesis by blast
  qed
  with m(1) show ?thesis by blast
qed

definition askAll :: CompiledOutcall where
  "askAll = \<lparr>co_Socket = ''/run/broker'', co_Path = ''/'', co_URL = [], co_Send = [''Cookie'', ''X-Scope'', ''Authorization''],
     co_FailOpen = False, co_CacheKey = ''k''\<rparr>"

definition askAction :: CompiledAction where
  "askAction = \<lparr>ca_Name = ''webhook'', ca_Params = [], ca_Outcall = Some askAll\<rparr>"

definition scopedHeaders :: header where
  "scopedHeaders = [''Cookie'' \<mapsto> [''session=1''], ''X-Scope'' \<mapsto> [''ci''], ''Authorization'' \<mapsto> [''Bearer t'']]"

definition demoContext :: outcallContext where
  "demoContext = newOutcallContext ''u'' ''10.0.0.7'' ''192.0.2.1:443'' ''GET'' ''https://example.com/'' scopedHeaders"

definition demoHttpRequest :: httpRequest where
  "demoHttpRequest = \<lparr>q_Method = ''GET'', q_Scheme = [], q_URLHost = [], q_Path = ''/'', q_Target = ''/'', q_URLText = ''/'',
     q_Host = ''example.com'', q_Header = scopedHeaders, q_Body = [], q_Close = False\<rparr>"

definition demoOutcallEnv :: outcallEnv where
  "demoOutcallEnv = \<lparr>oe_L = noLib, oe_net = (\<lambda>_ _ _ _. Some okReply), oe_now = int\<rparr>"

definition demoOutcallState :: outcallState where
  "demoOutcallState = \<lparr>os_service = Some (NewService 4), os_step = 0, os_sent = []\<rparr>"

definition sentBy :: "CompiledAction list \<Rightarrow> Request list" where
  "sentBy as = os_sent (snd (snd (applyRequestActions plainLib demoOutcallEnv demoContext as demoHttpRequest demoOutcallState)))"

lemma sentBy_ask: "\<exists>req hq. sentBy [askAction] = [req] \<and> rq_HTTP req = Some hq \<and> hq_Headers hq ''X-Scope'' = Some [''ci'']"
proof -
  have "filterHeaders scopedHeaders (co_Send askAll) ''X-Scope'' = Some [''ci'']" by code_simp
  moreover have "sentBy [askAction] = os_sent (snd (doOutcall plainLib demoOutcallEnv demoContext askAll ''webhook'' demoOutcallState))"
    unfolding sentBy_def applyRequestActions_Cons applyWebhook_snd [symmetric]
    by (simp add: askAction_def Let_def split: prod.splits)
  ultimately show ?thesis
    by (simp add: doOutcall_def demoOutcallState_def demoContext_def newOutcallContext_def)
qed

theorem envelopes_masked_witness:
  "\<exists>req hq. sentBy [askAction] = [req] \<and> rq_HTTP req = Some hq \<and>
     hq_Headers hq ''X-Scope'' = Some [''ci''] \<and> hq_Headers hq ''Cookie'' = None \<and> hq_Headers hq ''Authorization'' = None"
proof -
  obtain x r' st' where run: "applyRequestActions plainLib demoOutcallEnv demoContext [askAction] demoHttpRequest demoOutcallState = (x, r', st')"
    by (cases "applyRequestActions plainLib demoOutcallEnv demoContext [askAction] demoHttpRequest demoOutcallState") auto
  have sent: "os_sent st' = sentBy [askAction]" unfolding sentBy_def run by simp
  have none: "os_sent demoOutcallState = []" by (simp add: demoOutcallState_def)
  obtain req hq where req: "sentBy [askAction] = [req]" "rq_HTTP req = Some hq" "hq_Headers hq ''X-Scope'' = Some [''ci'']"
    using sentBy_ask by blast
  from envelopes_masked [OF run] obtain envelopes where
    e: "os_sent st' = os_sent demoOutcallState @ envelopes"
      "\<forall>req \<in> set envelopes. \<exists>hq. rq_HTTP req = Some hq \<and>
         (\<forall>k v. hq_Headers hq k = Some v \<longrightarrow> k \<notin> {''Authorization'', ''Proxy-Authorization'', ''Cookie''})"
    by blast
  from e(1) have "envelopes = [req]" by (simp add: sent none req(1))
  with e(2) req(2) have masked: "hq_Headers hq k = Some v \<Longrightarrow> k \<notin> {''Authorization'', ''Proxy-Authorization'', ''Cookie''}" for k v
    by simp
  have "hq_Headers hq ''Cookie'' = None" using masked [of "''Cookie''"] by (cases "hq_Headers hq ''Cookie''") auto
  moreover have "hq_Headers hq ''Authorization'' = None"
    using masked [of "''Authorization''"] by (cases "hq_Headers hq ''Authorization''") auto
  ultimately show ?thesis using req by blast
qed

subsection \<open>Facts about header.fetch and webhook\<close>

lemma fetchHeaders_other:
  assumes "\<forall>(name, hv) \<in> set hs. CanonicalMIMEHeaderKey name \<noteq> k"
  shows "fetchHeaders hs h k = h k"
proof -
  define step :: "string \<times> HeaderValue \<Rightarrow> header \<Rightarrow> header" where "step = (\<lambda>(name, hv) h. let canon = CanonicalMIMEHeaderKey name in
       if hv_Delete hv then headerDel h canon else h(canon \<mapsto> hv_Values hv))"
  have "fold step hs h k = h k"
    using assms
  proof (induction hs arbitrary: h)
    case (Cons x hs)
    then have "fold step hs (step x h) k = step x h k" by auto
    also have "\<dots> = h k" using Cons.prems by (auto simp: step_def Let_def headerDel_def CanonicalMIMEHeaderKey_idem split: prod.splits)
    finally show ?case by simp
  qed simp
  then show ?thesis by (simp add: fetchHeaders_def step_def)
qed

text \<open>
  C30. A header.fetch broker can neither set a framing header nor leave the request half changed. The request
  after the action differs at most in its headers; \<open>Host\<close>, \<open>Content-Length\<close>, \<open>Transfer-Encoding\<close>, \<open>Connection\<close>,
  \<open>Upgrade\<close> and \<open>Te\<close> are as before whatever the broker returned; and when the action ends the request, or the broker
  named one of those headers, no header at all has changed.
\<close>

theorem header_fetch_framing:
  assumes "applyHeaderFetch G E oc r co st = (v, r', st')"
  shows "r' = r\<lparr>q_Header := q_Header r'\<rparr> \<and>
    (\<forall>k \<in> {''Host'', ''Content-Length'', ''Transfer-Encoding'', ''Connection'', ''Upgrade'', ''Te''}. q_Header r' k = q_Header r k) \<and>
    (vd_ShortCircuit v \<longrightarrow> r' = r) \<and>
    (\<forall>resp headers. fst (doOutcall G E oc co ''header.fetch'' st) = Inr resp \<longrightarrow> rp_HTTP resp = Some headers \<longrightarrow>
       (\<exists>(name, _) \<in> set headers. CanonicalMIMEHeaderKey name \<in> set OutcallDenylist) \<longrightarrow> r' = r)"
proof (cases "r' = r")
  case False
  with assms obtain resp headers where resp: "fst (doOutcall G E oc co ''header.fetch'' st) = Inr resp" "rp_HTTP resp = Some headers"
      "\<not> list_ex (\<lambda>(name, _). CanonicalMIMEHeaderKey name \<in> set OutcallDenylist) headers"
      "r' = r\<lparr>q_Header := fetchHeaders headers (q_Header r)\<rparr>" "v = proceed"
    by (auto simp: applyHeaderFetch_def split: prod.splits sum.splits outcallError.splits option.splits if_splits)
  have "q_Header r' k = q_Header r k" if "k \<in> set OutcallDenylist" for k
  proof -
    have "\<forall>(name, hv) \<in> set headers. CanonicalMIMEHeaderKey name \<noteq> k" using resp(3) that by (auto simp: list_ex_iff)
    then show ?thesis using fetchHeaders_other by (simp add: resp(4))
  qed
  moreover have "set OutcallDenylist = {''Host'', ''Content-Length'', ''Transfer-Encoding'', ''Connection'', ''Upgrade'', ''Te''}"
    by (simp add: OutcallDenylist_def)
  ultimately show ?thesis using resp by (auto simp: list_ex_iff)
qed simp


text \<open>
  C35. The rules the compiler accepts never make the request pipeline dereference a missing outcall: on well-formed
  actions the pipeline always ends with a verdict, and a verdict that does not end the request is the plain one.
\<close>

theorem compiled_actions_total:
  assumes "compileActions G actions validRequestActions phase = Inr as"
  shows "\<exists>v. fst (applyRequestActions G E oc as r st) = Inr v \<and> (vd_ShortCircuit v \<or> v = proceed)"
proof -
  have "wfActions validRequestActions as" using assms by (simp add: compileActions_def compileActionsFrom_wf)
  then show ?thesis
  proof (induction as arbitrary: r st)
    case (Cons a as)
    have "\<exists>v r' st'. stepAction G E oc a r st = (Inr v, r', st')"
    proof -
      have "ca_Name a \<in> set validRequestActions" "outcallName (ca_Name a) \<longrightarrow> ca_Outcall a \<noteq> None"
        using Cons.prems by (simp_all add: wfActions_def)
      then show ?thesis by (auto simp: validRequestActions_def outcallName_def split: prod.splits)
    qed
    then obtain v r' st' where v: "stepAction G E oc a r st = (Inr v, r', st')" by blast
    show ?case
    proof (cases "vd_ShortCircuit v")
      case False
      have "wfActions validRequestActions as" using Cons.prems by (simp add: wfActions_def)
      from Cons.IH [OF this] v False show ?thesis by (simp add: applyRequestActions_Cons)
    qed (use v in \<open>simp add: applyRequestActions_Cons\<close>)
  qed simp
qed

subsection \<open>Facts about header maps\<close>

text \<open>The effect of header.set on one key: the last entry with that canonical name.\<close>

definition setEffect :: "golib \<Rightarrow> params \<Rightarrow> string \<Rightarrow> string list option \<Rightarrow> string list option" where
  "setEffect G p k old =
     (case find (\<lambda>(name, v). CanonicalMIMEHeaderKey name = k) (rev p) of
        None \<Rightarrow> old
      | Some (name, v) \<Rightarrow> if v = JNull then None else Some [toString G v])"

lemma setHeaders_apply: "setHeaders G p h k = setEffect G p k (h k)"
proof (induction p arbitrary: h rule: rev_induct)
  case (snoc x p)
  obtain name v where x: "x = (name, v)" by (cases x)
  show ?case
    using snoc [of h]
    by (simp add: x setHeaders_def setEffect_def headerDel_def headerSet_def CanonicalMIMEHeaderKey_idem Let_def)
qed (simp add: setHeaders_def setEffect_def)

lemma find_canonical:
  assumes "distinct (map (CanonicalMIMEHeaderKey \<circ> fst) p)" and "(name, v) \<in> set p"
  shows "find (\<lambda>(n, _). CanonicalMIMEHeaderKey n = CanonicalMIMEHeaderKey name) p = Some (name, v)"
  using assms
proof (induction p)
  case (Cons x p)
  show ?case
  proof (cases "CanonicalMIMEHeaderKey (fst x) = CanonicalMIMEHeaderKey name")
    case True
    then have "(name, v) \<notin> set p" using Cons.prems(1) by force
    with Cons.prems(2) show ?thesis by auto
  next
    case False
    with Cons show ?thesis by (auto split: prod.splits)
  qed
qed simp

text \<open>
  The order in which Go ranges over a parameter map does not show: when no two names of a \<open>header.set\<close> object
  differ only in how their case is written, the headers after the action are the same for every order of the
  entries.
\<close>

theorem header_set_order:
  assumes "distinct (map (CanonicalMIMEHeaderKey \<circ> fst) p)" and "distinct p'" and "set p' = set p"
  shows "HeaderSet G p' r = HeaderSet G p r"
proof -
  have dp: "distinct p" using assms(1) by (simp add: distinct_map)
  have perm: "mset p' = mset p" using dp assms(2,3) by (simp add: set_eq_iff_mset_eq_distinct [symmetric])
  then have d': "distinct (map (CanonicalMIMEHeaderKey \<circ> fst) p')" using assms(1)
    by (metis mset_map mset_eq_imp_distinct_iff)
  have same: "find (\<lambda>(n, v). CanonicalMIMEHeaderKey n = k) (rev p') = find (\<lambda>(n, v). CanonicalMIMEHeaderKey n = k) (rev p)" for k
  proof (cases "\<exists>name v. (name, v) \<in> set p \<and> CanonicalMIMEHeaderKey name = k")
    case True
    then obtain name v where nv: "(name, v) \<in> set p" "CanonicalMIMEHeaderKey name = k" by blast
    have "distinct (map (CanonicalMIMEHeaderKey \<circ> fst) (rev p'))" "distinct (map (CanonicalMIMEHeaderKey \<circ> fst) (rev p))"
      using assms(1) d' by (simp_all add: rev_map [symmetric])
    from find_canonical [OF this(1), of name v] find_canonical [OF this(2), of name v] nv assms(3) show ?thesis by simp
  next
    case False
    then have "find (\<lambda>(n, v). CanonicalMIMEHeaderKey n = k) (rev q) = None" if "set q = set p" for q
      using that by (auto simp: find_None_iff)
    with assms(3) show ?thesis by simp
  qed
  have "setHeaders G p' h = setHeaders G p h" for h
    by (rule ext) (simp add: setHeaders_apply setEffect_def same)
  then show ?thesis by (simp add: HeaderSet_def)
qed

theorem header_set_order_witness:
  "HeaderSet plainLib [(''Cookie'', JNull), (''x-trace'', JStr ''1'')] demoHttpRequest =
   HeaderSet plainLib [(''x-trace'', JStr ''1''), (''Cookie'', JNull)] demoHttpRequest"
proof -
  have "distinct (map (CanonicalMIMEHeaderKey \<circ> fst) [(''x-trace'', JStr ''1''), (''Cookie'', JNull)])" by code_simp
  then show ?thesis
    by (intro header_set_order) auto
qed

text \<open>
  When two names of a \<open>header.set\<close> object do share a canonical form, the headers sent upstream depend on the order
  of the map: there are two orders of the same object, one of which deletes the header while the other sets it.
\<close>

theorem header_set_order_matters:
  assumes "CanonicalMIMEHeaderKey a = CanonicalMIMEHeaderKey b"
  shows "q_Header (snd (HeaderSet G [(a, JNull), (b, JStr v)] r)) (CanonicalMIMEHeaderKey a) = Some [v] \<and>
    q_Header (snd (HeaderSet G [(b, JStr v), (a, JNull)] r)) (CanonicalMIMEHeaderKey a) = None"
  using assms by (simp add: HeaderSet_def setHeaders_apply setEffect_def toString_def)

theorem header_set_order_matters_witness:
  "q_Header (snd (HeaderSet plainLib [(''x-token'', JNull), (''X-Token'', JStr ''t'')] demoHttpRequest)) ''X-Token'' = Some [''t''] \<and>
   q_Header (snd (HeaderSet plainLib [(''X-Token'', JStr ''t''), (''x-token'', JNull)] demoHttpRequest)) ''X-Token'' = None"
proof -
  have key: "CanonicalMIMEHeaderKey ''x-token'' = ''X-Token''" "CanonicalMIMEHeaderKey ''X-Token'' = ''X-Token''" by code_simp+
  then show ?thesis
    using header_set_order_matters [of "''x-token''" "''X-Token''" plainLib "''t''" demoHttpRequest] by simp
qed

subsection \<open>Facts about the login gate\<close>

lemma authenticateBroker_ok:
  assumes "authenticateBroker G E broker uuid client credential st = ((True, who), st')"
  obtains scheme val sv resp where "who \<noteq> []" "Cut credential CHR '' '' = Some (scheme, val)" "os_service st = Some sv"
    "fst (callService G E (authCacheKey G broker uuid scheme val) (brokerTarget broker) (authRequest uuid client scheme val) sv st) = Inr resp"
    "rp_Principal resp = who"
  using assms by (auto simp: authenticateBroker_def case_prod_beta split: option.splits sum.splits if_splits)


definition tokenAuth :: CompiledAuth where
  "tokenAuth = \<lparr>au_Required = True, au_Realm = ''lab'', au_Basic = [], au_Bearer = [],
     au_Broker = Some \<lparr>ab_Socket = ''/run/login'', ab_URL = [], ab_Path = ''/''\<rparr>\<rparr>"

definition loginRules :: RuleSet where
  "loginRules = emptyRuleSet\<lparr>rs_auth := Some tokenAuth\<rparr>"

definition loginLib :: outcallLib where
  "loginLib = \<lparr>ol_ParseTime = (\<lambda>_. None), ol_Unmarshal = (\<lambda>_. Some (emptyResponse\<lparr>rp_Principal := ''alice''\<rparr>))\<rparr>"

definition loginEnv :: outcallEnv where
  "loginEnv = \<lparr>oe_L = loginLib,
     oe_net = (\<lambda>_ _ _ _. Some \<lparr>hr_StatusCode = 200, hr_Header = (\<lambda>_. None), hr_Body = Some ''{}''\<rparr>), oe_now = int\<rparr>"

definition explicitSession :: Session where
  "explicitSession = \<lparr>se_Client = Some (v4Addr [10, 0, 0, 7], 40000), se_Dst = None, se_Transport = TransportExplicit,
     se_Acceptor = ''http_proxy''\<rparr>"

definition bearerHeader :: header where
  "bearerHeader = [''Proxy-Authorization'' \<mapsto> [''Bearer t0'']]"

lemma login_broker:
  "fst (callService G loginEnv key target req (NewService 4) demoOutcallState) = Inr (emptyResponse\<lparr>rp_Principal := ''alice''\<rparr>)"
  by (simp add: callService_def Do_def NewService_def doHTTP_def finishHTTP_def loginEnv_def readEnvelope_def loginLib_def
      maxResponseBytes_def headerGet_def Let_def)

lemma authenticateBroker_accept:
  assumes "os_service st = Some sv" and "Cut credential CHR '' '' = Some (scheme, val)"
    and "\<And>key target req. fst (callService G E key target req sv st) = Inr resp" and "rp_Principal resp \<noteq> []"
  shows "fst (authenticateBroker G E broker uuid client credential st) = (True, rp_Principal resp)"
  using assms by (simp add: authenticateBroker_def Let_def case_prod_beta)

lemma login_run: "fst (checkAuth (\<lambda>_ _ _ _ _ _. []) plainLib loginEnv explicitSession loginRules bearerHeader demoOutcallState) = GateOK ''alice''"
proof -
  have key: "headerGet bearerHeader ''Proxy-Authorization'' = ''Bearer t0''" by code_simp
  have cut: "Cut ''Bearer t0'' CHR '' '' = Some (''Bearer'', ''t0'')" by code_simp
  have auth: "Authenticate (\<lambda>_ _ _ _ _ _. []) plainLib tokenAuth ''Bearer t0'' = (False, [])"
    by (simp add: Authenticate_def cut authenticateBearer_def tokenAuth_def)
  have broker: "fst (authenticateBroker plainLib loginEnv broker uuid client ''Bearer t0'' demoOutcallState) = (True, ''alice'')"
      for broker uuid client
    using authenticateBroker_accept [of demoOutcallState "NewService 4" "''Bearer t0''" _ _ plainLib loginEnv
        "emptyResponse\<lparr>rp_Principal := ''alice''\<rparr>", OF _ cut login_broker]
    by (simp add: demoOutcallState_def)
  show ?thesis
    using broker [of "the (au_Broker tokenAuth)"]
    by (simp add: checkAuth_def loginRules_def emptyRuleSet_def auth key explicitSession_def Let_def case_prod_beta)
      (simp add: tokenAuth_def)
qed


subsection \<open>Examples\<close>

text \<open>A broker that answers with the headers of its reply, given as an envelope of one header.\<close>

definition fetchLib :: "string \<Rightarrow> outcallLib" where
  "fetchLib name = \<lparr>ol_ParseTime = (\<lambda>_. None),
     ol_Unmarshal = (\<lambda>_. Some (emptyResponse\<lparr>rp_HTTP := Some [(name, \<lparr>hv_Delete = False, hv_Values = [''v'']\<rparr>)]\<rparr>))\<rparr>"

definition brokerEnv :: "outcallLib \<Rightarrow> int \<Rightarrow> outcallEnv" where
  "brokerEnv L status = \<lparr>oe_L = L,
     oe_net = (\<lambda>_ _ _ _. Some \<lparr>hr_StatusCode = status, hr_Header = (\<lambda>_. None), hr_Body = Some ''{}''\<rparr>), oe_now = int\<rparr>"

lemma brokerEnv_answer:
  "fst (doOutcall G (brokerEnv L status) oc co action demoOutcallState) =
     (case ol_Unmarshal L ''{}'' of
        None \<Rightarrow> Inl (BrokerFailed ''unparseable response body'')
      | Some resp \<Rightarrow> if status < 200 \<or> 300 \<le> status then Inl (DeniedError (rp_Message resp) (rp_HTTPStatus resp)) else Inr resp)"
  by (auto simp: doOutcall_def callService_def Do_def NewService_def doHTTP_def finishHTTP_def brokerEnv_def readEnvelope_def isDenied_def
      demoOutcallState_def maxResponseBytes_def headerGet_def Let_def split: option.splits)

theorem header_fetch_framing_witness:
  "\<exists>v r' st'. applyHeaderFetch plainLib (brokerEnv (fetchLib ''transfer-encoding'') 200) demoContext demoHttpRequest askAll demoOutcallState = (v, r', st') \<and>
     r' = demoHttpRequest"
proof -
  let ?E = "brokerEnv (fetchLib ''transfer-encoding'') 200"
  obtain v r' st' where run: "applyHeaderFetch plainLib ?E demoContext demoHttpRequest askAll demoOutcallState = (v, r', st')"
    by (cases "applyHeaderFetch plainLib ?E demoContext demoHttpRequest askAll demoOutcallState") auto
  let ?resp = "emptyResponse\<lparr>rp_HTTP := Some [(''transfer-encoding'', \<lparr>hv_Delete = False, hv_Values = [''v'']\<rparr>)]\<rparr>"
  have "fst (doOutcall plainLib ?E demoContext askAll ''header.fetch'' demoOutcallState) = Inr ?resp"
    by (simp add: brokerEnv_answer fetchLib_def)
  moreover have "CanonicalMIMEHeaderKey ''transfer-encoding'' \<in> set OutcallDenylist" by code_simp
  ultimately have "r' = demoHttpRequest"
    using header_fetch_framing [OF run, THEN conjunct2, THEN conjunct2, THEN conjunct2, rule_format,
        of ?resp "[(''transfer-encoding'', \<lparr>hv_Delete = False, hv_Values = [''v'']\<rparr>)]"] by simp
  with run show ?thesis by blast
qed


definition tagAction :: Action where
  "tagAction = \<lparr>a_Action = ''header.set'', a_Params = [(''X-Via'', JStr ''mitmania'')]\<rparr>"

theorem compiled_actions_total_witness:
  "\<exists>as v. compileActions plainLib [tagAction] validRequestActions ''request'' = Inr as \<and>
     fst (applyRequestActions plainLib demoOutcallEnv demoContext as demoHttpRequest demoOutcallState) = Inr v"
proof -
  have "compileActions plainLib [tagAction] validRequestActions ''request'' =
      Inr [\<lparr>ca_Name = ''header.set'', ca_Params = [(''X-Via'', JStr ''mitmania'')], ca_Outcall = None\<rparr>]"
    by (simp add: compileActions_def tagAction_def validRequestActions_def)
  with compiled_actions_total [OF this] show ?thesis by blast
qed

subsection \<open>The cache key of an outcall action\<close>

lemma compileOutcallAction_name:
  "compileOutcallAction G \<lparr>a_Action = n, a_Params = p\<rparr> = Inr co \<Longrightarrow> compileOutcallAction G \<lparr>a_Action = m, a_Params = p\<rparr> = Inr co"
  by (auto simp: compileOutcallAction_def Let_def split: if_splits option.splits)

text \<open>
  The cache key of an outcall action does not name the action. A webhook and a header.fetch with the same parameters
  compile to the same outcall, so the stored answer to the one is served to the other: after a webhook whose
  answer carries no headers is stored, the header.fetch proceeds without asking the broker and adds no header.
\<close>

theorem outcall_key_shared:
  assumes "compileOutcallAction G \<lparr>a_Action = ''webhook'', a_Params = p\<rparr> = Inr co"
    and "os_service st = Some sv" and "sv_cache sv (co_CacheKey co) = Some e"
    and "entry_fresh e (oe_now E (os_step st))" and "\<not> ce_denied e" and "rp_HTTP (ce_resp e) = None"
  shows "compileOutcallAction G \<lparr>a_Action = ''header.fetch'', a_Params = p\<rparr> = Inr co \<and>
    (\<exists>st'. applyHeaderFetch G E oc r co st = (proceed, r, st') \<and> os_service st' = Some sv)"
proof -
  have "\<exists>st'. doOutcall G E oc co ''header.fetch'' st = (Inr (ce_resp e), st') \<and> os_service st' = Some sv"
    using assms(2-5) by (simp add: doOutcall_def callService_def Do_def entry_result_def Let_def)
  then show ?thesis
    using compileOutcallAction_name [OF assms(1)] assms(6) by (auto simp: applyHeaderFetch_def)
qed

definition brokerParams :: params where
  "brokerParams = [(''socket'', JStr ''/run/broker'')]"

definition storedAllow :: cacheEntry where
  "storedAllow = \<lparr>ce_resp = emptyResponse, ce_denied = False, ce_status = 200, ce_etag = [], ce_freshUntil = 60,
     ce_swrUntil = 60, ce_sieUntil = 60, ce_mustRevalidate = False\<rparr>"

theorem outcall_key_shared_witness:
  "\<exists>co st st'. compileOutcallAction plainLib \<lparr>a_Action = ''header.fetch'', a_Params = brokerParams\<rparr> = Inr co \<and>
     sv_cache (the (os_service st)) (co_CacheKey co) = Some storedAllow \<and>
     applyHeaderFetch plainLib demoOutcallEnv demoContext demoHttpRequest co st = (proceed, demoHttpRequest, st')"
proof -
  obtain co where co: "compileOutcallAction plainLib \<lparr>a_Action = ''webhook'', a_Params = brokerParams\<rparr> = Inr co"
    by (auto simp: compileOutcallAction_def brokerParams_def Params_String_def Params_StringSlice_def Params_Bool_def Let_def)
  let ?st = "demoOutcallState\<lparr>os_service := Some ((NewService 4)\<lparr>sv_cache := [co_CacheKey co \<mapsto> storedAllow]\<rparr>)\<rparr>"
  have "entry_fresh storedAllow (oe_now demoOutcallEnv (os_step ?st))" "\<not> ce_denied storedAllow" "rp_HTTP (ce_resp storedAllow) = None"
    by (simp_all add: entry_fresh_def storedAllow_def demoOutcallEnv_def demoOutcallState_def emptyResponse_def)
  with outcall_key_shared [OF co, of ?st _ storedAllow demoOutcallEnv demoContext demoHttpRequest]
  show ?thesis by - (rule exI [of _ co], rule exI [of _ ?st], auto)
qed

end
