(* ===== verification/MaskedKey.thy ===== *)
theory MaskedKey
  imports NetAddr
begin

unbundle bit_operations_syntax

text \<open>
  The keys of the default table, \<open>src/internal/rules/defaultruleset.go\<close>: an address with a
  mask that is a prefix or sparse. The lemmas read bytes as bits, most significant first: a mask
  made by \<open>prefixMask\<close> is a run of ones, \<open>contiguousPrefixLen\<close> recognises exactly
  these, and an address lies in a prefix key when its value lies in the interval the coverage
  check computes.
\<close>

record maskedKey =
  mk_is4 :: bool
  mk_addr :: "byte list"
  mk_mask :: "byte list"

datatype keyError =
    MissingSlash
  | InvalidAddress string
  | InvalidPrefixLength string
  | InvalidMask string
  | MaskFamily string string

definition isDecimal :: "string \<Rightarrow> bool" where
  "isDecimal s \<longleftrightarrow> s \<noteq> [] \<and> list_all (\<lambda>r. 48 \<le> r \<and> r \<le> 57) (runes s)"

definition prefixMask :: "nat \<Rightarrow> nat \<Rightarrow> byte list" where
  "prefixMask n width =
     fold (\<lambda>i m. m[i div 8 := m ! (i div 8) OR push_bit (7 - i mod 8) 1]) [0..<n] (replicate width 0)"

definition leadingOnes :: "byte \<Rightarrow> nat" where
  "leadingOnes b = length (takeWhile (\<lambda>k. b AND push_bit k 1 \<noteq> 0) [7, 6, 5, 4, 3, 2, 1, 0])"

definition contiguousPrefixLen :: "byte list \<Rightarrow> nat option" where
  "contiguousPrefixLen msk =
     (let full = length (takeWhile (\<lambda>b. b = 0xFF) msk); n = 8 * full in
      if full < length msk then
        (let b = msk ! full; lead = leadingOnes b; want = push_bit (8 - lead) 0xFF in
         if b \<noteq> want then None
         else if list_all (\<lambda>c. c = 0) (drop (full + 1) msk) then Some (n + lead) else None)
      else Some n)"

definition parseMaskedKey :: "string \<Rightarrow> (keyError, maskedKey) res" where
  "parseMaskedKey s =
     (case Cut s CHR ''/'' of
        None \<Rightarrow> Inl MissingSlash
      | Some (addrPart, maskPart) \<Rightarrow>
          (case ParseAddr addrPart of
             None \<Rightarrow> Inl (InvalidAddress addrPart)
           | Some addr \<Rightarrow>
               let width = (if addr_is4 addr then 4 else 16) in
               bindR
                 (if isDecimal maskPart then
                    (case Atoi maskPart of
                       None \<Rightarrow> Inl (InvalidPrefixLength maskPart)
                     | Some n \<Rightarrow>
                         if n < 0 \<or> int (width * 8) < n then Inl (InvalidPrefixLength maskPart)
                         else Inr (prefixMask (nat n) width))
                  else
                    (case ParseAddr maskPart of
                       None \<Rightarrow> Inl (InvalidMask maskPart)
                     | Some maskAddr \<Rightarrow>
                         if addr_is4 maskAddr \<noteq> addr_is4 addr then Inl (MaskFamily maskPart addrPart)
                         else Inr (addr_bytes maskAddr))) (\<lambda>msk.
               Inr \<lparr>mk_is4 = addr_is4 addr, mk_addr = map2 (AND) (addr_bytes addr) msk, mk_mask = msk\<rparr>)))"

definition sliceString :: "byte list \<Rightarrow> string" where
  "sliceString bs = (case AddrFromSlice bs of Some a \<Rightarrow> Addr_String a | None \<Rightarrow> ''invalid IP'')"

definition canonical :: "maskedKey \<Rightarrow> string" where
  "canonical k =
     (case contiguousPrefixLen (mk_mask k) of
        Some n \<Rightarrow> sliceString (mk_addr k) @ ''/'' @ Itoa (int n)
      | None \<Rightarrow> sliceString (mk_addr k) @ ''/'' @ sliceString (mk_mask k))"

definition key_contains :: "maskedKey \<Rightarrow> byte list \<Rightarrow> bool" where
  "key_contains k ab \<longleftrightarrow> map2 (AND) ab (mk_mask k) = mk_addr k"

definition wfKey :: "maskedKey \<Rightarrow> bool" where
  "wfKey k \<longleftrightarrow>
     length (mk_mask k) = (if mk_is4 k then 4 else 16) \<and> length (mk_addr k) = length (mk_mask k) \<and>
     map2 (AND) (mk_addr k) (mk_mask k) = mk_addr k"

subsection \<open>Bytes as bits\<close>

definition byteBits :: "byte \<Rightarrow> bool list" where
  "byteBits b = map (bit b) [7, 6, 5, 4, 3, 2, 1, 0]"

definition bitsOf :: "byte list \<Rightarrow> bool list" where
  "bitsOf bs = concat (map byteBits bs)"

definition bitsValue :: "bool list \<Rightarrow> int" where
  "bitsValue xs = foldl (\<lambda>n b. 2 * n + of_bool b) 0 xs"

lemma length_byteBits [simp]: "length (byteBits b) = 8"
  by (simp add: byteBits_def)

lemma bitsOf_simps [simp]: "bitsOf [] = []" "bitsOf (b # bs) = byteBits b @ bitsOf bs"
  "bitsOf (bs @ cs) = bitsOf bs @ bitsOf cs"
  by (simp_all add: bitsOf_def)

lemma length_bitsOf [simp]: "length (bitsOf bs) = 8 * length bs"
  by (induction bs) simp_all

lemma byteBits_inj: "byteBits a = byteBits b \<longleftrightarrow> a = b"
proof
  assume eq: "byteBits a = byteBits b"
  show "a = b"
  proof (rule bit_word_eqI)
    fix n assume "n < LENGTH(8)"
    then have "n \<in> set [7, 6, 5, 4, 3, 2, 1, 0]" by auto
    then show "bit a n = bit b n" using eq by (auto simp: byteBits_def)
  qed
qed simp

lemma bitsOf_inj: "length as = length bs \<Longrightarrow> bitsOf as = bitsOf bs \<longleftrightarrow> as = bs"
  by (induction as bs rule: list_induct2) (auto simp: byteBits_inj)

lemma byteBits_and: "byteBits (a AND b) = map2 (\<and>) (byteBits a) (byteBits b)"
  by (simp add: byteBits_def bit_and_iff)

lemma bitsOf_and: "length as = length bs \<Longrightarrow> bitsOf (map2 (AND) as bs) = map2 (\<and>) (bitsOf as) (bitsOf bs)"
  by (induction as bs rule: list_induct2) (simp_all add: byteBits_and)

lemma foldl_bits: "foldl (\<lambda>n b. 2 * n + of_bool b) (k :: int) xs = k * 2 ^ length xs + bitsValue xs"
proof (induction xs arbitrary: k)
  case (Cons x xs)
  show ?case
    using Cons [of "2 * k + of_bool x"] Cons [of "of_bool x"]
    by (simp add: bitsValue_def algebra_simps)
qed (simp add: bitsValue_def)

lemma bitsValue_append: "bitsValue (xs @ ys) = bitsValue xs * 2 ^ length ys + bitsValue ys"
  using foldl_bits [of "bitsValue xs" ys] by (simp add: bitsValue_def)

lemma bitsValue_Nil [simp]: "bitsValue [] = 0"
  by (simp add: bitsValue_def)

lemma bitsValue_bounds: "0 \<le> bitsValue xs \<and> bitsValue xs < 2 ^ length xs"
proof (induction xs rule: rev_induct)
  case (snoc x xs)
  then show ?case by (cases x) (auto simp: bitsValue_append bitsValue_def [of "[_]"])
qed simp

lemma bitsValue_horner: "bitsValue xs = horner_sum of_bool 2 (rev xs)"
  by (simp add: bitsValue_def horner_sum_foldr foldl_conv_foldr add.commute)

lemma bitsValue_byteBits: "bitsValue (byteBits b) = uint b"
proof -
  have "rev (byteBits b) = map (bit (uint b)) [0..<8]"
    by (simp add: byteBits_def bit_uint_iff upt_rec eval_nat_numeral)
  then have "bitsValue (byteBits b) = take_bit 8 (uint b)"
    by (simp add: bitsValue_horner horner_sum_bit_eq_take_bit)
  also have "\<dots> = uint b"
    using uint_lt2p [of b] by (simp add: take_bit_int_eq_self)
  finally show ?thesis .
qed

lemma bytesValue_bits: "bytesValue bs = bitsValue (bitsOf bs)"
proof (induction bs rule: rev_induct)
  case (snoc b bs)
  then show ?case
    by (simp add: bytesValue_def bitsValue_append bitsValue_byteBits)
qed (simp add: bytesValue_def)

subsection \<open>Prefix masks\<close>

lemma byteBits_set:
  assumes "k < 8"
  shows "byteBits (b OR push_bit (7 - k) 1) = (byteBits b)[k := True]"
proof -
  from assms have "k \<in> {0, 1, 2, 3, 4, 5, 6, 7}" by auto
  then show ?thesis
    by (auto simp: byteBits_def bit_or_iff bit_push_bit_iff bit_1_iff)
qed

lemma bitsOf_set:
  assumes "i < 8 * length bs"
  shows "bitsOf (bs[i div 8 := bs ! (i div 8) OR push_bit (7 - i mod 8) 1]) = (bitsOf bs)[i := True]"
  using assms
proof (induction bs arbitrary: i)
  case (Cons b bs)
  show ?case
  proof (cases "i < 8")
    case True
    with byteBits_set [OF True, of b] show ?thesis by (simp add: list_update_append)
  next
    case False
    then obtain j where j: "i = j + 8" by (metis add.commute le_Suc_ex linorder_not_le)
    with Cons(2) have "j < 8 * length bs" by simp
    with j Cons(1) [of j] show ?thesis by (simp add: list_update_append)
  qed
qed simp

lemma length_prefixMask [simp]: "length (prefixMask n w) = w"
  by (induction n) (simp_all add: prefixMask_def)

lemma bitsOf_zeros: "bitsOf (replicate w 0) = replicate (8 * w) False"
  by (induction w) (simp_all add: byteBits_def replicate_add [symmetric] eval_nat_numeral)

lemma bitsOf_prefixMask:
  "n \<le> 8 * w \<Longrightarrow> bitsOf (prefixMask n w) = replicate n True @ replicate (8 * w - n) False"
proof (induction n)
  case 0
  then show ?case by (simp add: prefixMask_def bitsOf_zeros)
next
  case (Suc n)
  have step: "prefixMask (Suc n) w = (prefixMask n w)[n div 8 := prefixMask n w ! (n div 8) OR push_bit (7 - n mod 8) 1]"
    by (simp add: prefixMask_def)
  obtain m where m: "8 * w - n = Suc m" "8 * w - Suc n = m" using Suc(2) by (metis Suc_diff_Suc Suc_le_lessD)
  have "bitsOf (prefixMask (Suc n) w) = (bitsOf (prefixMask n w))[n := True]"
    unfolding step using Suc(2) by (intro bitsOf_set) simp
  also have "\<dots> = (replicate n True @ replicate (Suc m) False)[n := True]"
    using Suc m by simp
  also have "\<dots> = replicate n True @ True # replicate m False"
    by (simp add: list_update_append)
  finally show ?case using m by (simp add: replicate_append_same)
qed

text \<open>The recognised masks, one byte at a time.\<close>

lemma byteBits_lead: "byteBits (push_bit (8 - l) 0xFF) = replicate l True @ replicate (8 - l) False" if "l \<le> 8"
proof -
  from that have "l \<in> {0, 1, 2, 3, 4, 5, 6, 7, 8}" by auto
  then show ?thesis
    by (auto simp: byteBits_def bit_simps eval_nat_numeral)
qed

lemma leadingOnes_bits: "leadingOnes b = length (takeWhile id (byteBits b))"
proof -
  have "(b AND push_bit k 1 \<noteq> 0) = bit b k" for k
    by (simp add: and_exp_eq_0_iff_not_bit)
  then show ?thesis by (simp add: leadingOnes_def byteBits_def)
qed

lemma leadingOnes_le: "leadingOnes b \<le> 8"
  using length_takeWhile_le [of id "byteBits b"] by (simp add: leadingOnes_bits)

lemma byte_lead_iff: "b = push_bit (8 - leadingOnes b) 0xFF \<longleftrightarrow>
    (\<exists>l \<le> 8. byteBits b = replicate l True @ replicate (8 - l) False)"
  (is "?l = ?r")
proof
  assume ?l
  then have "byteBits b = replicate (leadingOnes b) True @ replicate (8 - leadingOnes b) False"
    using byteBits_lead [OF leadingOnes_le, of b] by simp
  then show ?r using leadingOnes_le by blast
next
  assume ?r
  then obtain l where l: "l \<le> 8" "byteBits b = replicate l True @ replicate (8 - l) False" by blast
  have "takeWhile id (replicate l True @ replicate k False) = replicate l True" for k
    by (induction l) (cases k; simp)+
  then have "leadingOnes b = l" by (simp add: leadingOnes_bits l(2))
  then show ?l using byteBits_lead [OF l(1)] l(2) by (simp add: byteBits_inj [symmetric])
qed

lemma leadingOnes_eq: "byteBits b = replicate l True @ replicate (8 - l) False \<Longrightarrow> l \<le> 8 \<Longrightarrow> leadingOnes b = l"
proof -
  assume "byteBits b = replicate l True @ replicate (8 - l) False"
  moreover have "takeWhile id (replicate l True @ replicate k False) = replicate l True" for k
    by (induction l) (cases k; simp)+
  ultimately show ?thesis by (simp add: leadingOnes_bits)
qed

lemma contiguous_Nil: "contiguousPrefixLen [] = Some 0"
  by (simp add: contiguousPrefixLen_def)

lemma contiguous_full: "contiguousPrefixLen (0xFF # ms) = map_option ((+) 8) (contiguousPrefixLen ms)"
  by (simp add: contiguousPrefixLen_def Let_def)

lemma contiguous_part:
  "b \<noteq> 0xFF \<Longrightarrow> contiguousPrefixLen (b # ms) =
    (if b = push_bit (8 - leadingOnes b) 0xFF \<and> list_all (\<lambda>c. c = 0) ms then Some (leadingOnes b) else None)"
  by (simp add: contiguousPrefixLen_def Let_def)

lemma byteBits_ones: "byteBits 0xFF = replicate 8 True"
  by (simp add: byteBits_def bit_simps eval_nat_numeral)

lemma byteBits_zero: "byteBits 0 = replicate 8 False"
  by (simp add: byteBits_def eval_nat_numeral)

lemma bitsOf_all_zero: "list_all (\<lambda>c. c = 0) ms \<longleftrightarrow> bitsOf ms = replicate (8 * length ms) False"
proof -
  have "list_all (\<lambda>c. c = 0) ms \<longleftrightarrow> ms = replicate (length ms) 0"
    by (induction ms) auto
  also have "\<dots> \<longleftrightarrow> bitsOf ms = bitsOf (replicate (length ms) 0)"
    by (subst bitsOf_inj) simp_all
  finally show ?thesis by (simp add: bitsOf_zeros)
qed

definition prefixBits :: "nat \<Rightarrow> byte list \<Rightarrow> bool" where
  "prefixBits n ms \<longleftrightarrow> n \<le> 8 * length ms \<and> bitsOf ms = replicate n True @ replicate (8 * length ms - n) False"

lemma replicate_True_False_eq:
  assumes "xs @ ys = replicate n True @ replicate m False" and "length xs = k"
  shows "xs = replicate (min k n) True @ replicate (k - n) False \<and> ys = replicate (n - k) True @ replicate (m - (k - n)) False"
proof -
  have "xs = take k (replicate n True @ replicate m False)" "ys = drop k (replicate n True @ replicate m False)"
    using assms by (metis append_eq_conv_conj)+
  moreover have "length xs + length ys = n + m" using arg_cong [OF assms(1), of length] by simp
  moreover from this have "min (k - n) m = k - n" using assms(2) by linarith
  ultimately show ?thesis by simp
qed

lemma contiguousPrefixLen_bits: "contiguousPrefixLen ms = Some n \<longleftrightarrow> prefixBits n ms"
proof (induction ms arbitrary: n)
  case Nil
  then show ?case by (auto simp: contiguous_Nil prefixBits_def)
next
  case (Cons b ms)
  show ?case
  proof (cases "b = 0xFF")
    case True
    have "prefixBits n (0xFF # ms) \<longleftrightarrow> 8 \<le> n \<and> prefixBits (n - 8) ms"
    proof
      assume p: "prefixBits n (0xFF # ms)"
      then have eq: "byteBits 0xFF @ bitsOf ms = replicate n True @ replicate (8 + 8 * length ms - n) False"
        and n: "n \<le> 8 + 8 * length ms" by (simp_all add: prefixBits_def)
      note parts = replicate_True_False_eq [OF eq length_byteBits]
      have "8 - n = 0"
      proof (rule ccontr)
        assume "8 - n \<noteq> 0"
        with conjunct1 [OF parts] have "False \<in> set (byteBits 0xFF)" by simp
        then show False by (simp add: byteBits_ones)
      qed
      then have "8 \<le> n" "8 + 8 * length ms - n - (8 - n) = 8 * length ms - (n - 8)" "n - 8 \<le> 8 * length ms"
        using n by auto
      with parts show "8 \<le> n \<and> prefixBits (n - 8) ms" by (simp add: prefixBits_def)
    next
      assume p: "8 \<le> n \<and> prefixBits (n - 8) ms"
      then have "replicate n True = replicate 8 True @ replicate (n - 8) True"
        by (simp add: replicate_add [symmetric])
      then have "bitsOf (0xFF # ms) = replicate n True @ replicate (8 * length ms - (n - 8)) False"
        using p by (simp only: bitsOf_simps byteBits_ones prefixBits_def append_assoc)
      moreover have "8 * length ms - (n - 8) = 8 * length (0xFF # ms) - n" "n \<le> 8 * length (0xFF # ms)"
        using p by (auto simp: prefixBits_def)
      ultimately show "prefixBits n (0xFF # ms)" by (simp only: prefixBits_def simp_thms)
    qed
    moreover have "contiguousPrefixLen (0xFF # ms) = Some n \<longleftrightarrow> 8 \<le> n \<and> contiguousPrefixLen ms = Some (n - 8)"
      by (auto simp: contiguous_full)
    ultimately show ?thesis using True Cons by simp
  next
    case False
    have "prefixBits n (b # ms) \<longleftrightarrow>
        n \<le> 8 \<and> byteBits b = replicate n True @ replicate (8 - n) False \<and> bitsOf ms = replicate (8 * length ms) False"
    proof
      assume p: "prefixBits n (b # ms)"
      then have eq: "byteBits b @ bitsOf ms = replicate n True @ replicate (8 + 8 * length ms - n) False"
        by (simp add: prefixBits_def)
      note parts = replicate_True_False_eq [OF eq length_byteBits]
      have "n < 8"
      proof (rule ccontr)
        assume "\<not> n < 8"
        with parts have "byteBits b = byteBits 0xFF" by (simp add: byteBits_ones min_def)
        with False show False by (simp add: byteBits_inj)
      qed
      with parts show "n \<le> 8 \<and> byteBits b = replicate n True @ replicate (8 - n) False \<and> bitsOf ms = replicate (8 * length ms) False"
        by (simp add: min_def)
    next
      assume "n \<le> 8 \<and> byteBits b = replicate n True @ replicate (8 - n) False \<and> bitsOf ms = replicate (8 * length ms) False"
      then show "prefixBits n (b # ms)" by (auto simp: prefixBits_def replicate_add [symmetric])
    qed
    moreover have "contiguousPrefixLen (b # ms) = Some n \<longleftrightarrow>
        (\<exists>l \<le> 8. byteBits b = replicate l True @ replicate (8 - l) False) \<and> n = leadingOnes b \<and>
        bitsOf ms = replicate (8 * length ms) False"
      unfolding contiguous_part [OF False] byte_lead_iff bitsOf_all_zero by auto
    ultimately show ?thesis using leadingOnes_eq by metis
  qed
qed

theorem contiguousPrefixLen_iff:
  "contiguousPrefixLen ms = Some n \<longleftrightarrow> n \<le> 8 * length ms \<and> ms = prefixMask n (length ms)"
proof -
  have "ms = prefixMask n (length ms) \<longleftrightarrow> bitsOf ms = bitsOf (prefixMask n (length ms))"
    by (subst bitsOf_inj) simp_all
  then show ?thesis
    unfolding contiguousPrefixLen_bits prefixBits_def
    by (cases "n \<le> 8 * length ms") (simp_all add: bitsOf_prefixMask)
qed

subsection \<open>Keys and intervals\<close>

lemma wfKey_parse:
  assumes "parseMaskedKey s = Inr k"
  shows "wfKey k"
proof -
  obtain addr m where a: "wfAddr addr" "length m = length (addr_bytes addr)"
      "k = \<lparr>mk_is4 = addr_is4 addr, mk_addr = map2 (AND) (addr_bytes addr) m, mk_mask = m\<rparr>"
    using assms
    by (auto simp: parseMaskedKey_def Let_def wfAddr_def split: option.splits if_splits
        dest!: ParseAddr_wf)
  have "map2 (AND) (map2 (AND) xs ys) ys = map2 (AND) xs ys" if "length xs = length ys" for xs ys :: "byte list"
    using that by (induction xs ys rule: list_induct2) simp_all
  with a show ?thesis by (auto simp: wfKey_def wfAddr_def)
qed

lemma map2_and_prefix:
  assumes "length xs = n + m" and "length ys = n + m" and "drop n ys = replicate m False"
  shows "map2 (\<and>) xs (replicate n True @ replicate m False) = ys \<longleftrightarrow> take n xs = take n ys"
proof -
  have id: "map2 (\<and>) as (replicate (length as) True) = as" for as by (induction as) auto
  have zero: "map2 (\<and>) as (replicate (length as) False) = replicate (length as) False" for as by (induction as) auto
  have x: "xs = take n xs @ drop n xs" "length (take n xs) = n" "length (drop n xs) = m"
    using assms by simp_all
  have "map2 (\<and>) xs (replicate n True @ replicate m False) =
      map2 (\<and>) (take n xs) (replicate n True) @ map2 (\<and>) (drop n xs) (replicate m False)"
    using x by (metis (no_types, lifting) length_replicate map_append zip_append)
  also have "\<dots> = take n xs @ replicate m False"
    using id [of "take n xs"] zero [of "drop n xs"] x by simp
  finally show ?thesis
    using assms(2,3) by (metis append_eq_conv_conj append_take_drop_id length_take x(2))
qed

lemma prefix_interval:
  assumes "length xs = n + m" and "length ys = n + m" and "drop n ys = replicate m False"
  shows "take n xs = take n ys \<longleftrightarrow> bitsValue ys \<le> bitsValue xs \<and> bitsValue xs \<le> bitsValue ys + 2 ^ m - 1"
proof -
  have split: "bitsValue zs = bitsValue (take n zs) * 2 ^ m + bitsValue (drop n zs)" if "length zs = n + m" for zs
    using that bitsValue_append [of "take n zs" "drop n zs"] by simp
  have zeros: "bitsValue (replicate k False) = 0" for k by (induction k) (simp_all add: bitsValue_def)
  have inj: "bitsValue as = bitsValue bs \<Longrightarrow> length as = length bs \<Longrightarrow> as = bs" for as bs
  proof (induction as arbitrary: bs rule: rev_induct)
    case (snoc a as)
    then obtain b bs' where bs: "bs = bs' @ [b]" "length bs' = length as" by (cases bs rule: rev_cases) auto
    with snoc(2) have "2 * bitsValue as + of_bool a = 2 * bitsValue bs' + of_bool b"
      by (simp add: bitsValue_append bitsValue_def [of "[_]"])
    then have "bitsValue as = bitsValue bs'" "a = b" by (cases a; cases b; simp; presburger)+
    with snoc(1) bs show ?case by simp
  qed simp
  define p q r where "p = bitsValue (take n xs)" and "q = bitsValue (take n ys)" and "r = bitsValue (drop n xs)"
  have vals: "bitsValue xs = p * 2 ^ m + r" "bitsValue ys = q * 2 ^ m" "0 \<le> r" "r < 2 ^ m"
    using split [OF assms(1)] split [OF assms(2)] assms(3) zeros bitsValue_bounds [of "drop n xs"] assms(1)
    by (simp_all add: p_def q_def r_def)
  have "take n xs = take n ys \<longleftrightarrow> p = q"
    using inj [of "take n xs" "take n ys"] assms by (auto simp: p_def q_def)
  also have "\<dots> \<longleftrightarrow> q * 2 ^ m \<le> p * 2 ^ m + r \<and> p * 2 ^ m + r \<le> q * 2 ^ m + 2 ^ m - 1"
  proof
    assume "q * 2 ^ m \<le> p * 2 ^ m + r \<and> p * 2 ^ m + r \<le> q * 2 ^ m + 2 ^ m - 1"
    then have "q * 2 ^ m < (p + 1) * 2 ^ m" "p * 2 ^ m < (q + 1) * 2 ^ m"
      using vals(3,4) by (simp_all add: distrib_right)
    then have "q < p + 1" "p < q + 1" by (simp_all only: mult_less_cancel_right_disj) auto
    then show "p = q" by simp
  qed (use vals in auto)
  finally show ?thesis by (simp add: vals)
qed

end
