(* ===== verification/DefaultTable.thy ===== *)
theory DefaultTable
  imports RuleSet MaskedKey
begin

text \<open>
  The default table, the rest of \<open>src/internal/rules/defaultruleset.go\<close>: normalisation
  of its entries, compilation of the buckets with reuse of unchanged ones, the coverage check, the
  order of the buckets and the lookup. The decoding of the JSON text is a parameter
  (\<open>jsonlib\<close>): the members of an object in source order, and the strict and the lenient
  decoding of a rule file.
\<close>

record jsonlib =
  json_object :: "string \<Rightarrow> (string \<times> string) list option"
  json_ruleFileStrict :: "string \<Rightarrow> RuleFile option"
  json_ruleFile :: "string \<Rightarrow> RuleFile option"

subsection \<open>Rule files as JSON\<close>

text \<open>
  The value \<open>json.Marshal\<close> encodes: fields tagged \<open>omitempty\<close> are left out when empty,
  members of a map are sorted by key.
\<close>

definition jfield :: "string \<Rightarrow> jsonv \<Rightarrow> bool \<Rightarrow> (string \<times> jsonv) list" where
  "jfield name v omit = (if omit then [] else [(name, v)])"

definition jstr :: "string \<Rightarrow> string \<Rightarrow> (string \<times> jsonv) list" where
  "jstr name s = jfield name (JStr s) (s = [])"

definition matchJSON :: "Match \<Rightarrow> jsonv" where
  "matchJSON m = JObj (jstr ''host'' (m_Host m) @ jstr ''port'' (m_Port m) @ jstr ''proto'' (m_Proto m) @
     jstr ''path'' (m_Path m) @ jstr ''method'' (m_Method m) @
     jfield ''header'' (JObj (sort_key fst (map (\<lambda>(k, v). (k, JStr v)) (m_Header m)))) (m_Header m = []) @
     jstr ''status'' (m_Status m))"

definition actionJSON :: "Action \<Rightarrow> jsonv" where
  "actionJSON a = JObj ((''action'', JStr (a_Action a)) #
     jfield ''params'' (JObj (sort_key fst (a_Params a))) (a_Params a = []))"

definition connectionJSON :: "Connection \<Rightarrow> jsonv" where
  "connectionJSON c = JObj [(''accept'', (case c_Accept c of None \<Rightarrow> JNull | Some b \<Rightarrow> JBool b))]"

definition ruleJSON :: "Rule \<Rightarrow> jsonv" where
  "ruleJSON r = JObj ((''match'', matchJSON (r_Match r)) #
     (case r_Connection r of None \<Rightarrow> [] | Some c \<Rightarrow> [(''connection'', connectionJSON c)]) @
     (case r_MITM r of None \<Rightarrow> [] | Some b \<Rightarrow> [(''mitm'', JBool b)]) @
     jfield ''request'' (JArr (map actionJSON (r_Request r))) (r_Request r = []) @
     jfield ''response'' (JArr (map actionJSON (r_Response r))) (r_Response r = []))"

definition egressJSON :: "EgressRule \<Rightarrow> jsonv" where
  "egressJSON e = JObj ((''cidr'', JStr (e_CIDR e)) # jstr ''port'' (e_Port e) @ jstr ''proto'' (e_Proto e) @
     [(''action'', JStr (e_Action e))])"

definition brokerJSON :: "AuthBroker \<Rightarrow> jsonv" where
  "brokerJSON b = JObj (jstr ''socket'' (ab_Socket b) @ jstr ''url'' (ab_URL b) @ jstr ''path'' (ab_Path b))"

definition httpProxyJSON :: "HTTPProxyAuth \<Rightarrow> jsonv" where
  "httpProxyJSON hp = JObj (jfield ''required'' (JBool True) (\<not> hp_Required hp) @ jstr ''realm'' (hp_Realm hp) @
     jfield ''basic'' (JArr (map (\<lambda>c. JObj [(''user'', JStr (bc_User c)), (''hash'', JStr (bc_Hash c))]) (hp_Basic hp))) (hp_Basic hp = []) @
     jfield ''bearer'' (JArr (map (\<lambda>c. JObj [(''id'', JStr (rc_ID c)), (''hash'', JStr (rc_Hash c))]) (hp_Bearer hp))) (hp_Bearer hp = []) @
     (case hp_Broker hp of None \<Rightarrow> [] | Some b \<Rightarrow> [(''broker'', brokerJSON b)]))"

definition authJSON :: "AuthConfig \<Rightarrow> jsonv" where
  "authJSON a = JObj (case ac_HTTPProxy a of None \<Rightarrow> [] | Some hp \<Rightarrow> [(''http_proxy'', httpProxyJSON hp)])"

definition httpJSON :: "Rule list \<Rightarrow> jsonv" where
  "httpJSON http = JArr (map ruleJSON http)"

definition ruleFileJSON :: "RuleFile \<Rightarrow> jsonv" where
  "ruleFileJSON rf = JObj (jstr ''uuid'' (rf_UUID rf) @
     (case rf_Auth rf of None \<Rightarrow> [] | Some a \<Rightarrow> [(''auth'', authJSON a)]) @
     [(''http'', httpJSON (rf_HTTP rf))] @
     (case rf_Egress rf of
        None \<Rightarrow> []
      | Some es \<Rightarrow> jfield ''egress'' (JArr (map egressJSON es)) (es = [])))"

definition contentHash :: "golib \<Rightarrow> RuleFile \<Rightarrow> string" where
  "contentHash G rf = sha256_Sum256 G (json_Marshal G (ruleFileJSON rf))"

subsection \<open>Entries\<close>

record parsedEntry =
  pe_key :: maskedKey
  pe_rule :: RuleFile

datatype tableError =
    NotAnObject
  | BadKey string keyError
  | BadEntry string
  | BadAuth string authError
  | BadRules string compileError
  | BadEgress string egressError
  | CoverageGap nat int int
  | NoEntries nat

text \<open>The position of an entry with the same canonical key is reused, so the last one wins.\<close>

definition putEntry :: "parsedEntry list \<Rightarrow> parsedEntry \<Rightarrow> parsedEntry list" where
  "putEntry entries pe =
     (let canon = canonical (pe_key pe) in
      if \<exists>i < length entries. canonical (pe_key (entries ! i)) = canon
      then map (\<lambda>e. if canonical (pe_key e) = canon then pe else e) entries
      else entries @ [pe])"

fun parseEntries :: "jsonlib \<Rightarrow> (string \<times> string) list \<Rightarrow> parsedEntry list \<Rightarrow> (tableError, parsedEntry list) res" where
  "parseEntries J [] entries = Inr entries"
| "parseEntries J ((k, raw) # res) entries =
     (case parseMaskedKey k of
        Inl e \<Rightarrow> Inl (BadKey k e)
      | Inr key \<Rightarrow>
          (case json_ruleFileStrict J raw of
             None \<Rightarrow> Inl (BadEntry k)
           | Some rf \<Rightarrow> parseEntries J res (putEntry entries \<lparr>pe_key = key, pe_rule = rf\<rparr>)))"

definition parseDefaultRuleset :: "jsonlib \<Rightarrow> string \<Rightarrow> (tableError, parsedEntry list) res" where
  "parseDefaultRuleset J data =
     (case json_object J data of None \<Rightarrow> Inl NotAnObject | Some raw \<Rightarrow> parseEntries J raw [])"

definition marshalCanonical :: "golib \<Rightarrow> parsedEntry list \<Rightarrow> string" where
  "marshalCanonical G entries =
     json_Marshal G (JObj (sort_key fst (map (\<lambda>pe. (canonical (pe_key pe), ruleFileJSON (pe_rule pe))) entries)))"

subsection \<open>Coverage\<close>

text \<open>The inclusive range of a prefix, over unbounded integers.\<close>

definition prefixRange :: "Prefix \<Rightarrow> int \<times> int" where
  "prefixRange p =
     (let start = bytesValue (addr_bytes (pfx_addr p)); hostBits = BitLen (pfx_addr p) - pfx_bits p in
      (start, start + 2 ^ hostBits - 1))"

fun coverSpans :: "(int \<times> int) list \<Rightarrow> int \<Rightarrow> (int \<times> int) + int" where
  "coverSpans [] covered = Inr covered"
| "coverSpans ((start, fin) # spans) covered =
     (if covered + 1 < start then Inl (covered + 1, start - 1)
      else coverSpans spans (if covered < fin then fin else covered))"

definition checkCoverage :: "Prefix list \<Rightarrow> nat \<Rightarrow> (tableError, unit) res" where
  "checkCoverage prefixes bits =
     (if prefixes = [] then Inl (NoEntries bits)
      else case coverSpans (sort_key fst (map prefixRange prefixes)) (-1) of
        Inl (a, b) \<Rightarrow> Inl (CoverageGap bits a b)
      | Inr covered \<Rightarrow>
          let maxAddr = 2 ^ bits - 1 in
          if covered < maxAddr then Inl (CoverageGap bits (covered + 1) maxAddr) else Inr ())"

subsection \<open>Compilation and lookup\<close>

record compiledBucket =
  cb_key :: maskedKey
  cb_label :: string
  cb_rules :: RuleSet
  cb_contentHash :: string

record DefaultRuleset =
  dr_v4 :: "compiledBucket list"
  dr_v6 :: "compiledBucket list"

definition bucketByLabel :: "DefaultRuleset option \<Rightarrow> string \<Rightarrow> compiledBucket option" where
  "bucketByLabel d label =
     (case d of None \<Rightarrow> None | Some t \<Rightarrow> find (\<lambda>b. cb_label b = label) (rev (dr_v4 t @ dr_v6 t)))"

type_synonym httpPolicies = "(string \<times> (CompiledRule list \<times> hostCandidateIndex)) list"

definition httpPolicy ::
    "golib \<Rightarrow> string \<Rightarrow> Rule list \<Rightarrow> httpPolicies \<Rightarrow> (tableError, (CompiledRule list \<times> hostCandidateIndex) \<times> httpPolicies) res" where
  "httpPolicy G label http policies =
     (let key = json_Marshal G (httpJSON http) in
      case map_of policies key of
        Some p \<Rightarrow> Inr (p, policies)
      | None \<Rightarrow>
          (case Compile G http of
             Inl e \<Rightarrow> Inl (BadRules label e)
           | Inr compiled \<Rightarrow>
               let p = (compiled, buildHostCandidateIndex compiled) in Inr (p, (key, p) # policies)))"

definition compileBucket ::
    "golib \<Rightarrow> DefaultRuleset option \<Rightarrow> parsedEntry \<Rightarrow> httpPolicies \<Rightarrow> (tableError, compiledBucket \<times> httpPolicies) res" where
  "compileBucket G prev pe policies =
     (let label = canonical (pe_key pe); rf = pe_rule pe; hash = contentHash G rf;
          fresh = bindR (case CompileAuth (rf_Auth rf) of Inl e \<Rightarrow> Inl (BadAuth label e) | Inr a \<Rightarrow> Inr a) (\<lambda>auth.
            bindR (httpPolicy G label (rf_HTTP rf) policies) (\<lambda>((rules, idx), policies').
            bindR (case rf_Egress rf of
                     None \<Rightarrow> Inr []
                   | Some es \<Rightarrow> (case CompileEgress G es of Inl e \<Rightarrow> Inl (BadEgress label e) | Inr ces \<Rightarrow> Inr ces)) (\<lambda>egress.
            Inr (\<lparr>cb_key = pe_key pe, cb_label = label,
                  cb_rules = newRuleSetWithHostIndex rules idx egress (rf_UUID rf) auth, cb_contentHash = hash\<rparr>, policies'))))
      in case bucketByLabel prev label of
           Some b \<Rightarrow>
             if cb_contentHash b = hash
             then Inr (\<lparr>cb_key = pe_key pe, cb_label = label, cb_rules = cb_rules b, cb_contentHash = hash\<rparr>, policies)
             else fresh
         | None \<Rightarrow> fresh)"

fun compileBuckets ::
    "golib \<Rightarrow> DefaultRuleset option \<Rightarrow> parsedEntry list \<Rightarrow> httpPolicies \<Rightarrow> (tableError, compiledBucket list) res" where
  "compileBuckets G prev [] policies = Inr []"
| "compileBuckets G prev (pe # pes) policies =
     bindR (compileBucket G prev pe policies) (\<lambda>(b, policies').
     bindR (compileBuckets G prev pes policies') (\<lambda>bs. Inr (b # bs)))"

definition keyPrefix :: "maskedKey \<Rightarrow> Prefix option" where
  "keyPrefix k =
     (case contiguousPrefixLen (mk_mask k) of
        None \<Rightarrow> None
      | Some n \<Rightarrow> map_option (\<lambda>a. \<lparr>pfx_addr = a, pfx_bits = n\<rparr>) (AddrFromSlice (mk_addr k)))"

definition sortByMaskDescending :: "compiledBucket list \<Rightarrow> compiledBucket list" where
  "sortByMaskDescending bs = rev (sort_key (\<lambda>b. mk_mask (cb_key b)) (rev bs))"

definition compileParsedEntries ::
    "golib \<Rightarrow> parsedEntry list \<Rightarrow> DefaultRuleset option \<Rightarrow> (tableError, DefaultRuleset) res" where
  "compileParsedEntries G entries prev =
     bindR (compileBuckets G prev entries []) (\<lambda>bs.
     let is4 = (\<lambda>pe. mk_is4 (pe_key pe));
         prefixes = (\<lambda>pes. List.map_filter (\<lambda>pe. keyPrefix (pe_key pe)) pes) in
     bindR (checkCoverage (prefixes (filter is4 entries)) 32) (\<lambda>_.
     bindR (checkCoverage (prefixes (filter (\<lambda>pe. \<not> is4 pe) entries)) 128) (\<lambda>_.
     Inr \<lparr>dr_v4 = sortByMaskDescending (filter (\<lambda>b. mk_is4 (cb_key b)) bs),
          dr_v6 = sortByMaskDescending (filter (\<lambda>b. \<not> mk_is4 (cb_key b)) bs)\<rparr>)))"

definition CompileDefaultRuleset :: "golib \<Rightarrow> jsonlib \<Rightarrow> string \<Rightarrow> (tableError, DefaultRuleset \<times> string) res" where
  "CompileDefaultRuleset G J data =
     bindR (parseDefaultRuleset J data) (\<lambda>entries.
     bindR (compileParsedEntries G entries None) (\<lambda>d.
     Inr (d, marshalCanonical G entries)))"

definition table_Lookup :: "DefaultRuleset \<Rightarrow> Addr \<Rightarrow> RuleSet option" where
  "table_Lookup d addr =
     map_option cb_rules
       (find (\<lambda>b. key_contains (cb_key b) (addr_bytes addr)) (if addr_is4 addr then dr_v4 d else dr_v6 d))"

definition Buckets :: "DefaultRuleset \<Rightarrow> (string \<times> RuleSet) list" where
  "Buckets d = map (\<lambda>b. (cb_label b, cb_rules b)) (dr_v4 d @ dr_v6 d)"

subsection \<open>The coverage check\<close>

lemma coverSpans_Inr:
  "coverSpans spans c = Inr m \<Longrightarrow>
    c \<le> m \<and> (\<forall>n. c < n \<and> n \<le> m \<longrightarrow> (\<exists>(s, f) \<in> set spans. s \<le> n \<and> n \<le> f)) \<and>
    (\<forall>(s, f) \<in> set spans. f \<le> m)"
proof (induction spans c rule: coverSpans.induct)
  case (2 start fin spans covered)
  let ?c = "if covered < fin then fin else covered"
  from 2(2) have start: "start \<le> covered + 1" and rest: "coverSpans spans ?c = Inr m"
    by (auto split: if_splits)
  have IH: "?c \<le> m" "\<forall>n. ?c < n \<and> n \<le> m \<longrightarrow> (\<exists>(s, f) \<in> set spans. s \<le> n \<and> n \<le> f)"
      "\<forall>(s, f) \<in> set spans. f \<le> m"
    using 2(1) [OF _ rest] start by auto
  have "\<exists>(s, f) \<in> set ((start, fin) # spans). s \<le> n \<and> n \<le> f" if "covered < n" "n \<le> m" for n
  proof (cases "n \<le> ?c")
    case True
    with that start show ?thesis by (auto split: if_splits)
  next
    case False
    with IH(2) that show ?thesis by auto
  qed
  with IH(1,3) show ?case by (auto split: if_splits)
qed simp

lemma coverSpans_Inl:
  assumes "coverSpans spans c = Inl (a, b)" and "sorted (map fst spans)"
  shows "c < a \<and> a \<le> b \<and> b + 1 \<in> fst ` set spans \<and> (\<forall>n. a \<le> n \<and> n \<le> b \<longrightarrow> (\<forall>(s, f) \<in> set spans. \<not> (s \<le> n \<and> n \<le> f)))"
  using assms
proof (induction spans c rule: coverSpans.induct)
  case (2 start fin spans covered)
  show ?case
  proof (cases "covered + 1 < start")
    case True
    with 2(2,3) show ?thesis by force
  next
    case False
    let ?c = "if covered < fin then fin else covered"
    have "coverSpans spans ?c = Inl (a, b)" using 2(2) False by simp
    from 2(1) [OF False this] 2(3)
    have ih: "?c < a" "a \<le> b" "b + 1 \<in> fst ` set spans"
        "\<forall>n. a \<le> n \<and> n \<le> b \<longrightarrow> (\<forall>(s, f) \<in> set spans. \<not> (s \<le> n \<and> n \<le> f))" by auto
    have "fin < a" "covered < a" using ih(1) by (auto split: if_splits)
    then show ?thesis using ih(2-4) by auto
  qed
qed simp

definition wfPrefix :: "nat \<Rightarrow> Prefix \<Rightarrow> bool" where
  "wfPrefix bits p \<longleftrightarrow> BitLen (pfx_addr p) = bits \<and> wfAddr (pfx_addr p) \<and> pfx_bits p \<le> bits"

lemma bytesValue_bounds: "0 \<le> bytesValue bs \<and> bytesValue bs < 2 ^ (8 * length bs)"
  using bitsValue_bounds [of "bitsOf bs"] by (simp add: bytesValue_bits)

lemma wfAddr_value: "wfAddr a \<Longrightarrow> 0 \<le> bytesValue (addr_bytes a) \<and> bytesValue (addr_bytes a) < 2 ^ BitLen a"
  using bytesValue_bounds [of "addr_bytes a"] by (auto simp: wfAddr_def BitLen_def split: if_splits)

definition inRange :: "int \<Rightarrow> Prefix \<Rightarrow> bool" where
  "inRange n p \<longleftrightarrow> fst (prefixRange p) \<le> n \<and> n \<le> snd (prefixRange p)"

text \<open>The outcome of the check over the number line: accepted and everything covered, or the gap it names.\<close>

lemma checkCoverage_cases:
  assumes wf: "\<forall>p \<in> set prefixes. wfPrefix bits p"
  shows "(case checkCoverage prefixes bits of
      Inr _ \<Rightarrow> \<forall>n. 0 \<le> n \<and> n < 2 ^ bits \<longrightarrow> (\<exists>p \<in> set prefixes. inRange n p)
    | Inl (CoverageGap w lo hi) \<Rightarrow> w = bits \<and> 0 \<le> lo \<and> lo \<le> hi \<and> hi < 2 ^ bits \<and>
        (\<forall>n. lo \<le> n \<and> n \<le> hi \<longrightarrow> \<not> (\<exists>p \<in> set prefixes. inRange n p))
    | Inl e \<Rightarrow> e = NoEntries bits \<and> prefixes = [])"
proof (cases "prefixes = []")
  case True
  then show ?thesis by (simp add: checkCoverage_def)
next
  case False
  define spans where "spans = sort_key fst (map prefixRange prefixes)"
  have mem: "(\<exists>(s, f) \<in> set spans. s \<le> n \<and> n \<le> f) \<longleftrightarrow> (\<exists>p \<in> set prefixes. inRange n p)" for n
    by (force simp: spans_def inRange_def)
  have sorted: "sorted (map fst spans)" by (simp add: spans_def)
  have start: "s < 2 ^ bits" if "s \<in> fst ` set spans" for s
    using that wf wfAddr_value by (fastforce simp: spans_def prefixRange_def Let_def wfPrefix_def)
  show ?thesis
  proof (cases "coverSpans spans (-1)")
    case (Inl ab)
    obtain a b where ab: "ab = (a, b)" by (cases ab)
    note gap = coverSpans_Inl [OF Inl [unfolded ab] sorted]
    have "checkCoverage prefixes bits = Inl (CoverageGap bits a b)"
      using Inl ab False by (simp add: checkCoverage_def spans_def)
    moreover have "\<not> (\<exists>p \<in> set prefixes. inRange n p)" if "a \<le> n" "n \<le> b" for n
      using gap mem [of n] that by auto
    ultimately show ?thesis using gap start [of "b + 1"] by simp
  next
    case (Inr m)
    note cov = coverSpans_Inr [OF Inr]
    have upto: "\<exists>p \<in> set prefixes. inRange n p" if "0 \<le> n" "n \<le> m" for n
      using cov mem [of n] that by simp
    have above: "\<not> (\<exists>p \<in> set prefixes. inRange n p)" if "m < n" for n
      using cov mem [of n] that by fastforce
    have "checkCoverage prefixes bits = (if m < 2 ^ bits - 1 then Inl (CoverageGap bits (m + 1) (2 ^ bits - 1)) else Inr ())"
      using Inr False by (simp add: checkCoverage_def spans_def Let_def)
    then show ?thesis using upto above cov by (cases "m < 2 ^ bits - 1") auto
  qed
qed

lemma checkCoverage_iff:
  assumes "\<forall>p \<in> set prefixes. wfPrefix bits p"
  shows "checkCoverage prefixes bits = Inr () \<longleftrightarrow> (\<forall>n. 0 \<le> n \<and> n < 2 ^ bits \<longrightarrow> (\<exists>p \<in> set prefixes. inRange n p))"
proof (cases "checkCoverage prefixes bits")
  case (Inr u)
  with checkCoverage_cases [OF assms] show ?thesis by simp
next
  case (Inl e)
  have "\<exists>n. 0 \<le> n \<and> n < 2 ^ bits \<and> \<not> (\<exists>p \<in> set prefixes. inRange n p)"
    using checkCoverage_cases [OF assms] unfolding Inl
  proof (cases e)
    case (CoverageGap w lo hi)
    with checkCoverage_cases [OF assms] Inl show ?thesis by (intro exI [of _ lo]) auto
  qed (auto intro!: exI [of _ 0])
  with Inl show ?thesis by auto
qed

subsection \<open>Keys against prefixes\<close>

lemma key_contains_prefix:
  assumes k: "wfKey k" and n: "contiguousPrefixLen (mk_mask k) = Some n" and ab: "length ab = length (mk_mask k)"
  shows "key_contains k ab \<longleftrightarrow>
    bytesValue (mk_addr k) \<le> bytesValue ab \<and> bytesValue ab \<le> bytesValue (mk_addr k) + 2 ^ (8 * length ab - n) - 1"
proof -
  let ?m = "8 * length ab - n"
  have len: "length (mk_addr k) = length ab" using k ab by (simp add: wfKey_def)
  have bits: "n \<le> 8 * length ab" "bitsOf (mk_mask k) = replicate n True @ replicate ?m False"
    using n ab by (simp_all add: contiguousPrefixLen_bits prefixBits_def)
  have total: "n + ?m = 8 * length ab" using bits(1) by simp
  have addr: "map2 (\<and>) (bitsOf (mk_addr k)) (replicate n True @ replicate ?m False) = bitsOf (mk_addr k)"
    using k ab len bits(2) bitsOf_and [of "mk_addr k" "mk_mask k"] by (simp add: wfKey_def)
  have drop: "drop n (bitsOf (mk_addr k)) = replicate ?m False"
  proof -
    have zero: "map2 (\<and>) as (replicate (length as) False) = replicate (length as) False" for as by (induction as) auto
    have "drop n (map2 (\<and>) (bitsOf (mk_addr k)) (replicate n True @ replicate ?m False)) =
        map2 (\<and>) (drop n (bitsOf (mk_addr k))) (replicate ?m False)"
      by (simp add: drop_map drop_zip)
    also have "\<dots> = replicate ?m False"
      using zero [of "drop n (bitsOf (mk_addr k))"] len by simp
    finally show ?thesis using addr by simp
  qed
  have "key_contains k ab \<longleftrightarrow> bitsOf (map2 (AND) ab (mk_mask k)) = bitsOf (mk_addr k)"
    unfolding key_contains_def using ab len by (subst bitsOf_inj) simp_all
  also have "\<dots> \<longleftrightarrow> map2 (\<and>) (bitsOf ab) (replicate n True @ replicate ?m False) = bitsOf (mk_addr k)"
    using ab bits(2) by (simp add: bitsOf_and)
  also have "\<dots> \<longleftrightarrow> take n (bitsOf ab) = take n (bitsOf (mk_addr k))"
    using total len drop by (intro map2_and_prefix) simp_all
  also have "\<dots> \<longleftrightarrow> bitsValue (bitsOf (mk_addr k)) \<le> bitsValue (bitsOf ab) \<and>
      bitsValue (bitsOf ab) \<le> bitsValue (bitsOf (mk_addr k)) + 2 ^ ?m - 1"
    using total len drop by (intro prefix_interval) simp_all
  finally show ?thesis by (simp add: bytesValue_bits)
qed

lemma keyPrefix_wf:
  assumes "wfKey k" and "keyPrefix k = Some p"
  shows "wfPrefix (if mk_is4 k then 32 else 128) p" and "pfx_addr p = (if mk_is4 k then v4Addr (mk_addr k) else v6Addr (mk_addr k) [])"
    and "contiguousPrefixLen (mk_mask k) = Some (pfx_bits p)"
proof -
  obtain n where n: "contiguousPrefixLen (mk_mask k) = Some n" "pfx_bits p = n"
      "AddrFromSlice (mk_addr k) = Some (pfx_addr p)"
    using assms(2) by (auto simp: keyPrefix_def split: option.splits)
  then have "n \<le> 8 * length (mk_mask k)" by (simp add: contiguousPrefixLen_bits prefixBits_def)
  moreover show addr: "pfx_addr p = (if mk_is4 k then v4Addr (mk_addr k) else v6Addr (mk_addr k) [])"
    using assms(1) n(3) by (auto simp: wfKey_def AddrFromSlice_def split: if_splits)
  ultimately show "wfPrefix (if mk_is4 k then 32 else 128) p"
    using assms(1) n(2)
    by (auto simp: wfPrefix_def wfKey_def wfAddr_def addr BitLen_def v4Addr_def v6Addr_def)
  show "contiguousPrefixLen (mk_mask k) = Some (pfx_bits p)" using n by simp
qed

lemma inRange_contains:
  assumes k: "wfKey k" and p: "keyPrefix k = Some p" and a: "wfAddr a" "addr_is4 a = mk_is4 k"
  shows "inRange (bytesValue (addr_bytes a)) p \<longleftrightarrow> key_contains k (addr_bytes a)"
proof -
  note kp = keyPrefix_wf [OF k p]
  have len: "length (addr_bytes a) = length (mk_mask k)" using k a by (simp add: wfKey_def wfAddr_def)
  have "BitLen (pfx_addr p) = 8 * length (addr_bytes a)" "addr_bytes (pfx_addr p) = mk_addr k"
    using kp(2) a by (auto simp: BitLen_def v4Addr_def v6Addr_def wfAddr_def)
  then show ?thesis
    using key_contains_prefix [OF k kp(3) len] by (simp add: inRange_def prefixRange_def Let_def)
qed

subsection \<open>The compiled buckets\<close>

lemma compileBuckets_keys:
  "compileBuckets G prev pes policies = Inr bs \<Longrightarrow> map cb_key bs = map pe_key pes \<and> map cb_label bs = map (\<lambda>pe. canonical (pe_key pe)) pes"
proof (induction G prev pes policies arbitrary: bs rule: compileBuckets.induct)
  case (2 G prev pe pes policies)
  then obtain b policies' bs' where b: "compileBucket G prev pe policies = Inr (b, policies')"
      "compileBuckets G prev pes policies' = Inr bs'" "bs = b # bs'"
    by (auto split: prod.splits)
  then have "cb_key b = pe_key pe \<and> cb_label b = canonical (pe_key pe)"
    by (auto simp: compileBucket_def Let_def split: option.splits if_splits sum.splits prod.splits)
  with b 2(1) [OF b(2)] show ?case by auto
qed simp

lemma set_sortByMask [simp]: "set (sortByMaskDescending bs) = set bs"
  by (simp add: sortByMaskDescending_def)

lemma sorted_sortByMask: "sorted (rev (map (\<lambda>b. mk_mask (cb_key b)) (sortByMaskDescending bs)))"
  by (simp add: sortByMaskDescending_def rev_map)

lemma parseEntries_wf:
  "parseEntries J raw entries = Inr out \<Longrightarrow> \<forall>pe \<in> set entries. wfKey (pe_key pe) \<Longrightarrow> \<forall>pe \<in> set out. wfKey (pe_key pe)"
proof (induction J raw entries rule: parseEntries.induct)
  case (2 J k raw res entries)
  from 2(2) obtain key rf where step: "parseMaskedKey k = Inr key" "json_ruleFileStrict J raw = Some rf"
      "parseEntries J res (putEntry entries \<lparr>pe_key = key, pe_rule = rf\<rparr>) = Inr out"
    by (auto split: sum.splits option.splits)
  have "\<forall>pe \<in> set (putEntry entries \<lparr>pe_key = key, pe_rule = rf\<rparr>). wfKey (pe_key pe)"
    using 2(3) wfKey_parse [OF step(1)] by (auto simp: putEntry_def Let_def)
  from 2(1) [OF step this] show ?case .
qed simp

lemma putEntry_distinct:
  assumes "distinct (map (\<lambda>pe. canonical (pe_key pe)) entries)"
  shows "distinct (map (\<lambda>pe. canonical (pe_key pe)) (putEntry entries pe))"
proof (cases "\<exists>i < length entries. canonical (pe_key (entries ! i)) = canonical (pe_key pe)")
  case True
  then have "map (\<lambda>pe. canonical (pe_key pe)) (putEntry entries pe) = map (\<lambda>pe. canonical (pe_key pe)) entries"
    by (auto simp: putEntry_def Let_def)
  with assms show ?thesis by simp
next
  case False
  with assms show ?thesis by (auto simp: putEntry_def Let_def in_set_conv_nth)
qed

lemma parseEntries_distinct:
  "parseEntries J raw entries = Inr out \<Longrightarrow> distinct (map (\<lambda>pe. canonical (pe_key pe)) entries) \<Longrightarrow>
    distinct (map (\<lambda>pe. canonical (pe_key pe)) out)"
proof (induction J raw entries rule: parseEntries.induct)
  case (2 J k raw res entries)
  then show ?case by (auto split: sum.splits option.splits intro: putEntry_distinct)
qed simp

lemma parseDefaultRuleset_wf:
  assumes "parseDefaultRuleset J data = Inr entries"
  shows "\<forall>pe \<in> set entries. wfKey (pe_key pe)" and "distinct (map (\<lambda>pe. canonical (pe_key pe)) entries)"
  using assms parseEntries_wf [of J _ "[]" entries] parseEntries_distinct [of J _ "[]" entries]
  by (auto simp: parseDefaultRuleset_def split: option.splits)

definition family :: "DefaultRuleset \<Rightarrow> bool \<Rightarrow> compiledBucket list" where
  "family d is4 = (if is4 then dr_v4 d else dr_v6 d)"

lemma compileParsedEntries_Inr:
  assumes "compileParsedEntries G entries prev = Inr d"
  obtains bs where "compileBuckets G prev entries [] = Inr bs"
    "\<And>is4. family d is4 = sortByMaskDescending (filter (\<lambda>b. mk_is4 (cb_key b) = is4) bs)"
    "\<And>is4. checkCoverage (List.map_filter (\<lambda>pe. keyPrefix (pe_key pe)) (filter (\<lambda>pe. mk_is4 (pe_key pe) = is4) entries))
       (if is4 then 32 else 128) = Inr ()"
proof -
  from assms obtain bs where bs: "compileBuckets G prev entries [] = Inr bs"
      "checkCoverage (List.map_filter (\<lambda>pe. keyPrefix (pe_key pe)) (filter (\<lambda>pe. mk_is4 (pe_key pe)) entries)) 32 = Inr ()"
      "checkCoverage (List.map_filter (\<lambda>pe. keyPrefix (pe_key pe)) (filter (\<lambda>pe. \<not> mk_is4 (pe_key pe)) entries)) 128 = Inr ()"
      "d = \<lparr>dr_v4 = sortByMaskDescending (filter (\<lambda>b. mk_is4 (cb_key b)) bs),
          dr_v6 = sortByMaskDescending (filter (\<lambda>b. \<not> mk_is4 (cb_key b)) bs)\<rparr>"
    by (auto simp: compileParsedEntries_def Let_def)
  show thesis
  proof (rule that [OF bs(1)])
    show "family d is4 = sortByMaskDescending (filter (\<lambda>b. mk_is4 (cb_key b) = is4) bs)" for is4
      by (cases is4) (simp_all add: family_def bs(4))
    show "checkCoverage (List.map_filter (\<lambda>pe. keyPrefix (pe_key pe)) (filter (\<lambda>pe. mk_is4 (pe_key pe) = is4) entries))
       (if is4 then 32 else 128) = Inr ()" for is4
      using bs(2,3) by (cases is4) simp_all
  qed
qed

lemma table_Lookup_total:
  assumes "compileParsedEntries G entries prev = Inr d" and wf: "\<forall>pe \<in> set entries. wfKey (pe_key pe)" and a: "wfAddr a"
  shows "\<exists>b \<in> set (family d (addr_is4 a)). key_contains (cb_key b) (addr_bytes a)"
proof -
  let ?is4 = "addr_is4 a" and ?bits = "if addr_is4 a then 32 else 128 :: nat"
  from assms(1) obtain bs where bs: "compileBuckets G prev entries [] = Inr bs"
      "family d ?is4 = sortByMaskDescending (filter (\<lambda>b. mk_is4 (cb_key b) = ?is4) bs)"
      "checkCoverage (List.map_filter (\<lambda>pe. keyPrefix (pe_key pe)) (filter (\<lambda>pe. mk_is4 (pe_key pe) = ?is4) entries)) ?bits = Inr ()"
    by (rule compileParsedEntries_Inr) blast
  define ps where "ps = List.map_filter (\<lambda>pe. keyPrefix (pe_key pe)) (filter (\<lambda>pe. mk_is4 (pe_key pe) = ?is4) entries)"
  have mem: "p \<in> set ps \<longleftrightarrow> (\<exists>pe \<in> set entries. mk_is4 (pe_key pe) = ?is4 \<and> keyPrefix (pe_key pe) = Some p)" for p
    by (force simp: ps_def List.map_filter_def)
  have "\<forall>p \<in> set ps. wfPrefix ?bits p" using wf keyPrefix_wf(1) by (fastforce simp: mem)
  from checkCoverage_iff [OF this] bs(3) wfAddr_value [OF a]
  obtain p where "p \<in> set ps" "inRange (bytesValue (addr_bytes a)) p"
    by (auto simp: ps_def BitLen_def split: if_splits)
  then obtain pe where pe: "pe \<in> set entries" "mk_is4 (pe_key pe) = ?is4" "key_contains (pe_key pe) (addr_bytes a)"
    using inRange_contains wf a by (auto simp: mem)
  have "pe_key pe \<in> set (map cb_key bs)" using compileBuckets_keys [OF bs(1)] pe(1) by simp
  with pe bs(2) show ?thesis by auto
qed

subsection \<open>The order of the buckets\<close>

lemma bytes_less_value:
  "length as = length bs \<Longrightarrow> as < bs \<longleftrightarrow> bytesValue as < bytesValue (bs :: byte list)"
proof (induction as bs rule: list_induct2)
  case (Cons a as b bs)
  have val: "bytesValue (c # cs) = uint c * 2 ^ (8 * length cs) + bytesValue cs" for c and cs :: "byte list"
    using bitsValue_append [of "byteBits c" "bitsOf cs"] by (simp add: bytesValue_bits bitsValue_byteBits)
  have bound: "0 \<le> bytesValue cs" "bytesValue cs < 2 ^ (8 * length cs)" for cs :: "byte list"
    using bytesValue_bounds [of cs] by auto
  let ?k = "2 ^ (8 * length bs) :: int"
  have step: "x * ?k + bytesValue as < y * ?k + bytesValue bs" if "x < y" for x y :: int
  proof -
    have "(x + 1) * ?k \<le> y * ?k" using that by (intro mult_right_mono) simp_all
    then show ?thesis using bound [of as] bound [of bs] Cons(1) by (simp add: distrib_right)
  qed
  have step': "y * ?k + bytesValue bs < x * ?k + bytesValue as" if "y < x" for x y :: int
  proof -
    have "(y + 1) * ?k \<le> x * ?k" using that by (intro mult_right_mono) simp_all
    then show ?thesis using bound [of as] bound [of bs] Cons(1) by (simp add: distrib_right)
  qed
  consider "uint a < uint b" | "uint b < uint a" | "a = b" by (metis linorder_neqE word_uint_eqI)
  then show ?case
  proof cases
    case 1
    then show ?thesis using step [OF 1] Cons(1) by (simp add: val word_less_def)
  next
    case 2
    then show ?thesis using step' [OF 2] Cons(1) by (auto simp: val word_less_def)
  next
    case 3
    then show ?thesis using Cons by (simp add: val)
  qed
qed simp

text \<open>A longer prefix has the greater mask.\<close>

lemma prefixMask_mono:
  assumes "n < m" and "m \<le> 8 * w"
  shows "prefixMask n w < prefixMask m w"
proof -
  have zeros: "bitsValue (replicate k False) = 0" for k by (induction k) (simp_all add: bitsValue_def)
  have ones: "bitsValue (replicate k True) = 2 ^ k - 1" for k
  proof (induction k)
    case (Suc k)
    have "bitsValue (True # replicate k True) = 2 ^ k + bitsValue (replicate k True)"
      using bitsValue_append [of "[True]" "replicate k True"] by (simp add: bitsValue_def)
    with Suc show ?case by simp
  qed simp
  have val: "bytesValue (prefixMask k w) = 2 ^ (8 * w) - 2 ^ (8 * w - k)" if "k \<le> 8 * w" for k
  proof -
    have "bytesValue (prefixMask k w) = (2 ^ k - 1) * 2 ^ (8 * w - k)"
      using that by (simp add: bytesValue_bits bitsOf_prefixMask bitsValue_append zeros ones)
    also have "\<dots> = 2 ^ (k + (8 * w - k)) - 2 ^ (8 * w - k)" by (simp add: left_diff_distrib power_add)
    finally show ?thesis using that by simp
  qed
  have "(2 :: int) ^ (8 * w - m) < 2 ^ (8 * w - n)" using assms by (intro power_strict_increasing) simp_all
  then show ?thesis
    using assms by (simp add: bytes_less_value val)
qed

text \<open>
  The first match in a list sorted by descending mask is the match with the greatest mask, whatever
  the order of equal masks; and equal masks cannot both match under different keys.
\<close>

lemma find_descending:
  assumes "sorted (rev (map f xs))" and "find P xs = Some x"
  shows "P x" and "x \<in> set xs" and "\<And>y. y \<in> set xs \<Longrightarrow> P y \<Longrightarrow> f y \<le> f x"
proof -
  from assms(2) obtain as bs where xs: "xs = as @ x # bs" "P x" "\<forall>a \<in> set as. \<not> P a"
    by (auto simp: find_Some_split)
  from xs show "P x" "x \<in> set xs" by simp_all
  fix y assume "y \<in> set xs" "P y"
  with xs have "y = x \<or> y \<in> set bs" by auto
  with assms(1) xs(1) show "f y \<le> f x" by (auto simp: sorted_append)
qed

lemma contains_same_mask:
  assumes "key_contains k ab" "key_contains k' ab" "mk_mask k = mk_mask k'" "mk_is4 k = mk_is4 k'"
  shows "k = k'"
  using assms by (cases k; cases k') (simp add: key_contains_def)

subsection \<open>What a freshly compiled bucket holds\<close>

definition freshRuleSet :: "golib \<Rightarrow> RuleFile \<Rightarrow> RuleSet option" where
  "freshRuleSet G rf =
     (case (CompileAuth (rf_Auth rf), Compile G (rf_HTTP rf),
            (case rf_Egress rf of None \<Rightarrow> Inr [] | Some es \<Rightarrow> CompileEgress G es)) of
        (Inr auth, Inr rules, Inr egress) \<Rightarrow> Some (newRuleSet rules egress (rf_UUID rf) auth)
      | _ \<Rightarrow> None)"

text \<open>Policies are shared between buckets by their JSON text; sharing is sound when equal texts compile alike.\<close>

definition policiesApart :: "golib \<Rightarrow> parsedEntry list \<Rightarrow> bool" where
  "policiesApart G entries \<longleftrightarrow>
     list_all (\<lambda>pe. list_all (\<lambda>pe'.
       json_Marshal G (httpJSON (rf_HTTP (pe_rule pe))) = json_Marshal G (httpJSON (rf_HTTP (pe_rule pe'))) \<longrightarrow>
       rf_HTTP (pe_rule pe) = rf_HTTP (pe_rule pe')) entries) entries"

definition policiesFrom :: "golib \<Rightarrow> parsedEntry list \<Rightarrow> httpPolicies \<Rightarrow> bool" where
  "policiesFrom G entries policies \<longleftrightarrow>
     (\<forall>(key, rules, idx) \<in> set policies. \<exists>pe \<in> set entries.
        key = json_Marshal G (httpJSON (rf_HTTP (pe_rule pe))) \<and> Compile G (rf_HTTP (pe_rule pe)) = Inr rules \<and>
        idx = buildHostCandidateIndex rules)"

lemma httpPolicy_fresh:
  assumes "httpPolicy G label (rf_HTTP (pe_rule pe)) policies = Inr ((rules, idx), policies')"
    and "policiesFrom G entries policies" and "policiesApart G entries" and "pe \<in> set entries"
  shows "Compile G (rf_HTTP (pe_rule pe)) = Inr rules \<and> idx = buildHostCandidateIndex rules \<and> policiesFrom G entries policies'"
proof (cases "map_of policies (json_Marshal G (httpJSON (rf_HTTP (pe_rule pe))))")
  case None
  then show ?thesis
    using assms by (auto simp: httpPolicy_def Let_def policiesFrom_def split: sum.splits)
next
  case (Some q)
  with assms(1) have q: "q = (rules, idx)" "policies' = policies" by (auto simp: httpPolicy_def Let_def)
  from map_of_SomeD [OF Some] assms(2) q obtain pe' where pe': "pe' \<in> set entries"
      "json_Marshal G (httpJSON (rf_HTTP (pe_rule pe))) = json_Marshal G (httpJSON (rf_HTTP (pe_rule pe')))"
      "Compile G (rf_HTTP (pe_rule pe')) = Inr rules" "idx = buildHostCandidateIndex rules"
    by (fastforce simp: policiesFrom_def)
  moreover have "rf_HTTP (pe_rule pe) = rf_HTTP (pe_rule pe')"
    using assms(3,4) pe'(1,2) by (simp add: policiesApart_def list_all_iff)
  ultimately show ?thesis using assms(2) q by simp
qed

lemma compileBucket_fresh:
  assumes "compileBucket G None pe policies = Inr (b, policies')"
    and "policiesFrom G entries policies" and "policiesApart G entries" and "pe \<in> set entries"
  shows "freshRuleSet G (pe_rule pe) = Some (cb_rules b) \<and> policiesFrom G entries policies'"
proof -
  from assms(1) obtain auth rules idx egress where c:
      "CompileAuth (rf_Auth (pe_rule pe)) = Inr auth"
      "httpPolicy G (canonical (pe_key pe)) (rf_HTTP (pe_rule pe)) policies = Inr ((rules, idx), policies')"
      "(case rf_Egress (pe_rule pe) of None \<Rightarrow> Inr [] | Some es \<Rightarrow> CompileEgress G es) = Inr egress"
      "cb_rules b = newRuleSetWithHostIndex rules idx egress (rf_UUID (pe_rule pe)) auth"
    by (auto simp: compileBucket_def bucketByLabel_def Let_def split: option.splits sum.splits prod.splits)
  from httpPolicy_fresh [OF c(2) assms(2-4)] c show ?thesis
    by (simp add: freshRuleSet_def newRuleSet_def)
qed

lemma compileBuckets_fresh:
  assumes "compileBuckets G None pes policies = Inr bs" and "policiesFrom G entries policies"
    and "policiesApart G entries" and "set pes \<subseteq> set entries"
  shows "list_all2 (\<lambda>pe b. freshRuleSet G (pe_rule pe) = Some (cb_rules b) \<and> cb_key b = pe_key pe) pes bs"
  using assms
proof (induction pes arbitrary: policies bs)
  case (Cons pe pes)
  then obtain b policies' bs' where b: "compileBucket G None pe policies = Inr (b, policies')"
      "compileBuckets G None pes policies' = Inr bs'" "bs = b # bs'"
    by (auto split: prod.splits)
  have "freshRuleSet G (pe_rule pe) = Some (cb_rules b)" "policiesFrom G entries policies'"
    using compileBucket_fresh [OF b(1) Cons(3,4)] Cons(5) by auto
  moreover have "cb_key b = pe_key pe"
    using b(1) by (auto simp: compileBucket_def bucketByLabel_def Let_def split: option.splits sum.splits prod.splits)
  ultimately show ?case using Cons(1) [OF b(2) _ Cons(4)] Cons(5) b(3) by simp
qed simp

lemma table_Lookup_best:
  assumes d: "compileParsedEntries G entries None = Inr d" and wf: "\<forall>pe \<in> set entries. wfKey (pe_key pe)"
    and dist: "distinct (map (\<lambda>pe. canonical (pe_key pe)) entries)" and apart: "policiesApart G entries" and a: "wfAddr a"
  defines "hits \<equiv> \<lambda>pe. mk_is4 (pe_key pe) = addr_is4 a \<and> key_contains (pe_key pe) (addr_bytes a)"
  shows "\<exists>pe \<in> set entries. hits pe \<and> table_Lookup d a = freshRuleSet G (pe_rule pe) \<and> freshRuleSet G (pe_rule pe) \<noteq> None \<and>
    (\<forall>pe' \<in> set entries. hits pe' \<longrightarrow> pe' \<noteq> pe \<longrightarrow> mk_mask (pe_key pe') < mk_mask (pe_key pe))"
proof -
  from d obtain bs where bs: "compileBuckets G None entries [] = Inr bs"
      "family d (addr_is4 a) = sortByMaskDescending (filter (\<lambda>b. mk_is4 (cb_key b) = addr_is4 a) bs)"
    by (rule compileParsedEntries_Inr) blast
  have fresh: "list_all2 (\<lambda>pe b. freshRuleSet G (pe_rule pe) = Some (cb_rules b) \<and> cb_key b = pe_key pe) entries bs"
    using compileBuckets_fresh [OF bs(1) _ apart] by (simp add: policiesFrom_def)
  let ?P = "\<lambda>b. key_contains (cb_key b) (addr_bytes a)"
  obtain b where b: "find ?P (family d (addr_is4 a)) = Some b"
    using table_Lookup_total [OF d wf a] by (cases "find ?P (family d (addr_is4 a))") (auto simp: find_None_iff)
  note best = find_descending [OF _ b, of "\<lambda>b. mk_mask (cb_key b)", unfolded bs(2), OF sorted_sortByMask]
  from best(2) have bmem: "b \<in> set bs" "mk_is4 (cb_key b) = addr_is4 a" by auto
  from bmem(1) obtain i where "i < length bs" "b = bs ! i" by (auto simp: in_set_conv_nth)
  define pe where "pe = entries ! i"
  have pe: "pe \<in> set entries" "freshRuleSet G (pe_rule pe) = Some (cb_rules b)" "cb_key b = pe_key pe"
    using fresh \<open>i < length bs\<close> \<open>b = bs ! i\<close> by (auto simp: list_all2_conv_all_nth pe_def)
  have lookup: "table_Lookup d a = Some (cb_rules b)" using b by (simp add: table_Lookup_def family_def)
  have less: "mk_mask (pe_key pe') < mk_mask (pe_key pe)" if pe': "pe' \<in> set entries" "hits pe'" "pe' \<noteq> pe" for pe'
  proof -
    from pe'(1) obtain j where j: "j < length entries" "pe' = entries ! j" by (auto simp: in_set_conv_nth)
    define b' where "b' = bs ! j"
    have b': "b' \<in> set bs" "cb_key b' = pe_key pe'"
      using fresh j by (auto simp: list_all2_conv_all_nth b'_def)
    with pe' best(3) [of b'] pe(3) have le: "mk_mask (pe_key pe') \<le> mk_mask (pe_key pe)" by (auto simp: hits_def)
    have "mk_mask (pe_key pe') \<noteq> mk_mask (pe_key pe)"
    proof
      assume "mk_mask (pe_key pe') = mk_mask (pe_key pe)"
      with contains_same_mask [of "pe_key pe'" "addr_bytes a" "pe_key pe"] pe' pe(3) best(1) bmem(2)
      have "canonical (pe_key pe') = canonical (pe_key pe)" by (simp add: hits_def)
      with dist pe(1) pe' show False by (auto simp: distinct_map inj_on_def)
    qed
    with le show ?thesis by simp
  qed
  show ?thesis
    using pe lookup less best(1) bmem(2) by (intro bexI [of _ pe]) (auto simp: hits_def)
qed

subsection \<open>Reusing the buckets of the previous table\<close>

text \<open>A bucket compiled on its own, without the shared policies and without a previous table.\<close>

definition pureBucket :: "golib \<Rightarrow> parsedEntry \<Rightarrow> (tableError, compiledBucket) res" where
  "pureBucket G pe =
     (let label = canonical (pe_key pe); rf = pe_rule pe in
      bindR (case CompileAuth (rf_Auth rf) of Inl e \<Rightarrow> Inl (BadAuth label e) | Inr a \<Rightarrow> Inr a) (\<lambda>auth.
      bindR (case Compile G (rf_HTTP rf) of Inl e \<Rightarrow> Inl (BadRules label e) | Inr rs \<Rightarrow> Inr rs) (\<lambda>rules.
      bindR (case rf_Egress rf of
               None \<Rightarrow> Inr []
             | Some es \<Rightarrow> (case CompileEgress G es of Inl e \<Rightarrow> Inl (BadEgress label e) | Inr ces \<Rightarrow> Inr ces)) (\<lambda>egress.
      Inr \<lparr>cb_key = pe_key pe, cb_label = label, cb_rules = newRuleSet rules egress (rf_UUID rf) auth,
           cb_contentHash = contentHash G rf\<rparr>))))"

text \<open>The previous table never offers a bucket with the hash of an entry that compiles differently.\<close>

definition reuseSound :: "golib \<Rightarrow> DefaultRuleset option \<Rightarrow> parsedEntry list \<Rightarrow> bool" where
  "reuseSound G prev entries \<longleftrightarrow>
     (\<forall>pe \<in> set entries. \<forall>b. bucketByLabel prev (canonical (pe_key pe)) = Some b \<and> cb_contentHash b = contentHash G (pe_rule pe) \<longrightarrow>
        freshRuleSet G (pe_rule pe) = Some (cb_rules b))"

lemma httpPolicy_pure:
  assumes "policiesFrom G entries policies" and "policiesApart G entries" and "pe \<in> set entries"
  shows "case Compile G (rf_HTTP (pe_rule pe)) of
      Inl e \<Rightarrow> httpPolicy G label (rf_HTTP (pe_rule pe)) policies = Inl (BadRules label e)
    | Inr rules \<Rightarrow> \<exists>policies'. httpPolicy G label (rf_HTTP (pe_rule pe)) policies = Inr ((rules, buildHostCandidateIndex rules), policies') \<and>
        policiesFrom G entries policies'"
proof (cases "httpPolicy G label (rf_HTTP (pe_rule pe)) policies")
  case (Inr q)
  obtain rules idx policies' where q: "q = ((rules, idx), policies')" by (cases q) auto
  from httpPolicy_fresh [OF Inr [unfolded q] assms] Inr q show ?thesis by auto
next
  case (Inl e)
  then show ?thesis by (auto simp: httpPolicy_def Let_def split: option.splits sum.splits)
qed

lemma compileBucket_pure:
  assumes "reuseSound G prev entries" and "policiesFrom G entries policies" and "policiesApart G entries" and "pe \<in> set entries"
  shows "case pureBucket G pe of
      Inl e \<Rightarrow> compileBucket G prev pe policies = Inl e
    | Inr b \<Rightarrow> \<exists>policies'. compileBucket G prev pe policies = Inr (b, policies') \<and> policiesFrom G entries policies'"
proof (cases "\<exists>b. bucketByLabel prev (canonical (pe_key pe)) = Some b \<and> cb_contentHash b = contentHash G (pe_rule pe)")
  case True
  then obtain b where b: "bucketByLabel prev (canonical (pe_key pe)) = Some b" "cb_contentHash b = contentHash G (pe_rule pe)" by blast
  with assms(1,4) have "freshRuleSet G (pe_rule pe) = Some (cb_rules b)" by (auto simp: reuseSound_def)
  with b assms(2) show ?thesis
    by (auto simp: freshRuleSet_def pureBucket_def compileBucket_def Let_def split: sum.splits option.splits)
next
  case False
  note policy = httpPolicy_pure [OF assms(2-4), of "canonical (pe_key pe)"]
  have "compileBucket G prev pe policies = compileBucket G None pe policies"
    using False by (auto simp: compileBucket_def bucketByLabel_def Let_def split: option.splits)
  with policy show ?thesis
    by (auto simp: pureBucket_def compileBucket_def bucketByLabel_def Let_def newRuleSet_def split: sum.splits option.splits)
qed

lemma compileBuckets_pure:
  assumes "reuseSound G prev entries" and "policiesFrom G entries policies" and "policiesApart G entries" and "set pes \<subseteq> set entries"
  shows "compileBuckets G prev pes policies = mapR (pureBucket G) pes"
  using assms(2,4)
proof (induction pes arbitrary: policies)
  case (Cons pe pes)
  with compileBucket_pure [OF assms(1) Cons(2) assms(3), of pe] show ?case
    by (auto split: sum.splits)
qed simp

lemma compileParsedEntries_prev:
  assumes "reuseSound G prev entries" and "policiesApart G entries"
  shows "compileParsedEntries G entries prev = compileParsedEntries G entries None"
proof -
  have "reuseSound G None entries" by (simp add: reuseSound_def bucketByLabel_def)
  moreover have "policiesFrom G entries []" by (simp add: policiesFrom_def)
  ultimately show ?thesis
    using compileBuckets_pure [OF assms(1) _ assms(2), of "[]" entries] compileBuckets_pure [OF _ _ assms(2), of None "[]" entries]
    by (simp add: compileParsedEntries_def)
qed

lemma find_mem: "find P xs = Some x \<Longrightarrow> x \<in> set xs \<and> P x"
  by (auto simp: find_Some_split)

text \<open>Every bucket of a compiled table carries the hash of an entry and the rules compiled from it.\<close>

lemma compileParsedEntries_buckets:
  assumes "compileParsedEntries G entries None = Inr d" and "policiesApart G entries" and "bucketByLabel (Some d) label = Some b"
  shows "\<exists>pe \<in> set entries. canonical (pe_key pe) = label \<and> pureBucket G pe = Inr b"
proof -
  from assms(1) obtain bs where bs: "compileBuckets G None entries [] = Inr bs"
      "d = \<lparr>dr_v4 = sortByMaskDescending (filter (\<lambda>b. mk_is4 (cb_key b)) bs), dr_v6 = sortByMaskDescending (filter (\<lambda>b. \<not> mk_is4 (cb_key b)) bs)\<rparr>"
    by (auto simp: compileParsedEntries_def Let_def)
  have "mapR (pureBucket G) entries = Inr bs"
    using compileBuckets_pure [of G None entries "[]" entries] bs(1) assms(2) by (simp add: reuseSound_def bucketByLabel_def policiesFrom_def)
  moreover have "b \<in> set (rev (dr_v4 d @ dr_v6 d)) \<and> cb_label b = label"
    using assms(3) find_mem [of "\<lambda>b. cb_label b = label" "rev (dr_v4 d @ dr_v6 d)" b] by (simp add: bucketByLabel_def)
  then have "b \<in> set bs" "cb_label b = label" by (auto simp: bs(2))
  ultimately obtain pe where pe: "pe \<in> set entries" "pureBucket G pe = Inr b" using mapR_set [of "pureBucket G" entries bs b] by blast
  then have "cb_label b = canonical (pe_key pe)" by (auto simp: pureBucket_def Let_def)
  with pe \<open>cb_label b = label\<close> show ?thesis by auto
qed

end
