(* ===== verification/DefaultPolicy.thy ===== *)
theory DefaultPolicy
  imports DefaultTable
begin

text \<open>
  What the default table of \<open>src/internal/rules/defaultruleset.go\<close> decides: every client address
  gets the most specific entry, the coverage check is exact, and the table a fresh cluster is seeded
  with admits no connection and guards the loopback, private and link-local ranges.
\<close>

subsection \<open>The built-in table\<close>

definition egressEntry :: "string \<Rightarrow> string \<Rightarrow> EgressRule" where
  "egressEntry cidr act = \<lparr>e_CIDR = cidr, e_Port = [], e_Proto = [], e_Action = act\<rparr>"

definition denyFirstEgress :: "EgressRule list" where
  "denyFirstEgress =
     [egressEntry ''127.0.0.0/8'' ''deny'',
      egressEntry ''::1/128'' ''deny'',
      egressEntry ''10.0.0.0/8'' ''deny'',
      egressEntry ''172.16.0.0/12'' ''deny'',
      egressEntry ''192.168.0.0/16'' ''deny'',
      egressEntry ''fc00::/7'' ''deny'',
      egressEntry ''169.254.0.0/16'' ''deny'',
      egressEntry ''fe80::/10'' ''deny'',
      egressEntry ''0.0.0.0/0'' ''allow'',
      egressEntry ''::/0'' ''allow'']"

definition BuiltinDefaultRuleset :: "(string \<times> RuleFile) list" where
  "BuiltinDefaultRuleset =
     (let rf = \<lparr>rf_UUID = [], rf_Auth = None, rf_HTTP = [], rf_Egress = Some denyFirstEgress\<rparr> in
      [(''0.0.0.0/0'', rf), (''::/0'', rf)])"

text \<open>The guarded ranges, by their first and last address.\<close>

definition guardedRanges :: "bool \<Rightarrow> (byte list \<times> byte list) list" where
  "guardedRanges is4 =
     (if is4 then
        [([127, 0, 0, 0], [127, 255, 255, 255]), ([10, 0, 0, 0], [10, 255, 255, 255]),
         ([172, 16, 0, 0], [172, 31, 255, 255]), ([192, 168, 0, 0], [192, 168, 255, 255]),
         ([169, 254, 0, 0], [169, 254, 255, 255])]
      else
        [(replicate 15 0 @ [1], replicate 15 0 @ [1]), (0xfc # replicate 15 0, 0xfd # replicate 15 0xff),
         ([0xfe, 0x80] @ replicate 14 0, [0xfe, 0xbf] @ replicate 14 0xff)])"

definition guarded :: "Addr \<Rightarrow> bool" where
  "guarded a \<longleftrightarrow> list_ex (\<lambda>(lo, hi). bytesValue lo \<le> bytesValue (addr_bytes a) \<and> bytesValue (addr_bytes a) \<le> bytesValue hi)
     (guardedRanges (addr_is4 a))"

lemma div_interval:
  fixes v w q :: int
  assumes "0 < w"
  shows "v div w = q \<longleftrightarrow> q * w \<le> v \<and> v \<le> q * w + (w - 1)"
proof
  assume "v div w = q"
  then show "q * w \<le> v \<and> v \<le> q * w + (w - 1)"
    using pos_mod_bound [OF assms, of v] pos_mod_sign [OF assms, of v] div_mult_mod_eq [of v w] by auto
next
  assume "q * w \<le> v \<and> v \<le> q * w + (w - 1)"
  then show "v div w = q" using int_div_pos_eq [of v w q "v - q * w"] assms by (simp add: mult.commute)
qed

definition v4Prefix :: "byte list \<Rightarrow> nat \<Rightarrow> Prefix" where
  "v4Prefix bs n = \<lparr>pfx_addr = \<lparr>addr_is4 = True, addr_bytes = bs, addr_zone = []\<rparr>, pfx_bits = n\<rparr>"

definition v6Prefix :: "byte list \<Rightarrow> nat \<Rightarrow> Prefix" where
  "v6Prefix bs n = \<lparr>pfx_addr = \<lparr>addr_is4 = False, addr_bytes = bs, addr_zone = []\<rparr>, pfx_bits = n\<rparr>"

definition guardPrefixes :: "(Prefix \<times> bool) list" where
  "guardPrefixes =
     [(v4Prefix [127, 0, 0, 0] 8, False), (v6Prefix (replicate 15 0 @ [1]) 128, False), (v4Prefix [10, 0, 0, 0] 8, False),
      (v4Prefix [172, 16, 0, 0] 12, False), (v4Prefix [192, 168, 0, 0] 16, False), (v6Prefix (0xfc # replicate 15 0) 7, False),
      (v4Prefix [169, 254, 0, 0] 16, False), (v6Prefix ([0xfe, 0x80] @ replicate 14 0) 10, False),
      (v4Prefix [0, 0, 0, 0] 0, True), (v6Prefix (replicate 16 0) 0, True)]"

lemma denyFirst_prefixes:
  "list_all2 (\<lambda>e (p, allow). e_Port e = [] \<and> e_Proto e = [] \<and> ParsePrefix (e_CIDR e) = Some p \<and>
     e_Action e = (if allow then ''allow'' else ''deny'')) denyFirstEgress guardPrefixes"
  by code_simp

definition anyEgress :: "Prefix \<times> bool \<Rightarrow> CompiledEgress" where
  "anyEgress q = \<lparr>ce_prefix = fst q, ce_port = \<lparr>pr_always = True, pr_lo = 0, pr_hi = 0\<rparr>,
     ce_proto = zeroMatcher\<lparr>always := True\<rparr>, ce_allow = snd q\<rparr>"

lemma compileEgressFrom_any:
  "list_all2 (\<lambda>e (p, allow). e_Port e = [] \<and> e_Proto e = [] \<and> ParsePrefix (e_CIDR e) = Some p \<and>
     e_Action e = (if allow then ''allow'' else ''deny'')) rules qs \<Longrightarrow>
   compileEgressFrom G i rules = Inr (map anyEgress qs)"
  by (induction arbitrary: i rule: list_all2_induct)
    (auto simp: compileEgressRule_def compilePortRange_def compileMatcher_def anyEgress_def)

lemma lookupEgress_any:
  "lookupEgressList G (map anyEgress qs) addr port proto =
     (case find (\<lambda>q. Contains (fst q) addr) qs of Some q \<Rightarrow> (snd q, True) | None \<Rightarrow> (False, False))"
proof -
  have "egress_match G addr port proto (anyEgress q) \<longleftrightarrow> Contains (fst q) addr" for q
    by (simp add: egress_match_def anyEgress_def port_match_def matches_def)
  then show ?thesis by (simp add: lookupEgressList_def find_map comp_def anyEgress_def split: option.split)
qed

definition prefixBlock :: "Prefix \<Rightarrow> bool \<times> int \<times> int" where
  "prefixBlock p = (let w = 2 ^ (BitLen (pfx_addr p) - pfx_bits p); lo = bytesValue (addr_bytes (pfx_addr p)) div w * w in
     (addr_is4 (pfx_addr p), lo, lo + (w - 1)))"

lemma Contains_block:
  "Contains p a \<longleftrightarrow> addr_zone a = [] \<and> (case prefixBlock p of (is4, lo, hi) \<Rightarrow>
     is4 = addr_is4 a \<and> lo \<le> bytesValue (addr_bytes a) \<and> bytesValue (addr_bytes a) \<le> hi)"
proof (cases "addr_is4 (pfx_addr p) = addr_is4 a")
  case True
  then have len: "BitLen (pfx_addr p) = BitLen a" by (simp add: BitLen_def)
  show ?thesis
    by (simp add: Contains_def prefixBlock_def Let_def len True div_interval)
qed (auto simp: Contains_def prefixBlock_def Let_def BitLen_def)

lemma guardPrefixes_blocks:
  "map (\<lambda>q. (prefixBlock (fst q), snd q)) guardPrefixes =
     (let g4 = map (\<lambda>(lo, hi). ((True, bytesValue lo, bytesValue hi), False)) (guardedRanges True);
          g6 = map (\<lambda>(lo, hi). ((False, bytesValue lo, bytesValue hi), False)) (guardedRanges False) in
      [g4 ! 0, g6 ! 0, g4 ! 1, g4 ! 2, g4 ! 3, g6 ! 1, g4 ! 4, g6 ! 2, ((True, 0, 2 ^ 32 - 1), True), ((False, 0, 2 ^ 128 - 1), True)])"
  by code_simp

definition inBlock :: "Addr \<Rightarrow> bool \<times> int \<times> int \<Rightarrow> bool" where
  "inBlock a = (\<lambda>(is4, lo, hi). is4 = addr_is4 a \<and> lo \<le> bytesValue (addr_bytes a) \<and> bytesValue (addr_bytes a) \<le> hi)"

lemma lookup_blocks:
  "lookupEgressList G (map anyEgress qs) a port proto =
     (if addr_zone a = [] then
        case find (\<lambda>b. inBlock a (fst b)) (map (\<lambda>q. (prefixBlock (fst q), snd q)) qs) of
          Some b \<Rightarrow> (snd b, True) | None \<Rightarrow> (False, False)
      else (False, False))"
  unfolding lookupEgress_any by (induction qs) (auto simp: Contains_block inBlock_def)

lemma denyFirst_lookup:
  assumes "wfAddr a"
  shows "lookupEgressList G (map anyEgress guardPrefixes) a port proto =
    (addr_zone a = [] \<and> \<not> guarded a, addr_zone a = [])"
proof -
  have "0 \<le> bytesValue (addr_bytes a)" "bytesValue (addr_bytes a) \<le> 2 ^ BitLen a - 1"
    using wfAddr_value [OF assms] by simp_all
  then show ?thesis
    unfolding lookup_blocks guardPrefixes_blocks
    by (cases "addr_is4 a")
      (simp_all add: guarded_def guardedRanges_def Let_def inBlock_def BitLen_def)
qed

subsection \<open>Properties of the default table\<close>

definition demoEntries :: "string \<Rightarrow> (string \<times> string) list option" where
  "demoEntries data =
     (if data = ''demo'' then Some [(''0.0.0.0/0'', ''any4''), (''10.0.0.0/8'', ''office''), (''::/0'', ''any6'')]
      else None)"

definition demoFile :: "string \<Rightarrow> RuleFile option" where
  "demoFile raw = Some \<lparr>rf_UUID = raw, rf_Auth = None, rf_HTTP = [], rf_Egress = Some []\<rparr>"

definition demoJSON :: jsonlib where
  "demoJSON = \<lparr>json_object = demoEntries, json_ruleFileStrict = demoFile, json_ruleFile = demoFile\<rparr>"

definition demoTable :: "DefaultRuleset \<times> string" where
  "demoTable = (case CompileDefaultRuleset plainLib demoJSON ''demo'' of Inr t \<Rightarrow> t | Inl _ \<Rightarrow> (\<lparr>dr_v4 = [], dr_v6 = []\<rparr>, []))"

lemma demoTable_compiles: "CompileDefaultRuleset plainLib demoJSON ''demo'' = Inr demoTable"
proof -
  have "\<not> isl (CompileDefaultRuleset plainLib demoJSON ''demo'')" by code_simp
  then show ?thesis by (auto simp: demoTable_def split: sum.split)
qed

definition demoParsed :: "parsedEntry list" where
  "demoParsed = (case parseDefaultRuleset demoJSON ''demo'' of Inr es \<Rightarrow> es | Inl _ \<Rightarrow> [])"

lemma demoParsed_parses: "parseDefaultRuleset demoJSON ''demo'' = Inr demoParsed"
proof -
  have "\<not> isl (parseDefaultRuleset demoJSON ''demo'')" by code_simp
  then show ?thesis by (auto simp: demoParsed_def split: sum.split)
qed

text \<open>
  C10. A default table that compiles answers every client address, IPv4 or IPv6, and the answer is the
  rule set compiled from the document of one entry that contains the address: every other entry
  of that family containing it has a smaller mask, and a shorter prefix when both masks are
  prefixes. The order of the entries in the file has no influence.
\<close>

theorem default_table_longest_match:
  assumes "CompileDefaultRuleset G J data = Inr (d, canon)" and "parseDefaultRuleset J data = Inr entries"
    and "policiesApart G entries" and "wfAddr a"
  shows "\<exists>pe \<in> set entries. mk_is4 (pe_key pe) = addr_is4 a \<and> key_contains (pe_key pe) (addr_bytes a) \<and>
    table_Lookup d a = freshRuleSet G (pe_rule pe) \<and> table_Lookup d a \<noteq> None \<and>
    (\<forall>pe' \<in> set entries. mk_is4 (pe_key pe') = addr_is4 a \<and> key_contains (pe_key pe') (addr_bytes a) \<and> pe' \<noteq> pe \<longrightarrow>
       mk_mask (pe_key pe') < mk_mask (pe_key pe) \<and>
       (\<forall>n n'. contiguousPrefixLen (mk_mask (pe_key pe)) = Some n \<and> contiguousPrefixLen (mk_mask (pe_key pe')) = Some n' \<longrightarrow> n' < n))"
proof -
  from assms(1,2) have d: "compileParsedEntries G entries None = Inr d"
    by (auto simp: CompileDefaultRuleset_def)
  note wf = parseDefaultRuleset_wf [OF assms(2)]
  from table_Lookup_best [OF d _ _ assms(3,4)] wf obtain pe where pe: "pe \<in> set entries"
      "mk_is4 (pe_key pe) = addr_is4 a" "key_contains (pe_key pe) (addr_bytes a)"
      "table_Lookup d a = freshRuleSet G (pe_rule pe)" "freshRuleSet G (pe_rule pe) \<noteq> None"
      "\<And>pe'. pe' \<in> set entries \<Longrightarrow> mk_is4 (pe_key pe') = addr_is4 a \<Longrightarrow> key_contains (pe_key pe') (addr_bytes a) \<Longrightarrow> pe' \<noteq> pe \<Longrightarrow>
         mk_mask (pe_key pe') < mk_mask (pe_key pe)"
    by blast
  have shorter: "n' < n" if "pe' \<in> set entries" "mk_is4 (pe_key pe') = addr_is4 a" "key_contains (pe_key pe') (addr_bytes a)" "pe' \<noteq> pe"
      "contiguousPrefixLen (mk_mask (pe_key pe)) = Some n" "contiguousPrefixLen (mk_mask (pe_key pe')) = Some n'" for pe' n n'
  proof (rule ccontr)
    assume "\<not> n' < n"
    have len: "length (mk_mask (pe_key pe')) = length (mk_mask (pe_key pe))"
      using that(1,2) pe(1,2) wf(1) by (simp add: wfKey_def)
    have "mk_mask (pe_key pe) = prefixMask n (length (mk_mask (pe_key pe)))" "n \<le> 8 * length (mk_mask (pe_key pe))"
        "mk_mask (pe_key pe') = prefixMask n' (length (mk_mask (pe_key pe)))" "n' \<le> 8 * length (mk_mask (pe_key pe))"
      using that(5,6) len by (simp_all add: contiguousPrefixLen_iff)
    with prefixMask_mono [of n n' "length (mk_mask (pe_key pe))"] \<open>\<not> n' < n\<close>
    have "mk_mask (pe_key pe) \<le> mk_mask (pe_key pe')" by (cases "n = n'") auto
    with pe(6) [OF that(1-4)] show False by simp
  qed
  show ?thesis using pe shorter by (intro bexI [of _ pe]) auto
qed

theorem default_table_longest_match_witness:
  "map_option rs_uuid (table_Lookup (fst demoTable) (v4Addr [10, 1, 2, 3])) = Some ''office''"
proof -
  let ?a = "v4Addr [10, 1, 2, 3]"
  have "policiesApart plainLib demoParsed" by code_simp
  moreover have "wfAddr ?a" by code_simp
  ultimately obtain pe where pe: "pe \<in> set demoParsed" "mk_is4 (pe_key pe) = addr_is4 ?a" "key_contains (pe_key pe) (addr_bytes ?a)"
      "table_Lookup (fst demoTable) ?a = freshRuleSet plainLib (pe_rule pe)"
      "\<forall>pe' \<in> set demoParsed. mk_is4 (pe_key pe') = addr_is4 ?a \<and> key_contains (pe_key pe') (addr_bytes ?a) \<and> pe' \<noteq> pe \<longrightarrow>
         mk_mask (pe_key pe') < mk_mask (pe_key pe)"
    using default_table_longest_match [of plainLib demoJSON "''demo''" "fst demoTable" "snd demoTable" demoParsed ?a]
      demoTable_compiles demoParsed_parses by auto
  have "\<forall>pe \<in> set demoParsed. mk_is4 (pe_key pe) = addr_is4 ?a \<and> key_contains (pe_key pe) (addr_bytes ?a) \<and>
      (\<forall>pe' \<in> set demoParsed. mk_is4 (pe_key pe') = addr_is4 ?a \<and> key_contains (pe_key pe') (addr_bytes ?a) \<and> pe' \<noteq> pe \<longrightarrow>
         mk_mask (pe_key pe') < mk_mask (pe_key pe)) \<longrightarrow>
      map_option rs_uuid (freshRuleSet plainLib (pe_rule pe)) = Some ''office''"
    by code_simp
  with pe show ?thesis by auto
qed

text \<open>
  C13. The coverage check is exact: it accepts a list of prefixes of one address family only when every
  address of the family lies in one of them, and the gap it reports otherwise is a non-empty range
  of addresses none of which is covered.
\<close>

theorem coverage_check_exact:
  assumes "\<forall>p \<in> set prefixes. wfPrefix bits p"
  shows "(case checkCoverage prefixes bits of
      Inr _ \<Rightarrow> \<forall>n. 0 \<le> n \<and> n < 2 ^ bits \<longrightarrow> (\<exists>p \<in> set prefixes. inRange n p)
    | Inl (CoverageGap w lo hi) \<Rightarrow> w = bits \<and> 0 \<le> lo \<and> lo \<le> hi \<and> hi < 2 ^ bits \<and>
        (\<forall>n. lo \<le> n \<and> n \<le> hi \<longrightarrow> \<not> (\<exists>p \<in> set prefixes. inRange n p))
    | Inl e \<Rightarrow> e = NoEntries bits \<and> prefixes = [])"
  using assms by (rule checkCoverage_cases)

theorem coverage_check_exact_witness:
  "checkCoverage [v4Prefix [0, 0, 0, 0] 1] 32 = Inl (CoverageGap 32 (2 ^ 31) (2 ^ 32 - 1)) \<and>
   \<not> inRange (2 ^ 31) (v4Prefix [0, 0, 0, 0] 1)"
proof -
  have "\<forall>p \<in> set [v4Prefix [0, 0, 0, 0] 1]. wfPrefix 32 p" by code_simp
  note gap = coverage_check_exact [OF this]
  have run: "checkCoverage [v4Prefix [0, 0, 0, 0] 1] 32 = Inl (CoverageGap 32 (2 ^ 31) (2 ^ 32 - 1))" by code_simp
  from gap [unfolded run] have "\<not> inRange (2 ^ 31) (v4Prefix [0, 0, 0, 0] 1)" by auto
  with run show ?thesis by blast
qed

subsubsection \<open>The built-in table as a policy\<close>

definition zeroKey :: "bool \<Rightarrow> maskedKey" where
  "zeroKey is4 = (let n = (if is4 then 4 else 16) in \<lparr>mk_is4 = is4, mk_addr = replicate n 0, mk_mask = replicate n 0\<rparr>)"

lemma zeroKey_facts:
  "parseMaskedKey ''0.0.0.0/0'' = Inr (zeroKey True)" "parseMaskedKey ''::/0'' = Inr (zeroKey False)"
  "canonical (zeroKey True) \<noteq> canonical (zeroKey False)" "mk_is4 (zeroKey b) = b"
  "keyPrefix (zeroKey True) = Some (v4Prefix (replicate 4 0) 0)" "keyPrefix (zeroKey False) = Some (v6Prefix (replicate 16 0) 0)"
  "checkCoverage [v4Prefix (replicate 4 0) 0] 32 = Inr ()" "checkCoverage [v6Prefix (replicate 16 0) 0] 128 = Inr ()"
  by (code_simp, code_simp, code_simp, simp add: zeroKey_def Let_def, code_simp+)

definition builtinFile :: RuleFile where
  "builtinFile = \<lparr>rf_UUID = [], rf_Auth = None, rf_HTTP = [], rf_Egress = Some denyFirstEgress\<rparr>"

definition builtinParsed :: "parsedEntry list" where
  "builtinParsed = [\<lparr>pe_key = zeroKey True, pe_rule = builtinFile\<rparr>, \<lparr>pe_key = zeroKey False, pe_rule = builtinFile\<rparr>]"

lemma builtin_parse:
  assumes "json_object J data = Some raws"
    and "map (\<lambda>(k, raw). (k, json_ruleFileStrict J raw)) raws = map (\<lambda>(k, rf). (k, Some rf)) BuiltinDefaultRuleset"
  shows "parseDefaultRuleset J data = Inr builtinParsed"
proof -
  have builtin: "BuiltinDefaultRuleset = [(''0.0.0.0/0'', builtinFile), (''::/0'', builtinFile)]"
    by (simp add: BuiltinDefaultRuleset_def builtinFile_def Let_def)
  obtain r4 r6 where "raws = [(''0.0.0.0/0'', r4), (''::/0'', r6)]"
      "json_ruleFileStrict J r4 = Some builtinFile" "json_ruleFileStrict J r6 = Some builtinFile"
    using assms(2) unfolding builtin by (auto simp: map_eq_Cons_conv)
  with assms(1) show ?thesis
    using zeroKey_facts(1-3) by (simp add: parseDefaultRuleset_def putEntry_def builtinParsed_def)
qed

lemma builtin_rules:
  "freshRuleSet G builtinFile = Some (newRuleSet [] (map anyEgress guardPrefixes) [] None)"
  using compileEgressFrom_any [OF denyFirst_prefixes, of G 0]
  by (simp add: freshRuleSet_def builtinFile_def CompileAuth_def Compile_def CompileEgress_def)

lemma indexable_Nil: "indexable []"
proof -
  have "fits_uint32 (buildHostCandidateIndex [])" by code_simp
  then show ?thesis by (simp add: indexable_def)
qed

lemma builtin_compile: "\<exists>d. compileParsedEntries G builtinParsed None = Inr d"
  using compileEgressFrom_any [OF denyFirst_prefixes, of G 0] zeroKey_facts
  by (simp add: compileParsedEntries_def builtinParsed_def builtinFile_def compileBucket_def bucketByLabel_def Let_def
      httpPolicy_def CompileAuth_def Compile_def CompileEgress_def List.map_filter_def)

lemma builtin_policy:
  assumes "json_object J data = Some raws"
    and "map (\<lambda>(k, raw). (k, json_ruleFileStrict J raw)) raws = map (\<lambda>(k, rf). (k, Some rf)) BuiltinDefaultRuleset"
    and "wfAddr client" and "wfAddr dst"
  shows "\<exists>d rs. parseDefaultRuleset J data = Inr builtinParsed \<and> compileParsedEntries G builtinParsed None = Inr d \<and>
    table_Lookup d client = Some rs \<and> LookupConn G rs inp = (False, False, False) \<and>
    LookupEgress G rs dst port proto = (addr_zone dst = [] \<and> \<not> guarded dst, addr_zone dst = [])"
proof -
  note parse = builtin_parse [OF assms(1,2)]
  obtain d where d: "compileParsedEntries G builtinParsed None = Inr d" using builtin_compile by blast
  have "policiesApart G builtinParsed" by (simp add: policiesApart_def builtinParsed_def)
  from table_Lookup_best [OF d parseDefaultRuleset_wf [OF parse] this assms(3)]
  have "table_Lookup d client = freshRuleSet G builtinFile" by (auto simp: builtinParsed_def)
  then have look: "table_Lookup d client = Some (newRuleSet [] (map anyEgress guardPrefixes) [] None)"
    by (simp add: builtin_rules)
  have "LookupConn G (newRuleSet [] (map anyEgress guardPrefixes) [] None) inp = (False, False, False)"
    using visited_first_match [of "[]" "connMatches G inp" G "ci_Host inp" "map anyEgress guardPrefixes" "[]" None]
    by (simp add: LookupConn_def indexable_Nil connMatches_def)
  moreover have "LookupEgress G (newRuleSet [] (map anyEgress guardPrefixes) [] None) dst port proto =
      (addr_zone dst = [] \<and> \<not> guarded dst, addr_zone dst = [])"
    using denyFirst_lookup [OF assms(4)] by (simp add: LookupEgress_def newRuleSet_def newRuleSetWithHostIndex_def)
  ultimately show ?thesis using look d parse by simp
qed

text \<open>
  The table a fresh cluster is seeded with is safe for every client: once the JSON decoder gives
  back the two entries it was encoded from, the table compiles, every client address has a rule set,
  that rule set matches no connection at all, and its egress list refuses exactly the loopback,
  private, unique-local and link-local destinations (and any address carrying a zone), whatever
  the port and the protocol.
\<close>

theorem builtin_default_guards:
  assumes "json_object J data = Some raws"
    and "map (\<lambda>(k, raw). (k, json_ruleFileStrict J raw)) raws = map (\<lambda>(k, rf). (k, Some rf)) BuiltinDefaultRuleset"
    and "wfAddr client" and "wfAddr dst"
  shows "\<exists>d canon rs. CompileDefaultRuleset G J data = Inr (d, canon) \<and> table_Lookup d client = Some rs \<and>
    LookupConn G rs inp = (False, False, False) \<and>
    LookupEgress G rs dst port proto = (addr_zone dst = [] \<and> \<not> guarded dst, addr_zone dst = [])"
  using builtin_policy [OF assms, of G inp port proto] by (auto simp: CompileDefaultRuleset_def)

definition builtinJSON :: jsonlib where
  "builtinJSON =
     \<lparr>json_object = (\<lambda>_. Some (map (\<lambda>(k, rf). (k, k)) BuiltinDefaultRuleset)),
      json_ruleFileStrict = map_of BuiltinDefaultRuleset, json_ruleFile = map_of BuiltinDefaultRuleset\<rparr>"

theorem builtin_default_guards_witness:
  "\<exists>d canon rs. CompileDefaultRuleset plainLib builtinJSON [] = Inr (d, canon) \<and> table_Lookup d (v4Addr [10, 0, 0, 7]) = Some rs \<and>
     LookupEgress plainLib rs (v4Addr [169, 254, 169, 254]) 80 ''http'' = (False, True)"
proof -
  have "json_object builtinJSON [] = Some (map (\<lambda>(k, rf). (k, k)) BuiltinDefaultRuleset)"
    by (simp add: builtinJSON_def)
  moreover have "map (\<lambda>(k, raw). (k, json_ruleFileStrict builtinJSON raw)) (map (\<lambda>(k, rf). (k, k)) BuiltinDefaultRuleset) =
      map (\<lambda>(k, rf). (k, Some rf)) BuiltinDefaultRuleset"
    by (simp add: builtinJSON_def BuiltinDefaultRuleset_def Let_def)
  moreover have "wfAddr (v4Addr [10, 0, 0, 7])" "wfAddr (v4Addr [169, 254, 169, 254])"
      "addr_zone (v4Addr [169, 254, 169, 254]) = []" "guarded (v4Addr [169, 254, 169, 254])"
    by code_simp+
  ultimately show ?thesis
    using builtin_default_guards [of builtinJSON "[]" _ "v4Addr [10, 0, 0, 7]" "v4Addr [169, 254, 169, 254]" plainLib _ 80 "''http''"]
    by fastforce
qed

text \<open>
  The content hash that decides whether a bucket or a client's rule set is reused cannot tell a rule
  file whose egress list is empty (every destination refused) from one without an egress list
  (the default's list applies): the two are encoded to the same JSON value, whatever the rest of
  the file holds, although they compile to different policies.
\<close>

theorem empty_egress_lost:
  "contentHash G (rf\<lparr>rf_Egress := Some []\<rparr>) = contentHash G (rf\<lparr>rf_Egress := None\<rparr>) \<and>
   ruleFileJSON (rf\<lparr>rf_Egress := Some []\<rparr>) = ruleFileJSON (rf\<lparr>rf_Egress := None\<rparr>) \<and>
   rf\<lparr>rf_Egress := Some []\<rparr> \<noteq> rf\<lparr>rf_Egress := None\<rparr>"
  by (cases rf) (simp add: contentHash_def ruleFileJSON_def jfield_def)

end
