(* ===== verification/Storage.thy ===== *)
theory Storage
  imports Encoding
begin

text \<open>
  The state backend of \<open>src/internal/storage\<close> and the atomic write of
  \<open>src/internal/fsutil\<close>. A backend is a record of operations on a state of its own;
  an operation returns its result and the next state, so a state may also hold what other
  nodes do to the same backend. Modelled are the file-system backend over a disk of regular files
  (with an input/output fault per path), the S3 backend over the client's operations, and the
  logging and telemetry decorators. The symbolic links of the operator index
  (\<open>Linker\<close>) are an operation handed to the leaf cache. Which backend a URL names is in \<open>Config\<close>.
\<close>

subsection \<open>The interface\<close>

datatype storageError = ErrNotExist | StorageFailure string

type_synonym Version = string

record StorageEntry =
  en_Key :: string
  en_Version :: Version

record 's Storage =
  st_Get :: "string \<Rightarrow> 's \<Rightarrow> (storageError, string \<times> Version) res \<times> 's"
  st_Put :: "string \<Rightarrow> string \<Rightarrow> 's \<Rightarrow> storageError option \<times> 's"
  st_Delete :: "string \<Rightarrow> 's \<Rightarrow> storageError option \<times> 's"
  st_DeletePrefix :: "string \<Rightarrow> 's \<Rightarrow> storageError option \<times> 's"
  st_Stat :: "string \<Rightarrow> 's \<Rightarrow> (storageError, Version) res \<times> 's"
  st_List :: "string \<Rightarrow> 's \<Rightarrow> (storageError, StorageEntry list) res \<times> 's"

subsection \<open>Paths\<close>

text \<open>\<open>filepath.Clean\<close> on slash-separated paths: the segments that remain, innermost first.\<close>

fun cleanSegments :: "bool \<Rightarrow> string list \<Rightarrow> string list \<Rightarrow> string list" where
  "cleanSegments rooted [] out = out"
| "cleanSegments rooted (seg # segs) out =
     (if seg = [] \<or> seg = ''.'' then cleanSegments rooted segs out
      else if seg = ''..'' then
        (case out of
           [] \<Rightarrow> cleanSegments rooted segs (if rooted then [] else [seg])
         | upper # below \<Rightarrow> cleanSegments rooted segs (if upper = ''..'' then seg # out else below))
      else cleanSegments rooted segs (seg # out))"

definition Clean :: "string \<Rightarrow> string" where
  "Clean path =
     (let rooted = HasPrefix path ''/''; segs = rev (cleanSegments rooted (Split path CHR ''/'') []) in
      if rooted then ''/'' @ Join segs ''/'' else if segs = [] then ''.'' else Join segs ''/'')"

definition filepath_Join :: "string \<Rightarrow> string \<Rightarrow> string" where
  "filepath_Join a b =
     (if a = [] \<and> b = [] then [] else if a = [] then Clean b else if b = [] then Clean a else Clean (a @ ''/'' @ b))"

definition filepath_Dir :: "string \<Rightarrow> string" where
  "filepath_Dir path = (let i = LastIndexByte path CHR ''/'' in Clean (take (nat (i + 1)) path))"

subsection \<open>A disk\<close>

record fileInfo =
  fi_data :: string
  fi_mtime :: int

text \<open>
  The regular files by path, the time a write would be stamped with, and the paths on which the
  system calls fail.
\<close>

record disk =
  dk_files :: "(string \<times> fileInfo) list"
  dk_clock :: int
  dk_faulty :: "string \<Rightarrow> bool"

definition disk_find :: "disk \<Rightarrow> string \<Rightarrow> fileInfo option" where
  "disk_find d path = map_of (dk_files d) path"

definition disk_put :: "string \<Rightarrow> fileInfo \<Rightarrow> disk \<Rightarrow> disk" where
  "disk_put path f d = d\<lparr>dk_files := (path, f) # filter (\<lambda>(p, _). p \<noteq> path) (dk_files d)\<rparr>"

definition disk_remove :: "string \<Rightarrow> disk \<Rightarrow> disk" where
  "disk_remove path d = d\<lparr>dk_files := filter (\<lambda>(p, _). p \<noteq> path) (dk_files d)\<rparr>"

definition disk_rename :: "string \<Rightarrow> string \<Rightarrow> disk \<Rightarrow> disk" where
  "disk_rename src dst d =
     (case disk_find d src of None \<Rightarrow> d | Some f \<Rightarrow> disk_put dst f (disk_remove src d))"

definition underPath :: "string \<Rightarrow> string \<Rightarrow> bool" where
  "underPath upper p \<longleftrightarrow> p = upper \<or> HasPrefix p (if upper = ''/'' then upper else upper @ ''/'')"

lemma disk_find_put [simp]: "disk_find (disk_put path f d) p = (if p = path then Some f else disk_find d p)"
proof -
  have "map_of (filter (\<lambda>(p, _). p \<noteq> path) xs) p = map_of xs p" if "p \<noteq> path" for xs :: "(string \<times> fileInfo) list"
    using that by (induction xs) auto
  then show ?thesis by (simp add: disk_find_def disk_put_def)
qed

lemma disk_find_remove [simp]: "disk_find (disk_remove path d) p = (if p = path then None else disk_find d p)"
proof -
  have "map_of (filter (\<lambda>(p, _). p \<noteq> path) xs) p = (if p = path then None else map_of xs p)" for xs :: "(string \<times> fileInfo) list"
    by (induction xs) auto
  then show ?thesis by (simp add: disk_find_def disk_remove_def)
qed

subsection \<open>The atomic write\<close>

text \<open>
  \<open>WriteFileAtomic\<close> as the disks it passes through: the temporary file is created
  empty, grows by the bytes written, and is renamed over the target. A crash stops at one of
  them. \<open>rnd\<close> are the random bytes of the temporary name.
\<close>

definition randomTempName :: "string \<Rightarrow> string \<Rightarrow> string" where
  "randomTempName dir rnd = filepath_Join dir (''.tmp-'' @ hexEncode rnd)"

definition writeSteps :: "disk \<Rightarrow> string \<Rightarrow> string \<Rightarrow> string \<Rightarrow> disk list" where
  "writeSteps d tmp path data =
     (let grown = (\<lambda>n. disk_put tmp \<lparr>fi_data = take n data, fi_mtime = dk_clock d\<rparr> d) in
      d # map grown [0..<length data + 1] @ [disk_rename tmp path (grown (length data))])"

definition WriteFileAtomic :: "string \<Rightarrow> string \<Rightarrow> string \<Rightarrow> disk \<Rightarrow> storageError option \<times> disk" where
  "WriteFileAtomic path data rnd d =
     (let tmp = randomTempName (filepath_Dir path) rnd in
      if dk_faulty d (filepath_Dir path) then (Some (StorageFailure ''mkdir''), d)
      else if dk_faulty d tmp \<or> disk_find d tmp \<noteq> None then (Some (StorageFailure ''open''), d)
      else if dk_faulty d path then (Some (StorageFailure ''rename''), d)
      else (None, last (writeSteps d tmp path data)))"

subsection \<open>The file-system backend\<close>

record PosixStorage =
  px_root :: string
  px_rand :: "disk \<Rightarrow> string"

definition posix_path :: "PosixStorage \<Rightarrow> string \<Rightarrow> string" where
  "posix_path p key = filepath_Join (px_root p) key"

definition versionOf :: "fileInfo \<Rightarrow> Version" where
  "versionOf f = Itoa (fi_mtime f) @ ''-'' @ showNat (length (fi_data f))"

definition posix_Get :: "PosixStorage \<Rightarrow> string \<Rightarrow> disk \<Rightarrow> (storageError, string \<times> Version) res \<times> disk" where
  "posix_Get p key d =
     (let path = posix_path p key in
      if dk_faulty d path then (Inl (StorageFailure ''read''), d)
      else case disk_find d path of
        None \<Rightarrow> (Inl ErrNotExist, d)
      | Some f \<Rightarrow> (Inr (fi_data f, versionOf f), d))"

definition posix_Put :: "PosixStorage \<Rightarrow> string \<Rightarrow> string \<Rightarrow> disk \<Rightarrow> storageError option \<times> disk" where
  "posix_Put p key data d =
     (case WriteFileAtomic (posix_path p key) data (px_rand p d) d of
        (Some _, d') \<Rightarrow> (Some (StorageFailure ''write''), d')
      | (None, d') \<Rightarrow> (None, d'))"

definition posix_Delete :: "PosixStorage \<Rightarrow> string \<Rightarrow> disk \<Rightarrow> storageError option \<times> disk" where
  "posix_Delete p key d =
     (let path = posix_path p key in
      if dk_faulty d path then (Some (StorageFailure ''delete''), d) else (None, disk_remove path d))"

definition posix_DeletePrefix :: "PosixStorage \<Rightarrow> string \<Rightarrow> disk \<Rightarrow> storageError option \<times> disk" where
  "posix_DeletePrefix p prefix d =
     (let upper = posix_path p prefix in
      if dk_faulty d upper then (Some (StorageFailure ''delete prefix''), d)
      else (None, d\<lparr>dk_files := filter (\<lambda>(q, _). \<not> underPath upper q) (dk_files d)\<rparr>))"

definition posix_Stat :: "PosixStorage \<Rightarrow> string \<Rightarrow> disk \<Rightarrow> (storageError, Version) res \<times> disk" where
  "posix_Stat p key d =
     (let path = posix_path p key in
      if dk_faulty d path then (Inl (StorageFailure ''stat''), d)
      else case disk_find d path of
        None \<Rightarrow> (Inl ErrNotExist, d)
      | Some f \<Rightarrow> (Inr (versionOf f), d))"

definition posix_List :: "PosixStorage \<Rightarrow> string \<Rightarrow> disk \<Rightarrow> (storageError, StorageEntry list) res \<times> disk" where
  "posix_List p prefix d =
     (let upper = posix_path p prefix;
          found = filter (\<lambda>(q, _). underPath upper q) (dk_files d) in
      if dk_faulty d upper \<or> list_ex (\<lambda>(q, _). dk_faulty d q) found then (Inl (StorageFailure ''list''), d)
      else (Inr (sort_key en_Key (map (\<lambda>(q, f). \<lparr>en_Key = TrimPrefix q (Clean (px_root p) @ ''/''), en_Version = versionOf f\<rparr>) found)), d))"

definition posixStorage :: "PosixStorage \<Rightarrow> disk Storage" where
  "posixStorage p =
     \<lparr>st_Get = posix_Get p, st_Put = posix_Put p, st_Delete = posix_Delete p, st_DeletePrefix = posix_DeletePrefix p,
      st_Stat = posix_Stat p, st_List = posix_List p\<rparr>"

subsection \<open>The S3 backend\<close>

text \<open>
  The operations of the S3 client the backend calls; an error carries the code and the status
  \<open>isNotFound\<close> looks at.
\<close>

record s3Error =
  se_Code :: string
  se_StatusCode :: int

record s3Object =
  so_Key :: string
  so_ETag :: string

record 's s3Client =
  s3_GetObject :: "string \<Rightarrow> string \<Rightarrow> 's \<Rightarrow> (s3Error, (s3Error, s3Object) res \<times> (s3Error, string) res) res \<times> 's"
  s3_PutObject :: "string \<Rightarrow> string \<Rightarrow> string \<Rightarrow> 's \<Rightarrow> s3Error option \<times> 's"
  s3_RemoveObject :: "string \<Rightarrow> string \<Rightarrow> 's \<Rightarrow> s3Error option \<times> 's"
  s3_StatObject :: "string \<Rightarrow> string \<Rightarrow> 's \<Rightarrow> (s3Error, s3Object) res \<times> 's"
  s3_ListObjects :: "string \<Rightarrow> string \<Rightarrow> 's \<Rightarrow> (s3Error + s3Object) list \<times> 's"
  s3_RemoveObjects :: "string \<Rightarrow> s3Object list \<Rightarrow> 's \<Rightarrow> s3Error list \<times> 's"

definition isNotFound :: "s3Error \<Rightarrow> bool" where
  "isNotFound e \<longleftrightarrow> se_Code e = ''NoSuchKey'' \<or> se_StatusCode e = 404"

definition s3_Get :: "'s s3Client \<Rightarrow> string \<Rightarrow> string \<Rightarrow> 's \<Rightarrow> (storageError, string \<times> Version) res \<times> 's" where
  "s3_Get c bucket key s =
     (case s3_GetObject c bucket key s of
        (Inl e, s') \<Rightarrow> (Inl (if isNotFound e then ErrNotExist else StorageFailure ''get''), s')
      | (Inr (st, body), s') \<Rightarrow>
          (case st of
             Inl e \<Rightarrow> (Inl (if isNotFound e then ErrNotExist else StorageFailure ''stat''), s')
           | Inr info \<Rightarrow>
               (case body of
                  Inl e \<Rightarrow> (Inl (StorageFailure ''read''), s')
                | Inr data \<Rightarrow> (Inr (data, so_ETag info), s'))))"

definition s3_Put :: "'s s3Client \<Rightarrow> string \<Rightarrow> string \<Rightarrow> string \<Rightarrow> 's \<Rightarrow> storageError option \<times> 's" where
  "s3_Put c bucket key data s =
     (case s3_PutObject c bucket key data s of
        (Some _, s') \<Rightarrow> (Some (StorageFailure ''put''), s')
      | (None, s') \<Rightarrow> (None, s'))"

definition s3_Delete :: "'s s3Client \<Rightarrow> string \<Rightarrow> string \<Rightarrow> 's \<Rightarrow> storageError option \<times> 's" where
  "s3_Delete c bucket key s =
     (case s3_RemoveObject c bucket key s of
        (Some e, s') \<Rightarrow> (if isNotFound e then None else Some (StorageFailure ''delete''), s')
      | (None, s') \<Rightarrow> (None, s'))"

definition s3_DeletePrefix :: "'s s3Client \<Rightarrow> string \<Rightarrow> string \<Rightarrow> 's \<Rightarrow> storageError option \<times> 's" where
  "s3_DeletePrefix c bucket prefix s =
     (let (objs, s') = s3_ListObjects c bucket prefix s;
          listed = List.map_filter (\<lambda>r. case r of Inl e \<Rightarrow> None | Inr obj \<Rightarrow> Some obj) objs;
          (errs, s'') = s3_RemoveObjects c bucket listed s' in
      (case errs of [] \<Rightarrow> None | e # _ \<Rightarrow> Some (StorageFailure ''delete prefix''), s''))"

definition s3_Stat :: "'s s3Client \<Rightarrow> string \<Rightarrow> string \<Rightarrow> 's \<Rightarrow> (storageError, Version) res \<times> 's" where
  "s3_Stat c bucket key s =
     (case s3_StatObject c bucket key s of
        (Inl e, s') \<Rightarrow> (Inl (if isNotFound e then ErrNotExist else StorageFailure ''stat''), s')
      | (Inr info, s') \<Rightarrow> (Inr (so_ETag info), s'))"

definition s3_List :: "'s s3Client \<Rightarrow> string \<Rightarrow> string \<Rightarrow> 's \<Rightarrow> (storageError, StorageEntry list) res \<times> 's" where
  "s3_List c bucket prefix s =
     (let (objs, s') = s3_ListObjects c bucket prefix s in
      (mapR (\<lambda>r. case r of Inl e \<Rightarrow> Inl (StorageFailure ''list'') | Inr obj \<Rightarrow> Inr \<lparr>en_Key = so_Key obj, en_Version = so_ETag obj\<rparr>) objs, s'))"

definition s3Storage :: "'s s3Client \<Rightarrow> string \<Rightarrow> 's Storage" where
  "s3Storage c bucket =
     \<lparr>st_Get = s3_Get c bucket, st_Put = s3_Put c bucket, st_Delete = s3_Delete c bucket, st_DeletePrefix = s3_DeletePrefix c bucket,
      st_Stat = s3_Stat c bucket, st_List = s3_List c bucket\<rparr>"

subsection \<open>Decorators\<close>

text \<open>
  A record of the access log (operation, key, error, size of the result) and of the duration
  metric (operation, backend, outcome); the state of a decorated backend is the pair of the
  inner state and the records written so far, latest first.
\<close>

record accessLog =
  al_op :: string
  al_key :: string
  al_err :: "storageError option"
  al_extra :: "nat option"

definition errOf :: "('e, 'a) res \<Rightarrow> 'e option" where
  "errOf r = (case r of Inl e \<Rightarrow> Some e | Inr _ \<Rightarrow> None)"

definition sizeOf :: "('a \<Rightarrow> nat) \<Rightarrow> ('e, 'a) res \<Rightarrow> nat" where
  "sizeOf f r = (case r of Inl e \<Rightarrow> 0 | Inr a \<Rightarrow> f a)"

definition logged :: "('s \<Rightarrow> 'r \<times> 's) \<Rightarrow> ('r \<Rightarrow> 'l) \<Rightarrow> 's \<times> 'l list \<Rightarrow> 'r \<times> 's \<times> 'l list" where
  "logged act entry w = (let (r, s') = act (fst w) in (r, s', entry r # snd w))"

definition WithLogging :: "'s Storage \<Rightarrow> ('s \<times> accessLog list) Storage" where
  "WithLogging st =
     \<lparr>st_Get = (\<lambda>key. logged (st_Get st key) (\<lambda>r. \<lparr>al_op = ''get'', al_key = key, al_err = errOf r, al_extra = Some (sizeOf (length \<circ> fst) r)\<rparr>)),
      st_Put = (\<lambda>key data. logged (st_Put st key data) (\<lambda>e. \<lparr>al_op = ''put'', al_key = key, al_err = e, al_extra = Some (length data)\<rparr>)),
      st_Delete = (\<lambda>key. logged (st_Delete st key) (\<lambda>e. \<lparr>al_op = ''delete'', al_key = key, al_err = e, al_extra = None\<rparr>)),
      st_DeletePrefix = (\<lambda>prefix. logged (st_DeletePrefix st prefix) (\<lambda>e. \<lparr>al_op = ''delete_prefix'', al_key = prefix, al_err = e, al_extra = None\<rparr>)),
      st_Stat = (\<lambda>key. logged (st_Stat st key) (\<lambda>r. \<lparr>al_op = ''stat'', al_key = key, al_err = errOf r, al_extra = None\<rparr>)),
      st_List = (\<lambda>prefix. logged (st_List st prefix) (\<lambda>r. \<lparr>al_op = ''list'', al_key = prefix, al_err = errOf r, al_extra = Some (sizeOf length r)\<rparr>))\<rparr>"

record opMetric =
  om_op :: string
  om_backend :: string
  om_result :: string

definition recordOp :: "string \<Rightarrow> string \<Rightarrow> 'e option \<Rightarrow> opMetric" where
  "recordOp backend op err = \<lparr>om_op = op, om_backend = backend, om_result = (if err = None then ''ok'' else ''error'')\<rparr>"

definition WithTelemetry :: "'s Storage \<Rightarrow> string \<Rightarrow> ('s \<times> opMetric list) Storage" where
  "WithTelemetry st backend =
     \<lparr>st_Get = (\<lambda>key. logged (st_Get st key) (\<lambda>r. recordOp backend ''get'' (errOf r))),
      st_Put = (\<lambda>key data. logged (st_Put st key data) (recordOp backend ''put'')),
      st_Delete = (\<lambda>key. logged (st_Delete st key) (recordOp backend ''delete'')),
      st_DeletePrefix = (\<lambda>prefix. logged (st_DeletePrefix st prefix) (recordOp backend ''delete_prefix'')),
      st_Stat = (\<lambda>key. logged (st_Stat st key) (\<lambda>r. recordOp backend ''stat'' (errOf r))),
      st_List = (\<lambda>prefix. logged (st_List st prefix) (\<lambda>r. recordOp backend ''list'' (errOf r)))\<rparr>"

subsection \<open>Clean paths\<close>

definition plainSeg :: "string \<Rightarrow> bool" where
  "plainSeg s \<longleftrightarrow> s \<noteq> [] \<and> s \<noteq> ''.'' \<and> s \<noteq> ''..''"

definition cleanPath :: "string \<Rightarrow> bool" where
  "cleanPath s \<longleftrightarrow>
     (case Split s CHR ''/'' of
        [] \<Rightarrow> False
      | x # xs \<Rightarrow> (if x = [] then xs \<noteq> [] else plainSeg x) \<and> list_all plainSeg xs)"

definition isTemp :: "string \<Rightarrow> bool" where
  "isTemp path \<longleftrightarrow> HasPrefix (last (Split path CHR ''/'')) ''.tmp-''"

text \<open>A key as the callers build them: plain segments, the last one not a temporary name.\<close>

definition cleanKey :: "string \<Rightarrow> bool" where
  "cleanKey key \<longleftrightarrow> list_all plainSeg (Split key CHR ''/'') \<and> \<not> isTemp key"

lemma cleanSegments_plain:
  "list_all plainSeg segs \<Longrightarrow> cleanSegments rooted (segs @ res) out = cleanSegments rooted res (rev segs @ out)"
  by (induction segs arbitrary: out) (auto simp: plainSeg_def)

lemma cleanSegments_all: "list_all plainSeg segs \<Longrightarrow> cleanSegments rooted segs out = rev segs @ out"
  using cleanSegments_plain [of segs rooted "[]" out] by simp

lemma Clean_segments:
  assumes "cleanPath s" and t: "Split t CHR ''/'' = Split s CHR ''/'' @ res" and "cleanSegments (HasPrefix t ''/'') res = (\<lambda>out. out)"
    and rooted: "HasPrefix t ''/'' = HasPrefix s ''/''"
  shows "Clean t = s"
proof (cases "Split s CHR ''/''")
  case (Cons x xs)
  show ?thesis
  proof (cases "x = []")
    case True
    then obtain y ys where xs: "xs = y # ys" "list_all plainSeg xs"
      using assms(1) Cons by (cases xs) (auto simp: cleanPath_def)
    have "HasPrefix s ''/''" using Join_Split [of s "CHR ''/''"] Cons True xs by (auto simp: HasPrefix_iff)
    then show ?thesis
      using t Cons True xs assms(3) rooted cleanSegments_plain [OF xs(2), of True res "[]"] Join_Split [of s "CHR ''/''"]
      by (simp add: Clean_def Let_def)
  next
    case False
    with Cons assms(1) have plain: "list_all plainSeg (x # xs)" by (simp add: cleanPath_def)
    have "CHR ''/'' \<notin> set x" using Split_labels_no_sep [of x s "CHR ''/''"] Cons by simp
    moreover have "s = Join (x # xs) ''/''" using Join_Split [of s "CHR ''/''"] Cons by simp
    ultimately have "\<not> HasPrefix s ''/''" using False by (cases x; cases xs) (auto simp: HasPrefix_iff)
    then show ?thesis
      using t Cons assms(3) rooted cleanSegments_plain [OF plain, of False res "[]"] Join_Split [of s "CHR ''/''"]
      by (simp add: Clean_def Let_def)
  qed
qed simp

lemma HasPrefix_append: "s \<noteq> [] \<Longrightarrow> HasPrefix (s @ t) [c] = HasPrefix s [c]"
  by (cases s) (simp_all add: HasPrefix_iff)

lemma cleanPath_not_Nil: "cleanPath s \<Longrightarrow> s \<noteq> []"
  by (auto simp: cleanPath_def)

lemma Clean_cleanPath: "cleanPath s \<Longrightarrow> Clean s = s"
  by (rule Clean_segments [where res = "[]"]) (auto simp: fun_eq_iff)

lemma Clean_trailing: "cleanPath s \<Longrightarrow> Clean (s @ ''/'') = s"
  by (rule Clean_segments [where res = "[[]]"])
    (auto simp: fun_eq_iff Split_append_sep HasPrefix_append cleanPath_not_Nil)

lemma cleanPath_append:
  "cleanPath r \<Longrightarrow> list_all plainSeg (Split k CHR ''/'') \<Longrightarrow> cleanPath (r @ CHR ''/'' # k)"
  by (auto simp: cleanPath_def Split_append_sep split: list.splits if_splits)

lemma cleanPath_join:
  assumes "cleanPath r" and "list_all plainSeg (Split k CHR ''/'')"
  shows "filepath_Join r k = r @ CHR ''/'' # k"
  using Clean_cleanPath [OF cleanPath_append [OF assms]] cleanPath_not_Nil [OF assms(1)] assms(2)
  by (auto simp: filepath_Join_def plainSeg_def)

lemma hexEncode_chars: "x \<in> set (hexEncode s) \<Longrightarrow> hexValue x \<noteq> None"
proof -
  have "hexValue (hexDigit (of_char c div 16)) \<noteq> None \<and> hexValue (hexDigit (of_char c mod 16)) \<noteq> None" for c
  proof -
    define b :: nat where "b = of_char c"
    have "b < 256" by (simp add: b_def)
    then have "b div 16 < 16" "b mod 16 < 16" by simp_all
    moreover have "(of_char c :: int) div 16 = int (b div 16)" "(of_char c :: int) mod 16 = int (b mod 16)"
      by (simp_all add: b_def zdiv_int zmod_int of_char_int)
    ultimately show ?thesis using hexValue_hexDigit by simp
  qed
  then show "x \<in> set (hexEncode s) \<Longrightarrow> ?thesis" by (induction s) (auto simp: hexEncode_def)
qed

lemma hexEncode_no_slash: "CHR ''/'' \<notin> set (hexEncode s)"
  using hexEncode_chars [of "CHR ''/''" s] by (auto simp: hexValue_def Let_def)

lemma hexEncode_no_dot: "CHR ''.'' \<notin> set (hexEncode s)"
  using hexEncode_chars [of "CHR ''.''" s] by (auto simp: hexValue_def Let_def)

lemma plainSeg_temp: "plainSeg (''.tmp-'' @ s)"
  by (simp add: plainSeg_def)

text \<open>Where the file of a key lies, and that the temporary file of its write lies elsewhere.\<close>

lemma posix_path_key:
  assumes "cleanPath (px_root p)" and "cleanKey key"
  shows "posix_path p key = px_root p @ CHR ''/'' # key"
  using cleanPath_join assms by (simp add: posix_path_def cleanKey_def)

lemma posix_path_inj:
  assumes "cleanPath (px_root p)" and "cleanKey key" and "cleanKey key'"
  shows "posix_path p key = posix_path p key' \<longleftrightarrow> key = key'"
  using assms by (simp add: posix_path_key)

lemma temp_of_key:
  assumes "cleanPath r" and "cleanKey key"
  shows "\<not> isTemp (r @ CHR ''/'' # key)" and "isTemp (randomTempName (filepath_Dir (r @ CHR ''/'' # key)) rnd)"
proof -
  let ?path = "r @ CHR ''/'' # key"
  have segs: "Split ?path CHR ''/'' = Split r CHR ''/'' @ Split key CHR ''/''" by (simp add: Split_append_sep)
  then show "\<not> isTemp ?path" using assms(2) by (simp add: isTemp_def cleanKey_def)
  obtain a b where ab: "?path = a @ CHR ''/'' # b" "CHR ''/'' \<notin> set b"
    by (rule split_last_sep [of "CHR ''/''" ?path]) simp
  then have ab': "Split a CHR ''/'' @ [b] = Split r CHR ''/'' @ Split key CHR ''/''"
    using segs by (simp add: Split_append_sep Split_no_sep)
  then have a: "Split a CHR ''/'' = Split r CHR ''/'' @ butlast (Split key CHR ''/'')"
    by (metis Split_not_Nil butlast_append butlast_snoc)
  have "list_all plainSeg (butlast (Split key CHR ''/''))"
    using assms(2) by (auto simp: cleanKey_def list_all_iff dest: in_set_butlastD)
  then have "cleanPath a" using assms(1) by (auto simp: cleanPath_def a split: list.splits if_splits)
  moreover have "filepath_Dir ?path = Clean (a @ ''/'')"
    using ab by (simp add: filepath_Dir_def Let_def LastIndexByte_append nat_add_distrib)
  ultimately have dir: "filepath_Dir ?path = a" "cleanPath a" by (simp_all add: Clean_trailing)
  have "CHR ''/'' \<notin> set (''.tmp-'' @ hexEncode rnd)" by (simp add: hexEncode_no_slash)
  note base = Split_no_sep [OF this]
  then have "randomTempName a rnd = a @ CHR ''/'' # ''.tmp-'' @ hexEncode rnd"
    unfolding randomTempName_def using cleanPath_join [OF dir(2)] plainSeg_temp by simp
  then show "isTemp (randomTempName (filepath_Dir ?path) rnd)"
    using base by (simp add: dir isTemp_def Split_append_sep HasPrefix_iff)
qed

subsection \<open>The atomic write\<close>

lemma writeSteps_all:
  assumes "tmp \<noteq> path" and "d' \<in> set (writeSteps d tmp path data)" and "q \<noteq> tmp"
  shows "disk_find d' q = disk_find d q \<or>
    (q = path \<and> disk_find d' q = Some \<lparr>fi_data = data, fi_mtime = dk_clock d\<rparr> \<and> disk_find d' tmp = None)"
  using assms by (auto simp: writeSteps_def Let_def disk_rename_def split: if_splits)

lemma writeSteps_last:
  assumes "tmp \<noteq> path" and "disk_find d tmp = None"
  shows "disk_find (last (writeSteps d tmp path data)) q =
    (if q = path then Some \<lparr>fi_data = data, fi_mtime = dk_clock d\<rparr> else disk_find d q)"
    and "dk_clock (last (writeSteps d tmp path data)) = dk_clock d"
    and "dk_faulty (last (writeSteps d tmp path data)) = dk_faulty d"
  using assms by (auto simp: writeSteps_def Let_def disk_rename_def) (simp_all add: disk_put_def disk_remove_def)

subsection \<open>The contract of a backend\<close>

text \<open>
  What the callers of a backend rely on while it is reachable: \<open>view\<close> is the value and
  the version of each key.
\<close>

locale blob_store =
  fixes st :: "'s Storage"
    and view :: "'s \<Rightarrow> string \<Rightarrow> (string \<times> Version) option"
    and ready :: "'s \<Rightarrow> bool"
    and keys :: "string \<Rightarrow> bool"
  assumes Get: "ready s \<Longrightarrow> keys k \<Longrightarrow> st_Get st k s = (case view s k of None \<Rightarrow> Inl ErrNotExist | Some x \<Rightarrow> Inr x, s)"
    and Stat: "ready s \<Longrightarrow> keys k \<Longrightarrow> st_Stat st k s = (case view s k of None \<Rightarrow> Inl ErrNotExist | Some (d, v) \<Rightarrow> Inr v, s)"
    and Put: "ready s \<Longrightarrow> keys k \<Longrightarrow> \<exists>v s'. st_Put st k d s = (None, s') \<and> ready s' \<and> view s' k = Some (d, v) \<and>
        (\<forall>k'. keys k' \<longrightarrow> k' \<noteq> k \<longrightarrow> view s' k' = view s k')"
    and Delete: "ready s \<Longrightarrow> keys k \<Longrightarrow> \<exists>s'. st_Delete st k s = (None, s') \<and> ready s' \<and> view s' k = None \<and>
        (\<forall>k'. keys k' \<longrightarrow> k' \<noteq> k \<longrightarrow> view s' k' = view s k')"
begin

lemma Get_after_Put:
  assumes "ready s" and "keys k"
  shows "\<exists>v s'. st_Put st k d s = (None, s') \<and> ready s' \<and> st_Get st k s' = (Inr (d, v), s') \<and> st_Stat st k s' = (Inr v, s')"
  using Put [OF assms, of d] Get [OF _ assms(2)] Stat [OF _ assms(2)] by fastforce

lemma Get_after_Put_other:
  assumes "ready s" and "keys k" and "keys k'" and "k' \<noteq> k"
  shows "\<exists>s'. st_Put st k d s = (None, s') \<and> fst (st_Get st k' s') = fst (st_Get st k' s)"
  using Put [OF assms(1,2), of d] Get [OF _ assms(3)] assms by fastforce

lemma Get_after_Delete:
  assumes "ready s" and "keys k"
  shows "\<exists>s'. st_Delete st k s = (None, s') \<and> ready s' \<and> st_Get st k s' = (Inl ErrNotExist, s')"
  using Delete [OF assms] Get [OF _ assms(2)] by fastforce

end

definition posix_view :: "PosixStorage \<Rightarrow> disk \<Rightarrow> string \<Rightarrow> (string \<times> Version) option" where
  "posix_view p d key = map_option (\<lambda>f. (fi_data f, versionOf f)) (disk_find d (posix_path p key))"

text \<open>A disk at rest: no faults, and no temporary file left behind.\<close>

definition posix_ready :: "PosixStorage \<Rightarrow> disk \<Rightarrow> bool" where
  "posix_ready p d \<longleftrightarrow>
     cleanPath (px_root p) \<and> (\<forall>q. \<not> dk_faulty d q) \<and> (\<forall>q. isTemp q \<longrightarrow> disk_find d q = None)"

lemma posix_Put_ready:
  assumes "posix_ready p d" and "cleanKey key"
  shows "\<exists>d'. posix_Put p key data d = (None, d') \<and> posix_ready p d' \<and>
    (\<forall>q. disk_find d' q = (if q = posix_path p key then Some \<lparr>fi_data = data, fi_mtime = dk_clock d\<rparr> else disk_find d q))"
proof -
  let ?path = "posix_path p key" and ?tmp = "randomTempName (filepath_Dir (posix_path p key)) (px_rand p d)"
  have path: "?path = px_root p @ CHR ''/'' # key" using assms by (simp add: posix_path_key posix_ready_def)
  have temp: "\<not> isTemp ?path" "isTemp ?tmp" using temp_of_key assms by (simp_all add: path posix_ready_def)
  then have ne: "?tmp \<noteq> ?path" by auto
  have free: "disk_find d ?tmp = None" using temp assms(1) by (simp add: posix_ready_def)
  note last = writeSteps_last [OF ne free, of data]
  have "posix_Put p key data d = (None, last (writeSteps d ?tmp ?path data))"
    using assms(1) free by (simp add: posix_Put_def WriteFileAtomic_def posix_ready_def Let_def)
  moreover have "posix_ready p (last (writeSteps d ?tmp ?path data))"
    using assms(1) last temp by (auto simp: posix_ready_def)
  ultimately show ?thesis using last(1) by blast
qed

interpretation posix_store: blob_store "posixStorage p" "posix_view p" "posix_ready p" cleanKey
proof unfold_locales
  fix s k assume "posix_ready p s" "cleanKey k"
  then show "st_Get (posixStorage p) k s = (case posix_view p s k of None \<Rightarrow> Inl ErrNotExist | Some x \<Rightarrow> Inr x, s)"
      "st_Stat (posixStorage p) k s = (case posix_view p s k of None \<Rightarrow> Inl ErrNotExist | Some (d, v) \<Rightarrow> Inr v, s)"
    by (simp_all add: posixStorage_def posix_Get_def posix_Stat_def posix_view_def posix_ready_def Let_def split: option.split)
next
  fix s k d assume s: "posix_ready p s" and k: "cleanKey k"
  from posix_Put_ready [OF s k, of d] obtain s' where s': "posix_Put p k d s = (None, s')" "posix_ready p s'"
      "\<And>q. disk_find s' q = (if q = posix_path p k then Some \<lparr>fi_data = d, fi_mtime = dk_clock s\<rparr> else disk_find s q)"
    by blast
  moreover have "posix_path p k' \<noteq> posix_path p k" if "cleanKey k'" "k' \<noteq> k" for k'
    using posix_path_inj [of p k' k] s k that by (simp add: posix_ready_def)
  ultimately show "\<exists>v s'. st_Put (posixStorage p) k d s = (None, s') \<and> posix_ready p s' \<and> posix_view p s' k = Some (d, v) \<and>
      (\<forall>k'. cleanKey k' \<longrightarrow> k' \<noteq> k \<longrightarrow> posix_view p s' k' = posix_view p s k')"
    by (intro exI [of _ "versionOf \<lparr>fi_data = d, fi_mtime = dk_clock s\<rparr>"] exI [of _ s'])
      (simp add: posixStorage_def posix_view_def)
next
  fix s k assume s: "posix_ready p s" and k: "cleanKey k"
  have "posix_path p k' \<noteq> posix_path p k" if "cleanKey k'" "k' \<noteq> k" for k'
    using posix_path_inj [of p k' k] s k that by (simp add: posix_ready_def)
  moreover have "posix_ready p (disk_remove (posix_path p k) s)"
    using s by (auto simp: posix_ready_def) (simp add: disk_remove_def)
  ultimately show "\<exists>s'. st_Delete (posixStorage p) k s = (None, s') \<and> posix_ready p s' \<and> posix_view p s' k = None \<and>
      (\<forall>k'. cleanKey k' \<longrightarrow> k' \<noteq> k \<longrightarrow> posix_view p s' k' = posix_view p s k')"
    using s by (intro exI [of _ "disk_remove (posix_path p k) s"])
      (simp add: posixStorage_def posix_Delete_def posix_view_def posix_ready_def Let_def)
qed

subsection \<open>Properties\<close>

definition demoPosix :: PosixStorage where
  "demoPosix = \<lparr>px_root = ''/var/lib/mitmania'', px_rand = (\<lambda>d. ''rnd'')\<rparr>"

definition emptyDisk :: "int \<Rightarrow> disk" where
  "emptyDisk clock = \<lparr>dk_files = [], dk_clock = clock, dk_faulty = (\<lambda>_. False)\<rparr>"

lemma emptyDisk_ready: "posix_ready demoPosix (emptyDisk t)"
proof -
  have "cleanPath (px_root demoPosix)" by code_simp
  then show ?thesis by (simp add: posix_ready_def emptyDisk_def disk_find_def)
qed

lemma demoKey_clean: "cleanKey ''rules/default''"
  by code_simp



datatype storageCall = CallGet string | CallPut string string | CallDelete string | CallDeletePrefix string | CallStat string | CallList string

datatype storageReply = ReplyGet "(storageError, string \<times> Version) res" | ReplyErr "storageError option"
  | ReplyStat "(storageError, Version) res" | ReplyList "(storageError, StorageEntry list) res"

fun runCall :: "'s Storage \<Rightarrow> storageCall \<Rightarrow> 's \<Rightarrow> storageReply \<times> 's" where
  "runCall st (CallGet key) s = apfst ReplyGet (st_Get st key s)"
| "runCall st (CallPut key data) s = apfst ReplyErr (st_Put st key data s)"
| "runCall st (CallDelete key) s = apfst ReplyErr (st_Delete st key s)"
| "runCall st (CallDeletePrefix prefix) s = apfst ReplyErr (st_DeletePrefix st prefix s)"
| "runCall st (CallStat key) s = apfst ReplyStat (st_Stat st key s)"
| "runCall st (CallList prefix) s = apfst ReplyList (st_List st prefix s)"

fun runCalls :: "'s Storage \<Rightarrow> storageCall list \<Rightarrow> 's \<Rightarrow> storageReply list \<times> 's" where
  "runCalls st [] s = ([], s)"
| "runCalls st (c # cs) s = (let (r, s') = runCall st c s; (rs, s'') = runCalls st cs s' in (r # rs, s''))"

lemma logged_split: "logged act entry (s, l) = (fst (act s), snd (act s), entry (fst (act s)) # l)"
  by (simp add: logged_def split: prod.split)

lemma runCall_logging:
  "\<exists>e. runCall (WithLogging st) c (s, l) = (fst (runCall st c s), snd (runCall st c s), e # l)"
  "\<exists>e. runCall (WithTelemetry st backend) c (s, m) = (fst (runCall st c s), snd (runCall st c s), e # m)"
  by (cases c; simp add: WithLogging_def WithTelemetry_def logged_split apfst_def map_prod_def split: prod.split)+

lemma runCalls_decorated:
  assumes "\<And>c s l. \<exists>e. runCall dec c (s, l) = (fst (runCall st c s), snd (runCall st c s), e # l)"
  shows "\<exists>l'. runCalls dec cs (s, l) = (fst (runCalls st cs s), snd (runCalls st cs s), l' @ l) \<and> length l' = length cs"
proof (induction cs arbitrary: s l)
  case (Cons c cs)
  obtain e where e: "runCall dec c (s, l) = (fst (runCall st c s), snd (runCall st c s), e # l)"
    using assms by blast
  from Cons [of "snd (runCall st c s)" "e # l"] show ?case
    by (auto simp: e split: prod.splits)
qed simp

text \<open>
  The logging and the telemetry decorators are transparent: through any number of calls of any
  operation, the results and the inner state are those of the undecorated backend, and each
  call adds one record.
\<close>

theorem decorators_transparent:
  "(\<exists>l'. runCalls (WithLogging st) cs (s, l) = (fst (runCalls st cs s), snd (runCalls st cs s), l' @ l) \<and> length l' = length cs) \<and>
   (\<exists>m'. runCalls (WithTelemetry st backend) cs (s, m) = (fst (runCalls st cs s), snd (runCalls st cs s), m' @ m) \<and> length m' = length cs)"
  by (intro conjI runCalls_decorated runCall_logging)

text \<open>
  The version of the file-system backend is the modification time and the size alone, so two
  different values of the same length written at one clock reading have the same version: a reader
  that trusts the version keeps the first.
\<close>

theorem posix_version_collision:
  assumes "posix_ready p d" and "cleanKey key" and "length a = length b"
  shows "fst (posix_Stat p key (snd (posix_Put p key a d))) = fst (posix_Stat p key (snd (posix_Put p key b d))) \<and>
    fst (posix_Get p key (snd (posix_Put p key a d))) = Inr (a, versionOf \<lparr>fi_data = b, fi_mtime = dk_clock d\<rparr>) \<and>
    fst (posix_Get p key (snd (posix_Put p key b d))) = Inr (b, versionOf \<lparr>fi_data = b, fi_mtime = dk_clock d\<rparr>)"
  using posix_Put_ready [OF assms(1,2), of a] posix_Put_ready [OF assms(1,2), of b] assms(3)
  by (auto simp: posix_Stat_def posix_Get_def posix_ready_def Let_def versionOf_def)

theorem posix_version_collision_witness:
  "fst (posix_Stat demoPosix ''rules/default'' (snd (posix_Put demoPosix ''rules/default'' ''deny'' (emptyDisk 5)))) =
   fst (posix_Stat demoPosix ''rules/default'' (snd (posix_Put demoPosix ''rules/default'' ''pass'' (emptyDisk 5))))"
  using posix_version_collision [OF emptyDisk_ready demoKey_clean, of "''deny''" "''pass''" 5] by simp

end
