(* ===== verification/Engine.thy ===== *)
theory Engine
  imports DefaultPolicy Storage
begin

text \<open>
  The rule store and the rule engine: \<open>src/internal/rules/store.go\<close> and the caching
  lookup of \<open>src/internal/rules/engine.go\<close>. The engine's state is its two caches; the
  world it runs in is a state of the storage backend from which the clock and the uuid generator
  also read, so every call may see the effect of other nodes. Log records, metrics and trace
  spans are left out.
\<close>

record 's sys =
  sy_store :: "'s Storage"
  sy_Now :: "'s \<Rightarrow> int \<times> 's"
  sy_NewUUID :: "'s \<Rightarrow> string \<times> 's"
  sy_sha1 :: "string \<Rightarrow> string"

datatype engineError =
    StoreRead string storageError
  | StoreStat string storageError
  | FileParse string
  | FileAuth authError
  | FileRules compileError
  | FileEgress egressError
  | TableInvalid tableError

subsection \<open>The rule store\<close>

definition ipPrefix :: string where "ipPrefix = ''rules/ip/''"

definition defaultKey :: string where "defaultKey = ''rules/default''"

definition keyFor :: "'s sys \<Rightarrow> Addr \<Rightarrow> string" where
  "keyFor sys client = ipPrefix @ hexEncode (sy_sha1 sys (Addr_String client)) @ ''.json''"

definition emptyRuleFile :: RuleFile where
  "emptyRuleFile = \<lparr>rf_UUID = [], rf_Auth = None, rf_HTTP = [], rf_Egress = None\<rparr>"

definition store_load :: "'s sys \<Rightarrow> jsonlib \<Rightarrow> string \<Rightarrow> 's \<Rightarrow> (engineError, RuleFile) res \<times> 's" where
  "store_load sys J key s =
     (case st_Get (sy_store sys) key s of
        (Inl ErrNotExist, s') \<Rightarrow> (Inr emptyRuleFile, s')
      | (Inl e, s') \<Rightarrow> (Inl (StoreRead key e), s')
      | (Inr (data, v), s') \<Rightarrow>
          (case json_ruleFile J data of None \<Rightarrow> Inl (FileParse key) | Some rf \<Rightarrow> Inr rf, s'))"

definition Load :: "'s sys \<Rightarrow> jsonlib \<Rightarrow> Addr \<Rightarrow> 's \<Rightarrow> (engineError, RuleFile) res \<times> 's" where
  "Load sys J client s = store_load sys J (keyFor sys client) s"

definition Save :: "'s sys \<Rightarrow> Addr \<Rightarrow> string \<Rightarrow> 's \<Rightarrow> storageError option \<times> 's" where
  "Save sys client data s = st_Put (sy_store sys) (keyFor sys client) data s"

definition store_Delete :: "'s sys \<Rightarrow> Addr \<Rightarrow> 's \<Rightarrow> storageError option \<times> 's" where
  "store_Delete sys client s = st_Delete (sy_store sys) (keyFor sys client) s"

definition loadRaw :: "'s sys \<Rightarrow> string \<Rightarrow> 's \<Rightarrow> (engineError, string option) res \<times> 's" where
  "loadRaw sys key s =
     (case st_Get (sy_store sys) key s of
        (Inl ErrNotExist, s') \<Rightarrow> (Inr None, s')
      | (Inl e, s') \<Rightarrow> (Inl (StoreRead key e), s')
      | (Inr (data, v), s') \<Rightarrow> (Inr (Some data), s'))"

definition LoadRaw :: "'s sys \<Rightarrow> Addr \<Rightarrow> 's \<Rightarrow> (engineError, string option) res \<times> 's" where
  "LoadRaw sys client s = loadRaw sys (keyFor sys client) s"

definition store_stat :: "'s sys \<Rightarrow> string \<Rightarrow> 's \<Rightarrow> (engineError, Version \<times> bool) res \<times> 's" where
  "store_stat sys key s =
     (case st_Stat (sy_store sys) key s of
        (Inl ErrNotExist, s') \<Rightarrow> (Inr ([], False), s')
      | (Inl e, s') \<Rightarrow> (Inl (StoreStat key e), s')
      | (Inr v, s') \<Rightarrow> (Inr (v, True), s'))"

definition store_Stat :: "'s sys \<Rightarrow> Addr \<Rightarrow> 's \<Rightarrow> (engineError, Version \<times> bool) res \<times> 's" where
  "store_Stat sys client s = store_stat sys (keyFor sys client) s"

definition LoadRawDefault :: "'s sys \<Rightarrow> 's \<Rightarrow> (engineError, string option) res \<times> 's" where
  "LoadRawDefault sys s = loadRaw sys defaultKey s"

definition SaveDefault :: "'s sys \<Rightarrow> string \<Rightarrow> 's \<Rightarrow> storageError option \<times> 's" where
  "SaveDefault sys data s = st_Put (sy_store sys) defaultKey data s"

definition StatDefault :: "'s sys \<Rightarrow> 's \<Rightarrow> (engineError, Version \<times> bool) res \<times> 's" where
  "StatDefault sys s = store_stat sys defaultKey s"

text \<open>The seed is the JSON text of the built-in table.\<close>

definition builtinText :: "golib \<Rightarrow> string" where
  "builtinText G = json_Marshal G (JObj (map (\<lambda>(k, rf). (k, ruleFileJSON rf)) BuiltinDefaultRuleset))"

definition EnsureDefault :: "'s sys \<Rightarrow> golib \<Rightarrow> 's \<Rightarrow> (engineError + storageError) option \<times> 's" where
  "EnsureDefault sys G s =
     (case StatDefault sys s of
        (Inl e, s') \<Rightarrow> (Some (Inl e), s')
      | (Inr (v, exists), s') \<Rightarrow>
          if exists then (None, s')
          else apfst (map_option Inr) (SaveDefault sys (builtinText G) s'))"

subsection \<open>The engine\<close>

record cachedRuleSet =
  cc_checkedAt :: int
  cc_version :: Version
  cc_exists :: bool
  cc_ruleSet :: "RuleSet option"
  cc_contentHash :: string

record cachedDefault =
  cd_checkedAt :: int
  cd_version :: Version
  cd_exists :: bool
  cd_ruleset :: "DefaultRuleset option"

record RuleEngine =
  re_cacheTTL :: int
  re_cache :: "Addr \<rightharpoonup> cachedRuleSet"
  re_defaultCache :: "cachedDefault option"

definition NewRuleEngine :: "int \<Rightarrow> RuleEngine" where
  "NewRuleEngine ttl = \<lparr>re_cacheTTL = ttl, re_cache = (\<lambda>_. None), re_defaultCache = None\<rparr>"

text \<open>The clock is read only when the cache is enabled.\<close>

definition fresh :: "'s sys \<Rightarrow> RuleEngine \<Rightarrow> int \<Rightarrow> 's \<Rightarrow> bool \<times> 's" where
  "fresh sys e checkedAt s =
     (if 0 < re_cacheTTL e then (let (now, s') = sy_Now sys s in (now - checkedAt < re_cacheTTL e, s')) else (False, s))"

definition setDefault :: "'s sys \<Rightarrow> Version \<Rightarrow> bool \<Rightarrow> DefaultRuleset option \<Rightarrow> RuleEngine \<Rightarrow> 's \<Rightarrow> RuleEngine \<times> 's" where
  "setDefault sys version exists ruleset e s =
     (let (now, s') = sy_Now sys s in
      (e\<lparr>re_defaultCache := Some \<lparr>cd_checkedAt = now, cd_version = version, cd_exists = exists, cd_ruleset = ruleset\<rparr>\<rparr>, s'))"

fun mintEntries :: "'s sys \<Rightarrow> parsedEntry list \<Rightarrow> 's \<Rightarrow> bool \<times> parsedEntry list \<times> 's" where
  "mintEntries sys [] s = (False, [], s)"
| "mintEntries sys (pe # pes) s =
     (if rf_UUID (pe_rule pe) = [] then
        (let (u, s1) = sy_NewUUID sys s; (m, pes', s2) = mintEntries sys pes s1 in
         (True, pe\<lparr>pe_rule := (pe_rule pe)\<lparr>rf_UUID := u\<rparr>\<rparr> # pes', s2))
      else (let (m, pes', s1) = mintEntries sys pes s in (m, pe # pes', s1)))"

definition persistDefault :: "'s sys \<Rightarrow> golib \<Rightarrow> bool \<Rightarrow> parsedEntry list \<Rightarrow> Version \<times> bool \<Rightarrow> 's \<Rightarrow> (Version \<times> bool) \<times> 's" where
  "persistDefault sys G minted entries ve s =
     (if minted then
        (case SaveDefault sys (marshalCanonical G entries) s of
           (Some _, s') \<Rightarrow> (ve, s')
         | (None, s') \<Rightarrow>
             (case StatDefault sys s' of
                (Inl _, s'') \<Rightarrow> (ve, s'')
              | (Inr ve', s'') \<Rightarrow> (ve', s'')))
      else (ve, s))"

definition recompileDefault ::
    "'s sys \<Rightarrow> golib \<Rightarrow> jsonlib \<Rightarrow> Version \<Rightarrow> RuleEngine \<Rightarrow> 's \<Rightarrow> (engineError, DefaultRuleset option) res \<times> RuleEngine \<times> 's" where
  "recompileDefault sys G J version e s =
     (case LoadRawDefault sys s of
        (Inl err, s1) \<Rightarrow> (Inl err, e, s1)
      | (Inr raw, s1) \<Rightarrow>
          (case parseDefaultRuleset J (case raw of None \<Rightarrow> [] | Some data \<Rightarrow> data) of
             Inl err \<Rightarrow> (Inl (TableInvalid err), e, s1)
           | Inr entries0 \<Rightarrow>
               (let (minted, entries, s2) = mintEntries sys entries0 s1;
                    ((version', exists'), s3) = persistDefault sys G minted entries (version, True) s2;
                    prev = (case re_defaultCache e of None \<Rightarrow> None | Some c \<Rightarrow> cd_ruleset c) in
                case compileParsedEntries G entries prev of
                  Inl err \<Rightarrow> (Inl (TableInvalid err), e, s3)
                | Inr compiled \<Rightarrow>
                    (let (e', s4) = setDefault sys version' exists' (Some compiled) e s3 in (Inr (Some compiled), e', s4)))))"

definition lookupDefaultTable ::
    "'s sys \<Rightarrow> golib \<Rightarrow> jsonlib \<Rightarrow> RuleEngine \<Rightarrow> 's \<Rightarrow> (engineError, DefaultRuleset option) res \<times> RuleEngine \<times> 's" where
  "lookupDefaultTable sys G J e s =
     (let cached = re_defaultCache e;
          (isFresh, s1) = (case cached of None \<Rightarrow> (False, s) | Some c \<Rightarrow> fresh sys e (cd_checkedAt c) s) in
      case cached of
        Some c \<Rightarrow>
          if isFresh then (Inr (cd_ruleset c), e, s1)
          else (case StatDefault sys s1 of
            (Inl err, s2) \<Rightarrow> if 0 < re_cacheTTL e then (Inr (cd_ruleset c), e, s2) else (Inl err, e, s2)
          | (Inr (version, exists), s2) \<Rightarrow>
              if cd_version c = version \<and> cd_exists c = exists then
                (let (e', s3) = setDefault sys version exists (cd_ruleset c) e s2 in (Inr (cd_ruleset c), e', s3))
              else if \<not> exists then
                (let (e', s3) = setDefault sys version False None e s2 in (Inr None, e', s3))
              else recompileDefault sys G J version e s2)
      | None \<Rightarrow>
          (case StatDefault sys s1 of
            (Inl err, s2) \<Rightarrow> (Inl err, e, s2)
          | (Inr (version, exists), s2) \<Rightarrow>
              if \<not> exists then
                (let (e', s3) = setDefault sys version False None e s2 in (Inr None, e', s3))
              else recompileDefault sys G J version e s2))"

definition fromTable :: "DefaultRuleset option \<Rightarrow> Addr \<Rightarrow> RuleSet option" where
  "fromTable def client = (case def of None \<Rightarrow> None | Some d \<Rightarrow> table_Lookup d client)"

definition resolveClientCache ::
    "'s sys \<Rightarrow> golib \<Rightarrow> jsonlib \<Rightarrow> Addr \<Rightarrow> cachedRuleSet \<Rightarrow> RuleEngine \<Rightarrow> 's \<Rightarrow> (engineError, RuleSet option) res \<times> RuleEngine \<times> 's" where
  "resolveClientCache sys G J client cached e s =
     (if cc_exists cached then (Inr (cc_ruleSet cached), e, s)
      else case lookupDefaultTable sys G J e s of
        (Inl err, e', s') \<Rightarrow> (Inl err, e', s')
      | (Inr def, e', s') \<Rightarrow>
          (case fromTable def client of
             Some rs \<Rightarrow> (Inr (Some rs), e', s')
           | None \<Rightarrow> (Inr (Some emptyRuleSet), e', s')))"

definition setClient :: "'s sys \<Rightarrow> Addr \<Rightarrow> (int \<Rightarrow> cachedRuleSet) \<Rightarrow> RuleEngine \<Rightarrow> 's \<Rightarrow> RuleEngine \<times> 's" where
  "setClient sys client entry e s =
     (let (now, s') = sy_Now sys s in (e\<lparr>re_cache := (re_cache e)(client \<mapsto> entry now)\<rparr>, s'))"

definition touchClientCache :: "'s sys \<Rightarrow> Addr \<Rightarrow> cachedRuleSet \<Rightarrow> RuleEngine \<Rightarrow> 's \<Rightarrow> RuleEngine \<times> 's" where
  "touchClientCache sys client cached e s = setClient sys client (\<lambda>now. cached\<lparr>cc_checkedAt := now\<rparr>) e s"

definition resolveEgress ::
    "'s sys \<Rightarrow> golib \<Rightarrow> jsonlib \<Rightarrow> Addr \<Rightarrow> RuleFile \<Rightarrow> RuleEngine \<Rightarrow> 's \<Rightarrow> (engineError, CompiledEgress list) res \<times> RuleEngine \<times> 's" where
  "resolveEgress sys G J client rf e s =
     (case rf_Egress rf of
        Some es \<Rightarrow> (case CompileEgress G es of Inl err \<Rightarrow> Inl (FileEgress err) | Inr ces \<Rightarrow> Inr ces, e, s)
      | None \<Rightarrow>
          (case lookupDefaultTable sys G J e s of
             (Inl err, e', s') \<Rightarrow> (Inl err, e', s')
           | (Inr def, e', s') \<Rightarrow>
               (case fromTable def client of
                  Some rs \<Rightarrow> (Inr (rs_egress rs), e', s')
                | None \<Rightarrow> (Inr [], e', s'))))"

text \<open>A file without a uuid gets one, which is written back if possible.\<close>

definition mintUUID :: "'s sys \<Rightarrow> golib \<Rightarrow> Addr \<Rightarrow> RuleFile \<Rightarrow> Version \<Rightarrow> 's \<Rightarrow> (RuleFile \<times> Version) \<times> 's" where
  "mintUUID sys G client rf version s =
     (if rf_UUID rf = [] then
        (let (u, s1) = sy_NewUUID sys s; rf' = rf\<lparr>rf_UUID := u\<rparr> in
         case Save sys client (json_Marshal G (ruleFileJSON rf')) s1 of
           (Some _, s2) \<Rightarrow> ((rf', version), s2)
         | (None, s2) \<Rightarrow>
             (case store_Stat sys client s2 of
                (Inl _, s3) \<Rightarrow> ((rf', version), s3)
              | (Inr (newVersion, _), s3) \<Rightarrow> ((rf', newVersion), s3)))
      else ((rf, version), s))"

definition lookupIP ::
    "'s sys \<Rightarrow> golib \<Rightarrow> jsonlib \<Rightarrow> Addr \<Rightarrow> Version \<Rightarrow> cachedRuleSet option \<Rightarrow> RuleEngine \<Rightarrow> 's \<Rightarrow>
     (engineError, RuleSet option) res \<times> RuleEngine \<times> 's" where
  "lookupIP sys G J client version prevCache e s =
     (case Load sys J client s of
        (Inl err, s1) \<Rightarrow> (Inl err, e, s1)
      | (Inr rf0, s1) \<Rightarrow>
          (let ((rf, version'), s2) = mintUUID sys G client rf0 version s1;
               hash = contentHash G rf;
               reusable = (case prevCache of
                 Some c \<Rightarrow> if cc_exists c \<and> cc_contentHash c = hash then cc_ruleSet c else None
               | None \<Rightarrow> None);
               entry = (\<lambda>rs now. \<lparr>cc_checkedAt = now, cc_version = version', cc_exists = True, cc_ruleSet = Some rs, cc_contentHash = hash\<rparr>) in
           case reusable of
             Some rs \<Rightarrow> (let (e', s3) = setClient sys client (entry rs) e s2 in (Inr (Some rs), e', s3))
           | None \<Rightarrow>
               (case CompileAuth (rf_Auth rf) of
                  Inl err \<Rightarrow> (Inl (FileAuth err), e, s2)
                | Inr auth \<Rightarrow>
                    (case Compile G (rf_HTTP rf) of
                       Inl err \<Rightarrow> (Inl (FileRules err), e, s2)
                     | Inr compiled \<Rightarrow>
                         (case resolveEgress sys G J client rf e s2 of
                            (Inl err, e1, s3) \<Rightarrow> (Inl err, e1, s3)
                          | (Inr egress, e1, s3) \<Rightarrow>
                              (let rs = newRuleSet compiled egress (rf_UUID rf) auth;
                                   (e2, s4) = setClient sys client (entry rs) e1 s3 in
                               (Inr (Some rs), e2, s4)))))))"

definition Lookup ::
    "'s sys \<Rightarrow> golib \<Rightarrow> jsonlib \<Rightarrow> Addr \<Rightarrow> RuleEngine \<Rightarrow> 's \<Rightarrow> (engineError, RuleSet option) res \<times> RuleEngine \<times> 's" where
  "Lookup sys G J client e s =
     (let cached = re_cache e client;
          (isFresh, s1) = (case cached of None \<Rightarrow> (False, s) | Some c \<Rightarrow> fresh sys e (cc_checkedAt c) s) in
      case (if isFresh then cached else None) of
        Some c \<Rightarrow> resolveClientCache sys G J client c e s1
      | None \<Rightarrow>
          (case store_Stat sys client s1 of
             (Inl err, s2) \<Rightarrow>
               (case (if 0 < re_cacheTTL e then cached else None) of
                  Some c \<Rightarrow> resolveClientCache sys G J client c e s2
                | None \<Rightarrow> (Inl err, e, s2))
           | (Inr (version, exists), s2) \<Rightarrow>
               (case (case cached of Some c \<Rightarrow> if cc_version c = version \<and> cc_exists c = exists then Some c else None | None \<Rightarrow> None) of
                  Some c \<Rightarrow> (let (e', s3) = touchClientCache sys client c e s2 in resolveClientCache sys G J client c e' s3)
                | None \<Rightarrow>
                    if \<not> exists then
                      (let entry = (\<lambda>now. \<lparr>cc_checkedAt = now, cc_version = version, cc_exists = False, cc_ruleSet = None, cc_contentHash = []\<rparr>);
                           (now, s3) = sy_Now sys s2;
                           e' = e\<lparr>re_cache := (re_cache e)(client \<mapsto> entry now)\<rparr> in
                       resolveClientCache sys G J client (entry now) e' s3)
                    else lookupIP sys G J client version cached e s2)))"

end
