(* ===== verification/RoundTrip.thy ===== *)
theory RoundTrip
  imports Actions Engine
begin

text \<open>
  The upstream side of a connection: \<open>src/internal/proxy/upstream.go\<close> (the dialer) and \<open>roundtrip.go\<close> (the HTTP/1.1
  and HTTP/2 round trippers). The world a handler runs in is a state record; what the network and the peers do is a
  parameter indexed by the step of the run, so that every behaviour of theirs is covered. Each observable act is
  appended to the trace. Log records, metrics, spans and deadlines that only bound a wait are left out.
\<close>

subsection \<open>The world\<close>

datatype event =
    Dialed string
  | DialedTLS string string "string list"
  | Sent nat httpRequest int
  | Closed nat
  | Page string Spec
  | Access string string string int
  | Established
  | Spliced string
  | Replied httpResponse
  | FallbackPage string string Spec
  | Upgraded nat
  | CAPage string
  | StreamReset
  | Panicked

text \<open>
  \<open>wd_client\<close> holds the bytes the client sends from here on, \<open>wd_pending\<close> those that arrived on an upstream connection
  and were not read yet. A connection is named by the step it was opened in.
\<close>

record 's world =
  wd_engine :: RuleEngine
  wd_store :: 's
  wd_outcall :: outcallState
  wd_step :: nat
  wd_client :: string
  wd_pending :: "nat \<Rightarrow> string"
  wd_trace :: "event list"

record 's env =
  en_sys :: "'s sys"
  en_G :: golib
  en_J :: jsonlib
  en_IDKey :: argon2_IDKey
  en_idna :: "string \<Rightarrow> string option"
  en_oc :: outcallEnv
  en_LookupNetIP :: "nat \<Rightarrow> string \<Rightarrow> (netError, Addr list) res"
  en_DialContext :: "nat \<Rightarrow> string \<Rightarrow> netError option"
  en_Handshake :: "nat \<Rightarrow> string \<Rightarrow> string list \<Rightarrow> (netError, string) res"
  en_NewClientConn :: "nat \<Rightarrow> nat \<Rightarrow> netError option"
  en_CanTakeNewRequest :: "nat \<Rightarrow> nat \<Rightarrow> bool"
  en_H2RoundTrip :: "nat \<Rightarrow> nat \<Rightarrow> httpRequest \<Rightarrow> (netError, httpResponse) res"
  en_TimerFired :: "nat \<Rightarrow> bool"
  en_Write :: "nat \<Rightarrow> nat \<Rightarrow> httpRequest \<Rightarrow> netError option \<times> int"
  en_origin :: "nat \<Rightarrow> nat \<Rightarrow> httpRequest \<Rightarrow> string"
  en_readErr :: "nat \<Rightarrow> readError"
  en_ReadResponse :: "httpRequest \<Rightarrow> string \<Rightarrow> string \<Rightarrow> (netError, httpResponse \<times> nat) res"
  en_ReadRequest :: "string \<Rightarrow> string \<Rightarrow> (httpRequest \<times> nat) option"
  en_ClientWrite :: "nat \<Rightarrow> bool"
  en_Hello :: "nat \<Rightarrow> string \<Rightarrow> (readError, string) res \<times> string"
  en_For :: "nat \<Rightarrow> string \<Rightarrow> bool"
  en_FallbackCert :: "nat \<Rightarrow> string \<Rightarrow> bool"
  en_ClientHandshake :: "nat \<Rightarrow> string list \<Rightarrow> string option"
  en_Decrypt :: "nat \<Rightarrow> string \<Rightarrow> string"
  en_Streams :: "nat \<Rightarrow> httpRequest list"

definition emit :: "event \<Rightarrow> 's world \<Rightarrow> 's world" where
  "emit e w = w\<lparr>wd_trace := wd_trace w @ [e]\<rparr>"

definition advance :: "'s world \<Rightarrow> 's world" where
  "advance w = w\<lparr>wd_step := wd_step w + 1\<rparr>"

definition plainErr :: "string \<Rightarrow> netError" where
  "plainErr t = \<lparr>ne_dns = False, ne_timeout = False, ne_eof = False, ne_text = t\<rparr>"

subsection \<open>The dialer\<close>

definition fromRetry :: "(netError retryError, 'a) res \<times> 'w \<Rightarrow> (netError, 'a) res \<times> 'w" where
  "fromRetry x =
     (case x of
        (Inr v, w) \<Rightarrow> (Inr v, w)
      | (Inl TriesNotPositive, w) \<Rightarrow> (Inl (plainErr ''withRetries: tries must be >= 1''), w)
      | (Inl (LastError e), w) \<Rightarrow> (Inl e, w))"

definition dialOnce :: "'s env \<Rightarrow> string \<Rightarrow> 's world \<Rightarrow> (netError, nat) res \<times> 's world" where
  "dialOnce E addr w =
     (let w' = emit (Dialed addr) (advance w) in
      case en_DialContext E (wd_step w) addr of
        Some e \<Rightarrow> (Inl e, w')
      | None \<Rightarrow> (Inr (wd_step w), w'))"

definition Dial :: "'s env \<Rightarrow> int \<Rightarrow> string \<Rightarrow> 's world \<Rightarrow> (netError, nat) res \<times> 's world" where
  "Dial E tries addr w = fromRetry (withRetries tries (dialOnce E addr) w)"

definition dialTLSOnce ::
    "'s env \<Rightarrow> string \<Rightarrow> string \<Rightarrow> string list \<Rightarrow> 's world \<Rightarrow> (netError, nat \<times> string) res \<times> 's world" where
  "dialTLSOnce E addr serverName nextProtos w =
     (let w' = emit (DialedTLS addr serverName nextProtos) (advance w) in
      case en_DialContext E (wd_step w) addr of
        Some e \<Rightarrow> (Inl e, w')
      | None \<Rightarrow>
          (case en_Handshake E (wd_step w) serverName nextProtos of
             Inl e \<Rightarrow> (Inl e, emit (Closed (wd_step w)) w')
           | Inr negotiated \<Rightarrow> (Inr (wd_step w, negotiated), w')))"

definition dialTLS ::
    "'s env \<Rightarrow> int \<Rightarrow> string \<Rightarrow> string \<Rightarrow> string list \<Rightarrow> 's world \<Rightarrow> (netError, nat \<times> string) res \<times> 's world" where
  "dialTLS E tries addr serverName nextProtos w =
     fromRetry (withRetries tries (dialTLSOnce E addr serverName nextProtos) w)"

definition DialTLS :: "'s env \<Rightarrow> int \<Rightarrow> string \<Rightarrow> string \<Rightarrow> 's world \<Rightarrow> (netError, nat \<times> string) res \<times> 's world" where
  "DialTLS E tries addr serverName w = dialTLS E tries addr serverName [''h2'', ''http/1.1''] w"

definition DialTLSH1Only :: "'s env \<Rightarrow> int \<Rightarrow> string \<Rightarrow> string \<Rightarrow> 's world \<Rightarrow> (netError, nat \<times> string) res \<times> 's world" where
  "DialTLSH1Only E tries addr serverName w = dialTLS E tries addr serverName [''http/1.1''] w"

definition LookupIP :: "'s env \<Rightarrow> nat \<Rightarrow> resolver" where
  "LookupIP E t host = (case en_LookupNetIP E t host of Inl e \<Rightarrow> Inl e | Inr ips \<Rightarrow> Inr (map Unmap ips))"

definition dialResultLabel :: "netError option \<Rightarrow> string" where
  "dialResultLabel err =
     (case err of
        None \<Rightarrow> ''ok''
      | Some e \<Rightarrow> if ne_dns e then ''dns'' else if ne_timeout e then ''timeout'' else ''refused'')"

definition negotiatedProto :: "string \<Rightarrow> string" where
  "negotiatedProto p = (if p = ''h2'' then ''h2'' else ''h1'')"

subsection \<open>The HTTP/1.1 round tripper\<close>

datatype redialTo = PlainTo string | TLSTo string string

record h1RoundTripper =
  rt_conn :: nat
  rt_redial :: "redialTo option"
  rt_headerLimit :: nat

datatype rtError = HeaderErr headerError | NetErr netError

definition readNetError :: "readError \<Rightarrow> netError" where
  "readNetError e =
     \<lparr>ne_dns = False, ne_timeout = (e = DeadlineExceeded), ne_eof = (e = EndOfFile), ne_text = ''read''\<rparr>"

fun asNetError :: "rtError \<Rightarrow> netError" where
  "asNetError (NetErr e) = e"
| "asNetError (HeaderErr HeadersTooLargeErr) = plainErr ''proxy: request headers too large''"
| "asNetError (HeaderErr (EmptyConnectionErr e)) = readNetError e"
| "asNetError (HeaderErr (HeaderReadErr e)) = readNetError e"

definition isIdempotentMethod :: "string \<Rightarrow> bool" where
  "isIdempotentMethod m \<longleftrightarrow> m \<in> {''GET'', ''HEAD'', ''OPTIONS'', ''TRACE''}"

definition roundTripOnce ::
    "'s env \<Rightarrow> nat \<Rightarrow> nat \<Rightarrow> httpRequest \<Rightarrow> 's world \<Rightarrow> ((rtError, httpResponse) res \<times> bool) \<times> 's world" where
  "roundTripOnce E limit conn req w =
     (let t = wd_step w;
          (writeErr, n) = en_Write E t conn req;
          w1 = emit (Sent conn req n) (advance w) in
      case writeErr of
        Some e \<Rightarrow> ((Inl (NetErr e), n = 0), w1)
      | None \<Rightarrow>
          let s = wd_pending w1 conn @ en_origin E t conn req;
              left = (\<lambda>rest. w1\<lparr>wd_pending := (wd_pending w1)(conn := rest)\<rparr>) in
          (case boundNextHeaderBlock limit (en_readErr E t) s of
             (Inl he, again) \<Rightarrow> ((Inl (HeaderErr he), False), left (case again of Some s' \<Rightarrow> s' | None \<Rightarrow> []))
           | (Inr block, _) \<Rightarrow>
               (case en_ReadResponse E req block (drop (length block) s) of
                  Inl e \<Rightarrow> ((Inl (NetErr e), False), left (drop (length block) s))
                | Inr (resp, bodyLen) \<Rightarrow> ((Inr resp, False), left (drop (length block + bodyLen) s)))))"

definition redialConn :: "'s env \<Rightarrow> int \<Rightarrow> redialTo \<Rightarrow> 's world \<Rightarrow> (netError, nat) res \<times> 's world" where
  "redialConn E tries r w =
     (case r of
        PlainTo dst \<Rightarrow> Dial E tries dst w
      | TLSTo dst sni \<Rightarrow>
          (case DialTLS E tries dst sni w of
             (Inl e, w') \<Rightarrow> (Inl e, w')
           | (Inr (conn, _), w') \<Rightarrow> (Inr conn, w')))"

definition h1_RoundTrip ::
    "'s env \<Rightarrow> int \<Rightarrow> h1RoundTripper \<Rightarrow> httpRequest \<Rightarrow> 's world \<Rightarrow>
     (rtError, httpResponse) res \<times> h1RoundTripper \<times> 's world" where
  "h1_RoundTrip E tries rt req w =
     (case roundTripOnce E (rt_headerLimit rt) (rt_conn rt) req w of
        ((Inr resp, _), w1) \<Rightarrow> (Inr resp, rt, w1)
      | ((Inl err, nothingWritten), w1) \<Rightarrow>
          (case (if err = HeaderErr HeadersTooLargeErr then None else rt_redial rt) of
             None \<Rightarrow> (Inl err, rt, w1)
           | Some r \<Rightarrow>
               if \<not> nothingWritten \<and> \<not> isIdempotentMethod (q_Method req) then (Inl err, rt, w1)
               else (case redialConn E tries r w1 of
                 (Inl _, w2) \<Rightarrow> (Inl err, rt, w2)
               | (Inr newConn, w2) \<Rightarrow>
                   (case roundTripOnce E (rt_headerLimit rt) newConn req w2 of
                      ((Inl _, _), w3) \<Rightarrow> (Inl err, rt, emit (Closed newConn) w3)
                    | ((Inr resp, _), w3) \<Rightarrow> (Inr resp, rt\<lparr>rt_conn := newConn\<rparr>, emit (Closed (rt_conn rt)) w3)))))"

subsection \<open>The HTTP/2 round tripper\<close>

text \<open>
  An HTTP/2 client connection is named by the connection it runs on. The old connection that can take no
  new request is left to drain; it is not closed here.
\<close>

record h2RoundTripper =
  r2_dst :: string
  r2_sni :: string
  r2_connectTries :: int
  r2_headerLimit :: nat
  r2_cc :: "nat option"

definition h2Attempt ::
    "'s env \<Rightarrow> int \<Rightarrow> string \<Rightarrow> string \<Rightarrow> nat option \<times> 's world \<Rightarrow> (netError, nat) res \<times> nat option \<times> 's world" where
  "h2Attempt E dialTries dst sni cw =
     (let preface = (\<lambda>conn w.
        case en_NewClientConn E (wd_step w) conn of
          Some e \<Rightarrow> (Inl e, None, emit (Closed conn) (advance w))
        | None \<Rightarrow> (Inr conn, Some conn, advance w)) in
      case cw of
        (Some conn, w) \<Rightarrow> preface conn w
      | (None, w) \<Rightarrow>
          (case DialTLS E dialTries dst sni w of
             (Inl e, w') \<Rightarrow> (Inl e, None, w')
           | (Inr (conn, _), w') \<Rightarrow> preface conn w'))"

definition newUpstreamH2ClientConn ::
    "'s env \<Rightarrow> int \<Rightarrow> int \<Rightarrow> string \<Rightarrow> string \<Rightarrow> nat option \<Rightarrow> 's world \<Rightarrow> (netError, nat) res \<times> 's world" where
  "newUpstreamH2ClientConn E dialTries connectTries dst sni first w =
     (case fromRetry (withRetries connectTries (h2Attempt E dialTries dst sni) (first, w)) of (r, _, w') \<Rightarrow> (r, w'))"

definition currentConn ::
    "'s env \<Rightarrow> int \<Rightarrow> h2RoundTripper \<Rightarrow> 's world \<Rightarrow> (netError, nat) res \<times> h2RoundTripper \<times> 's world" where
  "currentConn E dialTries rt w =
     (case r2_cc rt of
        Some cc \<Rightarrow>
          if en_CanTakeNewRequest E (wd_step w) cc then (Inr cc, rt, advance w)
          else (case newUpstreamH2ClientConn E dialTries (r2_connectTries rt) (r2_dst rt) (r2_sni rt) None (advance w) of
            (Inl e, w') \<Rightarrow> (Inl e, rt\<lparr>r2_cc := None\<rparr>, w')
          | (Inr newCC, w') \<Rightarrow> (Inr newCC, rt\<lparr>r2_cc := Some newCC\<rparr>, w'))
      | None \<Rightarrow>
          (case newUpstreamH2ClientConn E dialTries (r2_connectTries rt) (r2_dst rt) (r2_sni rt) None w of
             (Inl e, w') \<Rightarrow> (Inl e, rt\<lparr>r2_cc := None\<rparr>, w')
           | (Inr newCC, w') \<Rightarrow> (Inr newCC, rt\<lparr>r2_cc := Some newCC\<rparr>, w')))"

definition h2Normalized :: "httpRequest \<Rightarrow> httpRequest" where
  "h2Normalized req =
     req\<lparr>q_Scheme := ''https'', q_URLHost := (if q_URLHost req = [] then q_Host req else q_URLHost req)\<rparr>"

definition deadlineExceeded :: netError where
  "deadlineExceeded = \<lparr>ne_dns = False, ne_timeout = True, ne_eof = False, ne_text = ''context deadline exceeded''\<rparr>"

definition h2_RoundTrip ::
    "'s env \<Rightarrow> int \<Rightarrow> h2RoundTripper \<Rightarrow> httpRequest \<Rightarrow> 's world \<Rightarrow>
     (rtError, httpResponse) res \<times> h2RoundTripper \<times> 's world" where
  "h2_RoundTrip E dialTries rt req w =
     (case currentConn E dialTries rt w of
        (Inl e, rt', w1) \<Rightarrow> (Inl (NetErr e), rt', w1)
      | (Inr cc, rt', w1) \<Rightarrow>
          let out = h2Normalized req;
              w2 = emit (Sent cc out 1) (advance w1) in
          if en_TimerFired E (wd_step w1) then (Inl (NetErr deadlineExceeded), rt', w2)
          else (case en_H2RoundTrip E (wd_step w1) cc out of
            Inl e \<Rightarrow> (Inl (NetErr e), rt', w2)
          | Inr resp \<Rightarrow> (Inr resp, rt', w2)))"

definition H1Fallback :: "'s env \<Rightarrow> int \<Rightarrow> h2RoundTripper \<Rightarrow> 's world \<Rightarrow> (netError, h1RoundTripper) res \<times> 's world" where
  "H1Fallback E dialTries rt w =
     (case DialTLSH1Only E dialTries (r2_dst rt) (r2_sni rt) w of
        (Inl e, w') \<Rightarrow> (Inl e, w')
      | (Inr (conn, _), w') \<Rightarrow> (Inr \<lparr>rt_conn = conn, rt_redial = None, rt_headerLimit = r2_headerLimit rt\<rparr>, w'))"

datatype upstream = UpH1 h1RoundTripper | UpH2 h2RoundTripper

fun upstream_RoundTrip ::
    "'s env \<Rightarrow> int \<Rightarrow> upstream \<Rightarrow> httpRequest \<Rightarrow> 's world \<Rightarrow> (rtError, httpResponse) res \<times> upstream \<times> 's world" where
  "upstream_RoundTrip E tries (UpH1 rt) req w = (case h1_RoundTrip E tries rt req w of (r, rt', w') \<Rightarrow> (r, UpH1 rt', w'))"
| "upstream_RoundTrip E tries (UpH2 rt) req w = (case h2_RoundTrip E tries rt req w of (r, rt', w') \<Rightarrow> (r, UpH2 rt', w'))"

fun upstream_Close :: "upstream \<Rightarrow> 's world \<Rightarrow> 's world" where
  "upstream_Close (UpH1 rt) w = emit (Closed (rt_conn rt)) w"
| "upstream_Close (UpH2 rt) w = (case r2_cc rt of None \<Rightarrow> w | Some cc \<Rightarrow> emit (Closed cc) w)"

subsection \<open>What an operation appends to the trace\<close>

text \<open>
  \<open>extends Q w w'\<close>: from \<open>w\<close> to \<open>w'\<close> the trace has only grown, by events of \<open>Q\<close>, and no byte of the client was read.
  The rules below give it for every operation, for any \<open>Q\<close> that admits the operation's own events.
\<close>

definition extends :: "(event \<Rightarrow> bool) \<Rightarrow> 's world \<Rightarrow> 's world \<Rightarrow> bool" where
  "extends Q w w' \<longleftrightarrow> (\<exists>tr. wd_trace w' = wd_trace w @ tr \<and> list_all Q tr) \<and> wd_client w' = wd_client w"

named_theorems trace_intros

lemma extends_refl [trace_intros, simp]: "extends Q w w"
  by (simp add: extends_def)

lemma extends_trans: "extends Q w w1 \<Longrightarrow> extends Q w1 w2 \<Longrightarrow> extends Q w w2"
  by (fastforce simp: extends_def)

lemma extends_mono: "extends Q w w' \<Longrightarrow> (\<And>e. Q e \<Longrightarrow> Q' e) \<Longrightarrow> extends Q' w w'"
  by (fastforce simp: extends_def list_all_iff)

lemma extends_emit [trace_intros]: "Q e \<Longrightarrow> extends Q w w' \<Longrightarrow> extends Q w (emit e w')"
  by (fastforce simp: extends_def emit_def)

lemma extends_advance [trace_intros]: "extends Q w w' \<Longrightarrow> extends Q w (advance w')"
  by (simp add: extends_def advance_def)

lemma extends_from_advance [simp]: "extends Q (advance w) w' = extends Q w w'"
  by (simp add: extends_def advance_def)

lemma extends_update [trace_intros]:
  "extends Q w w' \<Longrightarrow> extends Q w (w'\<lparr>wd_pending := x\<rparr>)"
  "extends Q w w' \<Longrightarrow> extends Q w (w'\<lparr>wd_outcall := st\<rparr>)"
  "extends Q w w' \<Longrightarrow> extends Q w (w'\<lparr>wd_engine := eng, wd_store := s\<rparr>)"
  by (simp_all add: extends_def)

lemma retryLoop_extends:
  assumes "\<And>x. extends Q (f x) (f (snd (attempt x)))"
  shows "extends Q (f x) (f (snd (retryLoop n attempt e x)))"
proof (induction n arbitrary: e x)
  case (Suc n)
  obtain r y where r: "attempt x = (r, y)" by (cases "attempt x") auto
  show ?case
  proof (cases r)
    case (Inl e')
    with Suc.IH [of y "LastError e'"] assms [of x] r show ?thesis by (auto intro: extends_trans)
  qed (use assms [of x] r in auto)
qed simp

lemma snd_fromRetry [simp]: "snd (fromRetry y) = snd y"
  by (auto simp: fromRetry_def split: prod.splits sum.splits retryError.splits)

lemma withRetries_extends:
  assumes "\<And>x. extends Q (f x) (f (snd (attempt x)))"
  shows "extends Q (f x) (f (snd (fromRetry (withRetries tries attempt x))))"
  using retryLoop_extends [of Q f attempt] assms by (simp add: withRetries_def)

lemma Dial_extends: "Q (Dialed addr) \<Longrightarrow> extends Q w (snd (Dial E tries addr w))"
  unfolding Dial_def
  by (rule withRetries_extends [of Q "\<lambda>w. w"]) (auto simp: dialOnce_def Let_def split: option.splits intro: trace_intros)

lemma dialTLS_extends:
  assumes "Q (DialedTLS addr sni protos)" and "\<And>c. Q (Closed c)"
  shows "extends Q w (snd (dialTLS E tries addr sni protos w))"
  unfolding dialTLS_def
  by (rule withRetries_extends [of Q "\<lambda>w. w"])
    (auto simp: dialTLSOnce_def Let_def split: option.splits sum.splits intro: trace_intros assms)

lemma roundTripOnce_extends:
  assumes "\<And>n. Q (Sent conn req n)"
  shows "extends Q w (snd (roundTripOnce E limit conn req w))"
  by (auto simp: roundTripOnce_def Let_def split: prod.splits option.splits sum.splits intro!: trace_intros assms)

text \<open>
  The events of a connection bound to one address. \<open>connects\<close>: opening and closing upstream connections to it;
  \<open>forwards\<close>: also sending one request; \<open>dialsOnly\<close>: also talking to the client, but never splicing it through.
\<close>

definition connects :: "string \<Rightarrow> event \<Rightarrow> bool" where
  "connects dst e \<longleftrightarrow> (case e of Dialed a \<Rightarrow> a = dst | DialedTLS a _ _ \<Rightarrow> a = dst | Closed _ \<Rightarrow> True | _ \<Rightarrow> False)"

definition forwards :: "string \<Rightarrow> httpRequest \<Rightarrow> event \<Rightarrow> bool" where
  "forwards dst req e \<longleftrightarrow> (case e of Sent _ q _ \<Rightarrow> q = req \<or> q = h2Normalized req | _ \<Rightarrow> connects dst e)"

definition dialsOnly :: "string \<Rightarrow> event \<Rightarrow> bool" where
  "dialsOnly dst e \<longleftrightarrow> (case e of Dialed a \<Rightarrow> a = dst | DialedTLS a _ _ \<Rightarrow> a = dst | Spliced _ \<Rightarrow> False | _ \<Rightarrow> True)"

lemma connects_simps [simp]:
  "connects dst (Dialed a) \<longleftrightarrow> a = dst" "connects dst (DialedTLS a sni protos) \<longleftrightarrow> a = dst" "connects dst (Closed c)"
  by (simp_all add: connects_def)

lemma forwards_simps [simp]:
  "forwards dst req (Closed c)" "forwards dst req (Sent c q n) \<longleftrightarrow> q = req \<or> q = h2Normalized req"
  by (simp_all add: forwards_def)

lemma connects_forwards: "connects dst e \<Longrightarrow> forwards dst req e"
  by (cases e) (auto simp: forwards_def connects_def)

lemma forwards_dialsOnly: "forwards dst req e \<Longrightarrow> dialsOnly dst e"
  by (cases e) (auto simp: forwards_def connects_def dialsOnly_def)

lemma connects_dialsOnly: "connects dst e \<Longrightarrow> dialsOnly dst e"
  by (cases e) (auto simp: connects_def dialsOnly_def)

lemmas extends_weaken = extends_mono [OF _ connects_forwards] extends_mono [OF _ forwards_dialsOnly] extends_mono [OF _ connects_dialsOnly]

lemma dialsOnly_others [simp]:
  "dialsOnly dst (Sent c q n)" "dialsOnly dst (Closed c)" "dialsOnly dst (Page u sp)" "dialsOnly dst (Access m u out st)"
  "dialsOnly dst Established" "dialsOnly dst (Replied resp)" "dialsOnly dst (FallbackPage sni u sp)" "dialsOnly dst (Upgraded c)"
  "dialsOnly dst (CAPage pem)" "dialsOnly dst StreamReset" "dialsOnly dst Panicked"
  "dialsOnly dst (Dialed a) \<longleftrightarrow> a = dst" "dialsOnly dst (DialedTLS a sni protos) \<longleftrightarrow> a = dst" "\<not> dialsOnly dst (Spliced a)"
  by (simp_all add: dialsOnly_def)

fun redialDst :: "redialTo \<Rightarrow> string" where
  "redialDst (PlainTo dst) = dst"
| "redialDst (TLSTo dst sni) = dst"

definition boundTo :: "string \<Rightarrow> upstream \<Rightarrow> bool" where
  "boundTo dst up \<longleftrightarrow>
     (case up of
        UpH1 rt \<Rightarrow> (case rt_redial rt of None \<Rightarrow> True | Some r \<Rightarrow> redialDst r = dst)
      | UpH2 rt \<Rightarrow> r2_dst rt = dst)"

lemma redialConn_extends:
  assumes "redialDst r = dst"
  shows "extends (connects dst) w (snd (redialConn E tries r w))"
proof (cases r)
  case (PlainTo a)
  then show ?thesis using assms Dial_extends [of "connects dst" dst w E tries] by (simp add: redialConn_def)
next
  case (TLSTo a sni)
  then have "snd (redialConn E tries r w) = snd (DialTLS E tries dst sni w)"
    using assms by (simp add: redialConn_def case_prod_beta split: sum.splits)
  then show ?thesis
    using dialTLS_extends [of "connects dst" dst sni _ w E tries] by (simp add: DialTLS_def)
qed

lemma h1_RoundTrip_extends:
  assumes "boundTo dst (UpH1 rt)" and "h1_RoundTrip E tries rt req w = (r, rt', w')"
  shows "extends (forwards dst req) w w' \<and> boundTo dst (UpH1 rt')"
proof -
  have once: "roundTripOnce E l c req v = (x, v') \<Longrightarrow> extends (forwards dst req) v v'" for l c v x v'
    using roundTripOnce_extends [of "forwards dst req" c req v E l] by simp
  have redial: "redialConn E tries t v = (x, v') \<Longrightarrow> extends (forwards (redialDst t) req) v v'" for t v x v'
    using extends_weaken(1) [OF redialConn_extends [of t "redialDst t" v E tries]] by simp
  show ?thesis
    using assms unfolding h1_RoundTrip_def
    by (auto simp: boundTo_def split: prod.splits sum.splits option.splits if_splits dest!: once redial
        intro!: extends_emit elim: extends_trans)
qed

lemma h2Attempt_extends: "extends (connects dst) (snd cw) (snd (snd (h2Attempt E dialTries dst sni cw)))"
proof -
  have dial: "DialTLS E dialTries dst sni v = (x, v') \<Longrightarrow> extends (connects dst) v v'" for v x v'
    using dialTLS_extends [of "connects dst" dst sni _ v E dialTries] by (simp add: DialTLS_def) (metis snd_conv)
  show ?thesis
    by (cases cw) (auto simp: h2Attempt_def Let_def split: option.splits prod.splits sum.splits
        dest!: dial intro!: extends_emit extends_advance)
qed

lemma newUpstreamH2ClientConn_extends:
  "newUpstreamH2ClientConn E dialTries tries dst sni first w = (r, w') \<Longrightarrow> extends (connects dst) w w'"
  using withRetries_extends [of "connects dst" snd "h2Attempt E dialTries dst sni" "(first, w)" tries, OF h2Attempt_extends]
  by (cases "fromRetry (withRetries tries (h2Attempt E dialTries dst sni) (first, w))")
    (auto simp: newUpstreamH2ClientConn_def snd_fromRetry [symmetric] simp del: snd_fromRetry split: prod.splits)

lemma currentConn_extends:
  assumes "currentConn E dialTries rt w = (r, rt', w')"
  shows "extends (connects (r2_dst rt)) w w' \<and> r2_dst rt' = r2_dst rt"
  using assms unfolding currentConn_def
  by (auto split: option.splits if_splits prod.splits sum.splits dest!: newUpstreamH2ClientConn_extends
      intro: extends_advance)

lemma h2_RoundTrip_extends:
  assumes "h2_RoundTrip E tries rt req w = (r, rt', w')"
  shows "extends (forwards (r2_dst rt) req) w w' \<and> r2_dst rt' = r2_dst rt"
  using assms unfolding h2_RoundTrip_def
  by (auto simp: Let_def split: prod.splits sum.splits if_splits dest!: currentConn_extends
      intro!: extends_emit extends_advance intro: extends_weaken(1))

lemma upstream_RoundTrip_extends:
  assumes "boundTo dst up" and "upstream_RoundTrip E tries up req w = (r, up', w')"
  shows "extends (forwards dst req) w w' \<and> boundTo dst up'"
proof (cases up)
  case (UpH1 rt)
  then show ?thesis using assms h1_RoundTrip_extends [of dst rt E tries req w] by (auto split: prod.splits)
next
  case (UpH2 rt)
  then show ?thesis using assms h2_RoundTrip_extends [of E tries rt req w] by (auto simp: boundTo_def split: prod.splits)
qed

lemma upstream_Close_extends: "(\<And>c. Q (Closed c)) \<Longrightarrow> extends Q w w' \<Longrightarrow> extends Q w (upstream_Close up w')"
  by (cases up) (auto split: option.splits intro: extends_emit)

lemma H1Fallback_extends:
  assumes "H1Fallback E tries rt w = (r, w')"
  shows "extends (connects (r2_dst rt)) w w' \<and> (\<forall>fb. r = Inr fb \<longrightarrow> boundTo dst (UpH1 fb))"
proof -
  have "snd (H1Fallback E tries rt w) = snd (DialTLSH1Only E tries (r2_dst rt) (r2_sni rt) w)"
    by (simp add: H1Fallback_def case_prod_beta split: sum.splits)
  then have "extends (connects (r2_dst rt)) w w'"
    using dialTLS_extends [of "connects (r2_dst rt)" "r2_dst rt" "r2_sni rt" _ w E tries] assms by (simp add: DialTLSH1Only_def)
  moreover have "\<forall>fb. r = Inr fb \<longrightarrow> boundTo dst (UpH1 fb)"
    using assms by (auto simp: H1Fallback_def boundTo_def split: prod.splits sum.splits)
  ultimately show ?thesis by blast
qed

subsection \<open>Resending a request\<close>

definition writes :: "event list \<Rightarrow> (nat \<times> int) list" where
  "writes tr = List.map_filter (\<lambda>e. case e of Sent c q n \<Rightarrow> Some (c, n) | _ \<Rightarrow> None) tr"

lemma writes_simps [simp]:
  "writes [] = []" "writes (a @ b) = writes a @ writes b" "writes (Sent c q n # tr) = (c, n) # writes tr"
  by (simp_all add: writes_def List.map_filter_def)

definition noWrite :: "event \<Rightarrow> bool" where
  "noWrite e \<longleftrightarrow> (case e of Sent _ _ _ \<Rightarrow> False | _ \<Rightarrow> True)"

lemma writes_none: "list_all noWrite tr \<Longrightarrow> writes tr = []"
  by (auto simp: writes_def List.map_filter_def list_all_iff noWrite_def filter_empty_conv split: event.splits)

lemma extends_noWrite: "extends noWrite w w' \<Longrightarrow> \<exists>tr. wd_trace w' = wd_trace w @ tr \<and> writes tr = []"
  by (auto simp: extends_def dest: writes_none)

lemma redialConn_noWrite: "redialConn E tries r w = (x, w') \<Longrightarrow> extends noWrite w w'"
proof (cases r)
  case (PlainTo a)
  then show "redialConn E tries r w = (x, w') \<Longrightarrow> ?thesis"
    using Dial_extends [of noWrite a w E tries] by (simp add: redialConn_def noWrite_def)
next
  case (TLSTo a sni)
  then have "snd (redialConn E tries r w) = snd (DialTLS E tries a sni w)"
    by (simp add: redialConn_def case_prod_beta split: sum.splits)
  then show "redialConn E tries r w = (x, w') \<Longrightarrow> ?thesis"
    using dialTLS_extends [of noWrite a sni _ w E tries] by (simp add: DialTLS_def noWrite_def)
qed

lemma roundTripOnce_trace:
  assumes "roundTripOnce E limit conn req w = ((x, nothing), w')"
  obtains n where "wd_trace w' = wd_trace w @ [Sent conn req n]" "nothing \<Longrightarrow> n = 0"
  using assms by (auto simp: roundTripOnce_def Let_def emit_def advance_def split: prod.splits option.splits sum.splits)

lemma h1_RoundTrip_cases [consumes 2, case_names stays dialFailed again]:
  assumes "roundTripOnce E (rt_headerLimit rt) (rt_conn rt) req w = ((x, b), w1)" and "h1_RoundTrip E tries rt req w = (r, rt', w')"
  obtains "w' = w1"
  | t e where "redialConn E tries t w1 = (Inl e, w')"
  | t c w2 z b3 w3 k where "redialConn E tries t w1 = (Inr c, w2)" "roundTripOnce E (rt_headerLimit rt) c req w2 = ((z, b3), w3)"
      "w' = emit (Closed k) w3" "b \<or> isIdempotentMethod (q_Method req)"
  using assms(2) unfolding h1_RoundTrip_def assms(1)
  by (auto split: sum.splits if_splits option.splits prod.splits)

text \<open>
  C39. A request that is not idempotent reaches an origin at most once. One round trip over HTTP/1.1 writes the request at
  most twice, the second time on a new connection; and it writes it a second time only when the first write put no byte on the wire or the method
  is GET, HEAD, OPTIONS or TRACE.
\<close>

theorem no_unsafe_resend:
  assumes "h1_RoundTrip E tries rt req w = (r, rt', w')"
  shows "\<exists>tr n. wd_trace w' = wd_trace w @ tr \<and>
    (writes tr = [(rt_conn rt, n)] \<or>
     (\<exists>c2 n2. writes tr = [(rt_conn rt, n), (c2, n2)] \<and> (n = 0 \<or> q_Method req \<in> {''GET'', ''HEAD'', ''OPTIONS'', ''TRACE''})))"
proof -
  obtain x b w1 where x: "roundTripOnce E (rt_headerLimit rt) (rt_conn rt) req w = ((x, b), w1)"
    by (cases "roundTripOnce E (rt_headerLimit rt) (rt_conn rt) req w") auto
  obtain n where n: "wd_trace w1 = wd_trace w @ [Sent (rt_conn rt) req n]" "b \<Longrightarrow> n = 0"
    using roundTripOnce_trace [OF x] by blast
  have once: ?thesis if "w' = w1" using that n by (intro exI [of _ "[Sent (rt_conn rt) req n]"]) auto
  show ?thesis
  proof (cases "w' = w1")
    case False
    have safe: "n = 0 \<or> q_Method req \<in> {''GET'', ''HEAD'', ''OPTIONS'', ''TRACE''}" if "b \<or> isIdempotentMethod (q_Method req)"
      using that n(2) by (auto simp: isIdempotentMethod_def)
    from x assms False show ?thesis
    proof (cases rule: h1_RoundTrip_cases)
      case (dialFailed t e)
      obtain tr2 where "wd_trace w' = wd_trace w1 @ tr2" "writes tr2 = []"
        using extends_noWrite [OF redialConn_noWrite [OF dialFailed(1)]] by blast
      then show ?thesis using n by (intro exI [of _ "Sent (rt_conn rt) req n # tr2"]) auto
    next
      case (again t c w2 z b3 w3 k)
      obtain tr2 where tr2: "wd_trace w2 = wd_trace w1 @ tr2" "writes tr2 = []"
        using extends_noWrite [OF redialConn_noWrite [OF again(1)]] by blast
      obtain n2 where n2: "wd_trace w3 = wd_trace w2 @ [Sent c req n2]" using roundTripOnce_trace [OF again(2)] by blast
      have "writes [Closed k] = []" by (simp add: writes_def List.map_filter_def)
      then show ?thesis
        using n tr2 n2 again(3) safe [OF again(4)]
        by (intro exI [of _ "Sent (rt_conn rt) req n # tr2 @ [Sent c req n2, Closed k]"] exI [of _ n]) (auto simp: emit_def)
    qed simp
  qed (rule once)
qed

lemma h1_RoundTrip_first:
  assumes "h1_RoundTrip E tries rt req w = (r, rt', w')"
  shows "\<exists>n tr. wd_trace w' = wd_trace w @ Sent (rt_conn rt) req n # tr"
proof -
  obtain x b w1 where x: "roundTripOnce E (rt_headerLimit rt) (rt_conn rt) req w = ((x, b), w1)"
    by (cases "roundTripOnce E (rt_headerLimit rt) (rt_conn rt) req w") auto
  obtain n where n: "wd_trace w1 = wd_trace w @ [Sent (rt_conn rt) req n]" using roundTripOnce_trace [OF x] by blast
  from x assms have "\<exists>tr. wd_trace w' = wd_trace w1 @ tr"
  proof (cases rule: h1_RoundTrip_cases)
    case (dialFailed t e)
    then show ?thesis using extends_noWrite [OF redialConn_noWrite [OF dialFailed(1)]] by blast
  next
    case (again t c w2 z b3 w3 k)
    obtain tr2 where "wd_trace w2 = wd_trace w1 @ tr2"
      using extends_noWrite [OF redialConn_noWrite [OF again(1)]] by blast
    moreover obtain n2 where "wd_trace w3 = wd_trace w2 @ [Sent c req n2]" using roundTripOnce_trace [OF again(2)] by blast
    ultimately show ?thesis using again(3) by (simp add: emit_def)
  qed simp
  with n show ?thesis by auto
qed

subsection \<open>Interim responses\<close>

lemma boundNextHeaderBlock_first:
  assumes "firstBlank u" and "length u \<le> limit"
  shows "boundNextHeaderBlock limit err (u @ v) = (Inr u, Some (u @ v))"
proof -
  have "headerLoop limit err [] (u @ v) = Inr u" using assms by (auto simp: headerLoop_iff)
  moreover have "u \<noteq> []" using assms(1) by (auto simp: firstBlank_def dest: blankLine_lf)
  with assms(2) have "limit \<noteq> 0" by (cases u) auto
  ultimately show ?thesis by (simp add: boundNextHeaderBlock_def)
qed

lemma h1_RoundTrip_reads:
  assumes "en_Write E (wd_step w) (rt_conn rt) req = (None, n)"
    and "wd_pending w (rt_conn rt) @ en_origin E (wd_step w) (rt_conn rt) req = u @ v"
    and "firstBlank u" and "length u \<le> rt_headerLimit rt" and "en_ReadResponse E req u v = Inr (resp, k)"
  shows "\<exists>w'. h1_RoundTrip E tries rt req w = (Inr resp, rt, w') \<and> wd_pending w' (rt_conn rt) = drop k v \<and> wd_step w' = wd_step w + 1"
  using assms boundNextHeaderBlock_first [OF assms(3,4), of "en_readErr E (wd_step w)" v]
  by (simp add: h1_RoundTrip_def roundTripOnce_def Let_def emit_def advance_def)

text \<open>
  An interim response is taken for the final one. When an origin answers a request with a 1xx response before the
  final response, the round trip returns the 1xx; the final response stays unread on the connection and is
  returned as the answer to the next request, so the client's replies are off by one from then on.
\<close>

theorem interim_response_desync:
  assumes "wd_pending w (rt_conn rt) = []"
    and "en_Write E (wd_step w) (rt_conn rt) req1 = (None, n1)" and "en_Write E (wd_step w + 1) (rt_conn rt) req2 = (None, n2)"
    and "en_origin E (wd_step w) (rt_conn rt) req1 = interim @ final"
    and "firstBlank interim" and "length interim \<le> rt_headerLimit rt" and "firstBlank final" and "length final \<le> rt_headerLimit rt"
    and "en_ReadResponse E req1 interim final = Inr (continue, 0)"
    and "en_ReadResponse E req2 final (en_origin E (wd_step w + 1) (rt_conn rt) req2) = Inr (answer1, k)"
  shows "\<exists>w1 w2. h1_RoundTrip E tries rt req1 w = (Inr continue, rt, w1) \<and> h1_RoundTrip E tries rt req2 w1 = (Inr answer1, rt, w2)"
proof -
  from h1_RoundTrip_reads [OF assms(2), of interim final continue 0 tries] assms obtain w1 where
    w1: "h1_RoundTrip E tries rt req1 w = (Inr continue, rt, w1)" "wd_pending w1 (rt_conn rt) = final" "wd_step w1 = wd_step w + 1"
    by auto
  from h1_RoundTrip_reads [of E w1 rt req2 n2 final "en_origin E (wd_step w + 1) (rt_conn rt) req2" answer1 k tries] assms w1
  show ?thesis by auto
qed

subsection \<open>An example world\<close>

definition http200 :: httpResponse where
  "http200 = \<lparr>p_StatusCode = 200, p_Header = (\<lambda>_. None), p_Body = ''ok'', p_ContentLength = 2, p_TransferEncoding = [],
     p_ProtoMajor = 1, p_Close = False\<rparr>"

definition lf2 :: string where "lf2 = [CHR 0x0A, CHR 0x0A]"

definition interimHead :: string where "interimHead = ''HTTP/1.1 100 Continue'' @ lf2"

definition finalHead :: string where "finalHead = ''HTTP/1.1 200 OK'' @ lf2"

text \<open>A network where every dial succeeds, every name resolves to one address, and the origin sends an interim response first.\<close>

definition labEnv :: "'s sys \<Rightarrow> jsonlib \<Rightarrow> 's env" where
  "labEnv sys J =
     \<lparr>en_sys = sys, en_G = plainLib, en_J = J, en_IDKey = (\<lambda>_ _ _ _ _ _. []), en_idna = Some, en_oc = demoOutcallEnv,
      en_LookupNetIP = (\<lambda>_ _. Inr [v4Addr [192, 0, 2, 1]]), en_DialContext = (\<lambda>_ _. None),
      en_Handshake = (\<lambda>_ _ _. Inr ''http/1.1''), en_NewClientConn = (\<lambda>_ _. None), en_CanTakeNewRequest = (\<lambda>_ _. True),
      en_H2RoundTrip = (\<lambda>_ _ _. Inr http200), en_TimerFired = (\<lambda>_. False), en_Write = (\<lambda>_ _ _. (None, 64)),
      en_origin = (\<lambda>t _ _. if t = 0 then interimHead @ finalHead else []), en_readErr = (\<lambda>_. EndOfFile),
      en_ReadResponse = (\<lambda>_ head _. Inr (if head = interimHead then http200\<lparr>p_StatusCode := 100\<rparr> else http200, 0)),
      en_ReadRequest = (\<lambda>_ _. Some (demoHttpRequest, 0)), en_ClientWrite = (\<lambda>_. True), en_Hello = (\<lambda>_ s. (Inr [], [])),
      en_For = (\<lambda>_ _. True), en_FallbackCert = (\<lambda>_ _. True), en_ClientHandshake = (\<lambda>_ _. Some ''http/1.1''),
      en_Decrypt = (\<lambda>_ s. s), en_Streams = (\<lambda>_. [])\<rparr>"

definition labWorld :: "'s \<Rightarrow> 's world" where
  "labWorld s = \<lparr>wd_engine = NewRuleEngine 0, wd_store = s, wd_outcall = demoOutcallState, wd_step = 0, wd_client = [],
     wd_pending = (\<lambda>_. []), wd_trace = []\<rparr>"

definition labSys :: "unit sys" where
  "labSys = \<lparr>sy_store = \<lparr>st_Get = (\<lambda>_ s. (Inl ErrNotExist, s)), st_Put = (\<lambda>_ _ s. (None, s)), st_Delete = (\<lambda>_ s. (None, s)),
      st_DeletePrefix = (\<lambda>_ s. (None, s)), st_Stat = (\<lambda>_ s. (Inl ErrNotExist, s)), st_List = (\<lambda>_ s. (Inr [], s))\<rparr>,
     sy_Now = (\<lambda>s. (0, s)), sy_NewUUID = (\<lambda>s. (''u'', s)), sy_sha1 = (\<lambda>x. x)\<rparr>"

definition labJSON :: jsonlib where
  "labJSON = \<lparr>json_object = (\<lambda>_. None), json_ruleFileStrict = (\<lambda>_. None), json_ruleFile = (\<lambda>_. None)\<rparr>"

definition labTripper :: h1RoundTripper where
  "labTripper = \<lparr>rt_conn = 7, rt_redial = Some (PlainTo ''192.0.2.1:80''), rt_headerLimit = 100\<rparr>"

lemma firstBlank_code: "firstBlank u \<longleftrightarrow> blankLine u \<and> list_all (\<lambda>n. \<not> blankLine (take n u)) [0..<length u]"
  by (auto simp: firstBlank_def list_all_iff)

lemma lab_heads: "firstBlank interimHead" "firstBlank finalHead" "length interimHead \<le> 100" "length finalHead \<le> 100" "interimHead \<noteq> finalHead"
  unfolding firstBlank_code by code_simp+

theorem interim_response_desync_witness:
  "\<exists>w1 w2. h1_RoundTrip (labEnv labSys labJSON) 1 labTripper demoHttpRequest (labWorld ()) = (Inr (http200\<lparr>p_StatusCode := 100\<rparr>), labTripper, w1) \<and>
     h1_RoundTrip (labEnv labSys labJSON) 1 labTripper (demoHttpRequest\<lparr>q_Path := ''/other''\<rparr>) w1 = (Inr http200, labTripper, w2)"
  using lab_heads
  by (intro interim_response_desync [where ?n1.0 = 64 and ?n2.0 = 64 and interim = interimHead and final = finalHead and k = 0])
    (simp_all add: labWorld_def labEnv_def labTripper_def)

theorem no_unsafe_resend_witness:
  "\<exists>r rt' w' tr n. h1_RoundTrip (labEnv labSys labJSON) 1 labTripper (demoHttpRequest\<lparr>q_Method := ''POST''\<rparr>) (labWorld ()) = (r, rt', w') \<and>
     wd_trace w' = tr \<and> writes tr = [(7, n)]"
proof -
  obtain w' where run: "h1_RoundTrip (labEnv labSys labJSON) 1 labTripper (demoHttpRequest\<lparr>q_Method := ''POST''\<rparr>) (labWorld ()) =
      (Inr (http200\<lparr>p_StatusCode := 100\<rparr>), labTripper, w')"
    using h1_RoundTrip_reads [of "labEnv labSys labJSON" "labWorld ()" labTripper "demoHttpRequest\<lparr>q_Method := ''POST''\<rparr>" 64 interimHead finalHead
        "http200\<lparr>p_StatusCode := 100\<rparr>" 0 1] lab_heads
    by (auto simp: labWorld_def labEnv_def labTripper_def)
  from no_unsafe_resend [OF run] obtain tr n where "wd_trace w' = wd_trace (labWorld ()) @ tr"
      "writes tr = [(rt_conn labTripper, n)] \<or>
       (\<exists>c2 n2. writes tr = [(rt_conn labTripper, n), (c2, n2)] \<and> (n = 0 \<or> False))"
    by auto
  moreover have "wd_trace w' = [Sent 7 (demoHttpRequest\<lparr>q_Method := ''POST''\<rparr>) 64]"
    using run lab_heads boundNextHeaderBlock_first [of interimHead 100 EndOfFile finalHead]
    by (auto simp: h1_RoundTrip_def roundTripOnce_def labWorld_def labEnv_def labTripper_def emit_def advance_def Let_def)
  ultimately show ?thesis using run by (auto simp: labWorld_def labTripper_def)
qed

end
