(* ===== verification/Pipeline.thy ===== *)
theory Pipeline
  imports RoundTrip
begin

text \<open>
  The connection handlers: \<open>src/internal/proxy/http1.go\<close>, \<open>transparent.go\<close>, \<open>http2.go\<close>, \<open>tlsservice.go\<close>,
  \<open>rawsplice.go\<close> and \<open>verdict.go\<close>. A handler is a function of the world; an early return of the code is the
  world it returns at. Where the code hands a rule set on, the model calls the rule engine of
  \<open>Engine\<close>; broker calls go to the service of \<open>Outcall\<close>.
\<close>

subsection \<open>The handler\<close>

record Http1Handler =
  hh_CAPEM :: "string option"
  hh_HeaderLimit :: nat
  hh_ConnectTries :: int
  hh_HTTP2ConnectTries :: int
  hh_TrustedProxies :: "Prefix list"

definition logAccess :: "string \<Rightarrow> string \<Rightarrow> string \<Rightarrow> int \<Rightarrow> 's world \<Rightarrow> 's world" where
  "logAccess meth url outcome status w = emit (Access meth url outcome status) w"

text \<open>A page and its access record, the usual end of a request.\<close>

definition pageEnd :: "string \<Rightarrow> Spec \<Rightarrow> string \<Rightarrow> string \<Rightarrow> string \<Rightarrow> 's world \<Rightarrow> 's world" where
  "pageEnd pageURL spec meth url outcome w = logAccess meth url outcome (sp_Status spec) (emit (Page pageURL spec) w)"

definition statusClass :: "int \<Rightarrow> string" where
  "statusClass status = (if status = 0 then [] else Itoa (status div 100) @ ''xx'')"

definition classifyOutcome :: "string \<Rightarrow> string \<times> string" where
  "classifyOutcome outcome =
     (if outcome = ''ok'' then (''allow'', ''true'')
      else if outcome = ''splice (mitm:false)'' then (''allow'', ''false'')
      else if outcome \<in> {''block'', ''misdirected-authority'', ''outcall-denied'', ''outcall-fail'', ''raise''} then (''deny'', ''true'')
      else if outcome = ''denied'' then (''deny'', ''false'')
      else (''deny'', ''unknown''))"

definition msgRequestURL :: "ConnInput \<Rightarrow> httpRequest \<Rightarrow> string" where
  "msgRequestURL connIn req =
     ci_Proto connIn @ ''://'' @ (if q_Host req = [] then ci_Host connIn else q_Host req) @ q_Target req"

definition isUpgradeRequest :: "golib \<Rightarrow> httpRequest \<Rightarrow> bool" where
  "isUpgradeRequest G req \<longleftrightarrow>
     headerGet (q_Header req) ''Upgrade'' \<noteq> [] \<and>
     list_ex (\<lambda>v. list_ex (\<lambda>tok. EqualFold G (TrimSpace tok) ''Upgrade'') (Split v CHR '',''))
       (headerValues (q_Header req) ''Connection'')"

datatype lookupFailure = EngineFailure engineError | NilRuleSet

definition lookupRules :: "'s env \<Rightarrow> Session \<Rightarrow> 's world \<Rightarrow> (lookupFailure, RuleSet) res \<times> 's world" where
  "lookupRules E sess w =
     (case Lookup (en_sys E) (en_G E) (en_J E) (ClientKey sess) (wd_engine w) (wd_store w) of
        (r, e', s') \<Rightarrow>
          let w' = w\<lparr>wd_engine := e', wd_store := s'\<rparr> in
          case r of
            Inl err \<Rightarrow> (Inl (EngineFailure err), w')
          | Inr None \<Rightarrow> (Inl NilRuleSet, w')
          | Inr (Some rs) \<Rightarrow> (Inr rs, w'))"

definition lookupFailed :: "lookupFailure \<Rightarrow> string \<Rightarrow> string \<Rightarrow> 's world \<Rightarrow> 's world" where
  "lookupFailed f meth url w =
     (case f of
        EngineFailure _ \<Rightarrow> logAccess meth url ''rule-engine-error'' 0 w
      | NilRuleSet \<Rightarrow> emit Panicked w)"

text \<open>The gate of \<open>checkAuth\<close> in the world: a refusal has written its page and its record.\<close>

definition gate ::
    "'s env \<Rightarrow> Session \<Rightarrow> RuleSet \<Rightarrow> string \<Rightarrow> header \<Rightarrow> string \<Rightarrow> 's world \<Rightarrow> string option \<times> 's world" where
  "gate E sess rs meth h reqURL w =
     (case checkAuth (en_IDKey E) (en_G E) (en_oc E) sess rs h (wd_outcall w) of
        (GateOK who, st') \<Rightarrow> (Some who, w\<lparr>wd_outcall := st'\<rparr>)
      | (GateRefused spec outcome, st') \<Rightarrow> (None, pageEnd reqURL spec meth reqURL outcome (w\<lparr>wd_outcall := st'\<rparr>)))"

definition pin ::
    "'s env \<Rightarrow> RuleSet \<Rightarrow> string \<Rightarrow> string \<Rightarrow> string \<Rightarrow> 's world \<Rightarrow> (pinError, string) res \<times> 's world" where
  "pin E rs host port proto w = (resolveAndPin (en_G E) rs (LookupIP E (wd_step w)) host port proto, advance w)"

definition pinNetError :: "pinError \<Rightarrow> netError" where
  "pinNetError e = (case e of LookupFailed ne \<Rightarrow> ne | _ \<Rightarrow> plainErr ''proxy'')"

text \<open>A pin failure on a connection that can be answered; indexing an empty answer is a panic.\<close>

definition pinFailed :: "pinError \<Rightarrow> string \<Rightarrow> string \<Rightarrow> 's world \<Rightarrow> 's world" where
  "pinFailed e meth url w =
     (case e of
        EgressDenied _ \<Rightarrow> pageEnd url ForwardingDenied meth url ''forwarding-denied'' w
      | IndexOutOfRange \<Rightarrow> emit Panicked w
      | _ \<Rightarrow> pageEnd url (classifyConnectErr (pinNetError e)) meth url ''resolve-fail'' w)"

definition pinDropped :: "pinError \<Rightarrow> string \<Rightarrow> string \<Rightarrow> 's world \<Rightarrow> 's world" where
  "pinDropped e meth url w =
     (case e of
        EgressDenied _ \<Rightarrow> logAccess meth url ''forwarding-denied'' 0 w
      | IndexOutOfRange \<Rightarrow> emit Panicked w
      | _ \<Rightarrow> logAccess meth url ''resolve-fail'' 0 w)"

subsection \<open>Reading requests\<close>

text \<open>The next request of the client's bytes, or how its absence is answered.\<close>

definition readBoundedRequest :: "'s env \<Rightarrow> Http1Handler \<Rightarrow> 's world \<Rightarrow> httpRequest option \<times> 's world" where
  "readBoundedRequest E h w =
     (let w0 = advance w in
      case boundNextHeaderBlock (hh_HeaderLimit h) (en_readErr E (wd_step w)) (wd_client w) of
        (Inl he, again) \<Rightarrow>
          let w1 = w0\<lparr>wd_client := (case again of Some s \<Rightarrow> s | None \<Rightarrow> [])\<rparr> in
          (None,
           if he = EmptyConnectionErr DeadlineExceeded \<or> he = HeaderReadErr DeadlineExceeded then
             pageEnd [] RequestTimeout [] [] ''client-read-timeout'' w1
           else (case he of
             EmptyConnectionErr _ \<Rightarrow> logAccess [] [] ''empty-connection'' 0 w1
           | HeadersTooLargeErr \<Rightarrow> pageEnd [] HeadersTooLarge [] [] ''headers-too-large'' w1
           | HeaderReadErr _ \<Rightarrow> pageEnd [] InvalidRequest [] [] ''invalid-request'' w1))
      | (Inr block, _) \<Rightarrow>
          let following = drop (length block) (wd_client w) in
          (case en_ReadRequest E block following of
             None \<Rightarrow> (None, pageEnd [] InvalidRequest [] [] ''invalid-request'' (w0\<lparr>wd_client := following\<rparr>))
           | Some (req, bodyLen) \<Rightarrow> (Some req, w0\<lparr>wd_client := drop bodyLen following\<rparr>)))"

subsection \<open>The message phase\<close>

definition normalizeResponse :: "httpResponse \<Rightarrow> httpResponse" where
  "normalizeResponse resp =
     resp\<lparr>p_ProtoMajor := 1,
          p_TransferEncoding :=
            (if p_ContentLength resp < 0 \<and> p_TransferEncoding resp = [] then [''chunked''] else p_TransferEncoding resp)\<rparr>"

definition applyOverrides :: "ResponseInterceptor \<Rightarrow> httpResponse" where
  "applyOverrides ri =
     (let r1 = (if ri_StatusOverride ri \<noteq> 0 then (ri_Resp ri)\<lparr>p_StatusCode := ri_StatusOverride ri\<rparr> else ri_Resp ri) in
      case ri_BodyOverride ri of
        None \<Rightarrow> r1
      | Some body \<Rightarrow> r1\<lparr>p_Body := body, p_ContentLength := int (length body), p_TransferEncoding := []\<rparr>)"

definition responsePhase :: "golib \<Rightarrow> CompiledRule \<Rightarrow> httpResponse \<Rightarrow> httpResponse" where
  "responsePhase G rule resp =
     applyOverrides (snd (applyResponseActions G (cr_response rule)
       \<lparr>ri_Resp = resp, ri_BodyOverride = None, ri_StatusOverride = 0\<rparr>))"

text \<open>The upstream leg of one request: the shared round tripper, or a dedicated HTTP/1.1 one for an upgrade.\<close>

definition chooseUpstream ::
    "'s env \<Rightarrow> Http1Handler \<Rightarrow> upstream \<Rightarrow> httpRequest \<Rightarrow> 's world \<Rightarrow> (netError, upstream \<times> bool) res \<times> 's world" where
  "chooseUpstream E h up req w =
     (case up of
        UpH1 rt \<Rightarrow> (Inr (up, False), w)
      | UpH2 rt \<Rightarrow>
          if isUpgradeRequest (en_G E) req then
            (case H1Fallback E (hh_ConnectTries h) rt w of
               (Inl e, w') \<Rightarrow> (Inl e, w')
             | (Inr fb, w') \<Rightarrow> (Inr (UpH1 fb, True), w'))
          else (Inr (up, False), w))"

definition forwardRequest ::
    "'s env \<Rightarrow> Http1Handler \<Rightarrow> upstream \<Rightarrow> CompiledRule \<Rightarrow> string \<Rightarrow> httpRequest \<Rightarrow> 's world \<Rightarrow> bool \<times> upstream \<times> 's world" where
  "forwardRequest E h up rule url req w =
     (case chooseUpstream E h up req w of
        (Inl e, w1) \<Rightarrow>
          (False, up, pageEnd (q_Target req) (classifyConnectErr e) (q_Method req) url ''upgrade-fallback-connect-fail'' w1)
      | (Inr (leg, dedicated), w1) \<Rightarrow>
          (case upstream_RoundTrip E (hh_ConnectTries h) leg req w1 of
             (r, leg', w2) \<Rightarrow>
               let up' = (if dedicated then up else leg');
                   done = (\<lambda>w. if dedicated then upstream_Close leg' w else w) in
               case r of
                 Inl err \<Rightarrow>
                   (False, up', done (pageEnd (q_Target req) (classifyReadErr (asNetError err)) (q_Method req) url ''upstream-error'' w2))
               | Inr resp0 \<Rightarrow>
                   let resp = responsePhase (en_G E) rule (normalizeResponse resp0);
                       w3 = advance w2 in
                   if \<not> en_ClientWrite E (wd_step w2) then
                     (False, up', done (logAccess (q_Method req) url ''client-write-error'' (p_StatusCode resp) w3))
                   else
                     let w4 = logAccess (q_Method req) url ''ok'' (p_StatusCode resp) (emit (Replied resp) w3) in
                     if p_StatusCode resp = 101 then
                       (False, up', done (case leg' of UpH1 rt \<Rightarrow> emit (Upgraded (rt_conn rt)) w4 | UpH2 _ \<Rightarrow> w4))
                     else (\<not> (q_Close req \<or> p_Close resp), up', done w4)))"

definition handleOneRequest ::
    "'s env \<Rightarrow> Http1Handler \<Rightarrow> Session \<Rightarrow> upstream \<Rightarrow> ConnInput \<Rightarrow> string \<Rightarrow> httpRequest \<Rightarrow> 's world \<Rightarrow> bool \<times> upstream \<times> 's world" where
  "handleOneRequest E h sess up connIn dst req w =
     (let url = msgRequestURL connIn req; G = en_G E in
      if \<not> authorityMatches G (en_idna E) (q_Host req) (ci_Host connIn) (ci_Port connIn) (ci_Proto connIn) then
        (False, up, pageEnd (q_Target req) MisdirectedRequest (q_Method req) url ''misdirected-authority'' w)
      else
        (case lookupRules E sess w of
           (Inl f, w1) \<Rightarrow> (False, up, lookupFailed f (q_Method req) url w1)
         | (Inr rs, w1) \<Rightarrow>
             (case LookupRequest G rs \<lparr>mi_Conn = connIn, mi_Path = q_Path req, mi_Method = q_Method req, mi_Header = q_Header req\<rparr> of
                None \<Rightarrow> (False, up, pageEnd (q_Target req) NoMatch (q_Method req) url ''no-match'' w1)
              | Some rule \<Rightarrow>
                  let oc = newOutcallContext (rs_uuid rs) (Addr_String (ClientKey sess)) dst (q_Method req) url (q_Header req) in
                  (case applyRequestActions G (en_oc E) oc (cr_request rule) req (wd_outcall w1) of
                     (v, req', st') \<Rightarrow>
                       let w2 = w1\<lparr>wd_outcall := st'\<rparr> in
                       case v of
                         Inl _ \<Rightarrow> (False, up, emit Panicked w2)
                       | Inr verdict \<Rightarrow>
                           if vd_ShortCircuit verdict then
                             (False, up,
                              case vd_Resp verdict of
                                Some spec \<Rightarrow> pageEnd (q_Target req') spec (q_Method req') url (requestVerdictOutcome spec) w2
                              | None \<Rightarrow> logAccess (q_Method req') url ''block'' 0 w2)
                           else forwardRequest E h up rule url req' w2))))"

text \<open>
  The loop over the requests of a connection. Every request after the first is read from the client's bytes, and
  its header block is not empty, so the bytes left bound the number of rounds.
\<close>

lemma boundNextHeaderBlock_nonempty: "boundNextHeaderBlock limit err s = (Inr block, x) \<Longrightarrow> block \<noteq> [] \<and> length block \<le> length s"
proof -
  assume "boundNextHeaderBlock limit err s = (Inr block, x)"
  then have "headerLoop limit err [] s = Inr block"
    by (auto simp: boundNextHeaderBlock_def split: if_splits sum.splits headerError.splits)
  then show ?thesis using blankLine_lf by (auto simp: headerLoop_iff firstBlank_def)
qed

lemma readBoundedRequest_consumes:
  assumes "readBoundedRequest E h w = (Some req, w')"
  shows "length (wd_client w') < length (wd_client w)"
proof -
  obtain block x where b: "boundNextHeaderBlock (hh_HeaderLimit h) (en_readErr E (wd_step w)) (wd_client w) = (Inr block, x)"
    using assms by (auto simp: readBoundedRequest_def Let_def split: prod.splits sum.splits)
  from boundNextHeaderBlock_nonempty [OF b] have "length (drop (length block) (wd_client w)) < length (wd_client w)"
    by (cases block) auto
  moreover obtain k where "wd_client w' = drop k (drop (length block) (wd_client w))"
    using assms b by (auto simp: readBoundedRequest_def Let_def split: option.splits)
  ultimately show ?thesis by simp
qed

subsection \<open>What the message phase appends to the trace\<close>

lemma pageEnd_extends [trace_intros]:
  "Q (Page pu spec) \<Longrightarrow> Q (Access m u out (sp_Status spec)) \<Longrightarrow> extends Q w w' \<Longrightarrow> extends Q w (pageEnd pu spec m u out w')"
  by (simp add: pageEnd_def logAccess_def extends_emit)

lemma logAccess_extends [trace_intros]: "Q (Access m u out st) \<Longrightarrow> extends Q w w' \<Longrightarrow> extends Q w (logAccess m u out st w')"
  by (simp add: logAccess_def extends_emit)

lemma lookupRules_extends: "lookupRules E sess w = (r, w') \<Longrightarrow> extends Q w w'"
  by (auto simp: lookupRules_def Let_def split: prod.splits sum.splits option.splits intro: trace_intros)

lemma lookupFailed_extends [trace_intros]:
  "Q Panicked \<Longrightarrow> (\<And>m u out st. Q (Access m u out st)) \<Longrightarrow> extends Q w w' \<Longrightarrow> extends Q w (lookupFailed f m u w')"
  by (auto simp: lookupFailed_def split: lookupFailure.splits intro: trace_intros)

text \<open>
  \<open>quiet\<close>: events that answer a client without reaching upstream. \<open>exchange dst req\<close>: those of forwarding \<open>req\<close> to
  \<open>dst\<close> and answering the client.
\<close>

definition quiet :: "event \<Rightarrow> bool" where
  "quiet e \<longleftrightarrow> (case e of Page _ _ \<Rightarrow> True | Access _ _ _ _ \<Rightarrow> True | CAPage _ \<Rightarrow> True | StreamReset \<Rightarrow> True | Panicked \<Rightarrow> True | _ \<Rightarrow> False)"

definition exchange :: "string \<Rightarrow> httpRequest \<Rightarrow> event \<Rightarrow> bool" where
  "exchange dst req e \<longleftrightarrow> quiet e \<or> forwards dst req e \<or> (case e of Replied _ \<Rightarrow> True | Upgraded _ \<Rightarrow> True | _ \<Rightarrow> False)"

lemma quiet_simps [simp]:
  "quiet (Page u sp)" "quiet (Access m u out st)" "quiet (CAPage pem)" "quiet StreamReset" "quiet Panicked"
  "\<not> quiet (Dialed a)" "\<not> quiet (DialedTLS a sni protos)" "\<not> quiet (Sent c q n)" "\<not> quiet (Spliced a)"
  by (simp_all add: quiet_def)

lemma exchange_simps [simp]:
  "exchange dst req (Page u sp)" "exchange dst req (Access m u out st)" "exchange dst req StreamReset" "exchange dst req Panicked"
  "exchange dst req (Closed c)" "exchange dst req (Replied resp)" "exchange dst req (Upgraded c)"
  by (simp_all add: exchange_def)

lemma quiet_dialsOnly: "quiet e \<Longrightarrow> dialsOnly dst e"
  by (cases e) (auto simp: quiet_def)

lemma exchange_dialsOnly: "exchange dst req e \<Longrightarrow> dialsOnly dst e"
  by (cases e) (auto simp: exchange_def quiet_dialsOnly dest: forwards_dialsOnly)

lemma forwards_exchange: "forwards dst req e \<Longrightarrow> exchange dst req e"
  by (simp add: exchange_def)

lemma chooseUpstream_extends:
  assumes "boundTo dst up" and "chooseUpstream E h up req w = (r, w')"
  shows "extends (connects dst) w w' \<and> (\<forall>leg b. r = Inr (leg, b) \<longrightarrow> boundTo dst leg)"
proof (cases up)
  case (UpH2 rt)
  with assms H1Fallback_extends [of E "hh_ConnectTries h" rt w] show ?thesis
    by (auto simp: chooseUpstream_def boundTo_def split: if_splits prod.splits sum.splits)
qed (use assms in \<open>auto simp: chooseUpstream_def\<close>)

lemma forwardRequest_extends:
  assumes "boundTo dst up" and "forwardRequest E h up rule url req w = (cont, up', w')"
  shows "extends (exchange dst req) w w' \<and> boundTo dst up'"
proof -
  obtain r w1 where r: "chooseUpstream E h up req w = (r, w1)" by (cases "chooseUpstream E h up req w")
  note c = chooseUpstream_extends [OF assms(1) r]
  have w1: "extends (exchange dst req) w w1"
    using c by (auto intro: extends_mono forwards_exchange connects_forwards)
  show ?thesis
  proof (cases r)
    case (Inl e)
    with assms r w1 show ?thesis by (auto simp: forwardRequest_def intro!: trace_intros)
  next
    case (Inr x)
    obtain leg b where leg: "r = Inr (leg, b)" using Inr by (cases x) auto
    obtain y leg' w2 where y: "upstream_RoundTrip E (hh_ConnectTries h) leg req w1 = (y, leg', w2)"
      by (cases "upstream_RoundTrip E (hh_ConnectTries h) leg req w1")
    have "extends (forwards dst req) w1 w2 \<and> boundTo dst leg'" using upstream_RoundTrip_extends [OF _ y, of dst] c leg by auto
    then have legs: "extends (exchange dst req) w w2" "boundTo dst leg'"
      using w1 by (auto intro: extends_trans extends_mono forwards_exchange)
    show ?thesis
      using assms legs unfolding forwardRequest_def r leg
      by (auto simp: y Let_def simp del: upstream_Close.simps split: sum.splits if_splits upstream.splits
          intro!: trace_intros upstream_Close_extends)
  qed
qed

text \<open>
  What the message phase asks before it forwards: the request names the authority of the connection, a rule of the
  rule set in force matches it, and the rule's actions let it pass as \<open>q\<close>.
\<close>

definition authorisedRequest ::
    "'s env \<Rightarrow> Session \<Rightarrow> ConnInput \<Rightarrow> string \<Rightarrow> httpRequest \<Rightarrow> 's world \<Rightarrow> httpRequest \<Rightarrow> bool" where
  "authorisedRequest E sess connIn dst req w q \<longleftrightarrow>
     authorityMatches (en_G E) (en_idna E) (q_Host req) (ci_Host connIn) (ci_Port connIn) (ci_Proto connIn) \<and>
     (\<exists>rs w1 rule v st. lookupRules E sess w = (Inr rs, w1) \<and>
        LookupRequest (en_G E) rs \<lparr>mi_Conn = connIn, mi_Path = q_Path req, mi_Method = q_Method req, mi_Header = q_Header req\<rparr> = Some rule \<and>
        applyRequestActions (en_G E) (en_oc E)
          (newOutcallContext (rs_uuid rs) (Addr_String (ClientKey sess)) dst (q_Method req) (msgRequestURL connIn req) (q_Header req))
          (cr_request rule) req (wd_outcall w1) = (Inr v, q, st) \<and>
        \<not> vd_ShortCircuit v)"

abbreviation msgInput :: "ConnInput \<Rightarrow> httpRequest \<Rightarrow> MsgInput" where
  "msgInput connIn req \<equiv> \<lparr>mi_Conn = connIn, mi_Path = q_Path req, mi_Method = q_Method req, mi_Header = q_Header req\<rparr>"

abbreviation msgContext :: "RuleSet \<Rightarrow> Session \<Rightarrow> string \<Rightarrow> ConnInput \<Rightarrow> httpRequest \<Rightarrow> outcallContext" where
  "msgContext rs sess dst connIn req \<equiv>
     newOutcallContext (rs_uuid rs) (Addr_String (ClientKey sess)) dst (q_Method req) (msgRequestURL connIn req) (q_Header req)"

text \<open>The ways through the message phase, shared by the HTTP/1.1 and the HTTP/2 handler.\<close>

lemma messagePhase_cases:
  obtains (misdirected) "\<not> authorityMatches (en_G E) (en_idna E) (q_Host req) (ci_Host connIn) (ci_Port connIn) (ci_Proto connIn)"
  | (engine) f w1 where "authorityMatches (en_G E) (en_idna E) (q_Host req) (ci_Host connIn) (ci_Port connIn) (ci_Proto connIn)"
      "lookupRules E sess w = (Inl f, w1)" "\<And>Q. extends Q w w1"
  | (nomatch) rs w1 where "authorityMatches (en_G E) (en_idna E) (q_Host req) (ci_Host connIn) (ci_Port connIn) (ci_Proto connIn)"
      "lookupRules E sess w = (Inr rs, w1)" "LookupRequest (en_G E) rs (msgInput connIn req) = None" "\<And>Q. extends Q w w1"
  | (ended) rs w1 rule v q st where "authorityMatches (en_G E) (en_idna E) (q_Host req) (ci_Host connIn) (ci_Port connIn) (ci_Proto connIn)"
      "lookupRules E sess w = (Inr rs, w1)" "LookupRequest (en_G E) rs (msgInput connIn req) = Some rule"
      "applyRequestActions (en_G E) (en_oc E) (msgContext rs sess dst connIn req) (cr_request rule) req (wd_outcall w1) = (v, q, st)"
      "\<And>x. v = Inr x \<Longrightarrow> vd_ShortCircuit x" "\<And>Q. extends Q w w1"
  | (pass) rs w1 rule v q st where "authorityMatches (en_G E) (en_idna E) (q_Host req) (ci_Host connIn) (ci_Port connIn) (ci_Proto connIn)"
      "lookupRules E sess w = (Inr rs, w1)" "LookupRequest (en_G E) rs (msgInput connIn req) = Some rule"
      "applyRequestActions (en_G E) (en_oc E) (msgContext rs sess dst connIn req) (cr_request rule) req (wd_outcall w1) = (Inr v, q, st)"
      "\<not> vd_ShortCircuit v" "\<And>Q. extends Q w (w1\<lparr>wd_outcall := st\<rparr>)" "authorisedRequest E sess connIn dst req w q"
proof (cases "authorityMatches (en_G E) (en_idna E) (q_Host req) (ci_Host connIn) (ci_Port connIn) (ci_Proto connIn)")
  case True
  obtain r w1 where r: "lookupRules E sess w = (r, w1)" by (cases "lookupRules E sess w")
  have w1: "extends Q w w1" for Q by (rule lookupRules_extends [OF r])
  show thesis
  proof (cases r)
    case (Inl f)
    with True r w1 engine show thesis by blast
  next
    case (Inr rs)
    show thesis
    proof (cases "LookupRequest (en_G E) rs (msgInput connIn req)")
      case None
      with True r Inr w1 nomatch show thesis by blast
    next
      case (Some rule)
      obtain v q st where act: "applyRequestActions (en_G E) (en_oc E) (msgContext rs sess dst connIn req) (cr_request rule) req (wd_outcall w1) = (v, q, st)"
        by (metis prod_cases3)
      note facts = True r [unfolded Inr] Some act
      show thesis
      proof (cases "\<exists>x. v = Inr x \<and> \<not> vd_ShortCircuit x")
        case goes: True
        then obtain x where x: "v = Inr x" "\<not> vd_ShortCircuit x" by blast
        have "authorisedRequest E sess connIn dst req w q" unfolding authorisedRequest_def using facts x by blast
        with facts x w1 pass show thesis by (blast intro: extends_update)
      next
        case False
        with facts w1 ended show thesis by blast
      qed
    qed
  qed
qed (rule misdirected)

lemma handleOneRequest_cases:
  assumes "boundTo d up" and "handleOneRequest E h sess up connIn dst req w = (cont, up', w')"
  shows "boundTo d up' \<and> (extends quiet w w' \<or> (\<exists>q. authorisedRequest E sess connIn dst req w q \<and> extends (exchange d q) w w'))"
proof (cases rule: messagePhase_cases [where E = E and sess = sess and connIn = connIn and dst = dst and req = req and w = w])
  case (ended rs w1 rule v q st)
  with assms show ?thesis
    by (auto simp: handleOneRequest_def Let_def split: sum.splits option.splits if_splits intro!: trace_intros)
next
  case (pass rs w1 rule v q st)
  with assms(2) have fw: "forwardRequest E h up rule (msgRequestURL connIn req) q (w1\<lparr>wd_outcall := st\<rparr>) = (cont, up', w')"
    by (simp add: handleOneRequest_def)
  have "extends (exchange d q) w w' \<and> boundTo d up'"
    using forwardRequest_extends [OF assms(1) fw] extends_trans [OF pass(6)] by blast
  with pass(7) show ?thesis by blast
qed (use assms in \<open>auto simp: handleOneRequest_def Let_def intro!: trace_intros\<close>)

lemma handleOneRequest_extends:
  assumes "boundTo dst up" and "handleOneRequest E h sess up connIn dst' req w = (cont, up', w')"
  shows "extends (dialsOnly dst) w w' \<and> boundTo dst up'"
  using handleOneRequest_cases [OF assms] by (auto intro: extends_mono quiet_dialsOnly exchange_dialsOnly)

lemma boundTo_some: "\<exists>dst. boundTo dst up"
proof (cases up)
  case (UpH1 rt)
  then show ?thesis by (cases "rt_redial rt") (auto simp: boundTo_def)
qed (auto simp: boundTo_def)

lemma handleOneRequest_client:
  assumes "handleOneRequest E h sess up connIn dst req w = (cont, up', w')"
  shows "wd_client w' = wd_client w"
proof -
  obtain d where "boundTo d up" using boundTo_some by blast
  from handleOneRequest_extends [OF this assms] show ?thesis by (simp add: extends_def)
qed

subsection \<open>The loop over requests\<close>

function relayLoop ::
    "'s env \<Rightarrow> Http1Handler \<Rightarrow> Session \<Rightarrow> ConnInput \<Rightarrow> string \<Rightarrow> upstream \<Rightarrow> 's world \<Rightarrow> upstream \<times> 's world" where
  "relayLoop E h sess connIn dst up w =
     (case readBoundedRequest E h w of
        (None, w1) \<Rightarrow> (up, w1)
      | (Some req, w1) \<Rightarrow>
          (case handleOneRequest E h sess up connIn dst req w1 of
             (True, up', w2) \<Rightarrow> relayLoop E h sess connIn dst up' w2
           | (False, up', w2) \<Rightarrow> (up', w2)))"
  by pat_completeness auto
termination
  by (relation "measure (\<lambda>(E, h, sess, connIn, dst, up, w). length (wd_client w))")
    (auto dest!: readBoundedRequest_consumes [OF sym] handleOneRequest_client [OF sym])

declare relayLoop.simps [simp del]

definition relayIntercepted ::
    "'s env \<Rightarrow> Http1Handler \<Rightarrow> Session \<Rightarrow> upstream \<Rightarrow> ConnInput \<Rightarrow> string \<Rightarrow> httpRequest option \<Rightarrow> 's world \<Rightarrow> 's world" where
  "relayIntercepted E h sess up connIn dst firstReq w =
     (let (up', w') =
        (case firstReq of
           None \<Rightarrow> relayLoop E h sess connIn dst up w
         | Some req \<Rightarrow>
             (case handleOneRequest E h sess up connIn dst req w of
                (True, up', w1) \<Rightarrow> relayLoop E h sess connIn dst up' w1
              | (False, up', w1) \<Rightarrow> (up', w1))) in
      upstream_Close up' w')"

subsection \<open>TLS termination\<close>

datatype terminatePhase = PhaseDial | PhaseMint | PhaseHandshake

record TerminateResult =
  tm_Upstream :: nat
  tm_ALPN :: string
  tm_UpstreamALPN :: string

text \<open>After the handshake the client's bytes are the plaintext of the session.\<close>

definition Terminate ::
    "'s env \<Rightarrow> Http1Handler \<Rightarrow> string \<Rightarrow> string \<Rightarrow> 's world \<Rightarrow> (terminatePhase \<times> netError, TerminateResult) res \<times> 's world" where
  "Terminate E h dst sni w =
     (case DialTLS E (hh_ConnectTries h) dst sni w of
        (Inl e, w1) \<Rightarrow> (Inl (PhaseDial, e), w1)
      | (Inr (up, upstreamALPN), w1) \<Rightarrow>
          if \<not> en_For E (wd_step w1) sni then
            (Inl (PhaseMint, plainErr ''clone cert''), emit (Closed up) (advance w1))
          else
            let clientProtos = (if upstreamALPN = ''h2'' then [''h2'', ''http/1.1''] else [''http/1.1'']);
                w2 = advance w1 in
            (case en_ClientHandshake E (wd_step w2) clientProtos of
               None \<Rightarrow> (Inl (PhaseHandshake, plainErr ''client handshake''), emit (Closed up) (advance w2))
             | Some alpn \<Rightarrow>
                 (Inr \<lparr>tm_Upstream = up, tm_ALPN = alpn, tm_UpstreamALPN = upstreamALPN\<rparr>,
                  (advance w2)\<lparr>wd_client := en_Decrypt E (wd_step w2) (wd_client w2)\<rparr>)))"

text \<open>The page over a session with a synthetic certificate; the result tells whether it was delivered.\<close>

definition Fallback :: "'s env \<Rightarrow> string \<Rightarrow> string \<Rightarrow> Spec \<Rightarrow> 's world \<Rightarrow> bool \<times> 's world" where
  "Fallback E sni reqURL spec w =
     (let w1 = advance w in
      if \<not> en_FallbackCert E (wd_step w) sni then (False, w1)
      else case en_ClientHandshake E (wd_step w) [''http/1.1''] of
        None \<Rightarrow> (False, w1)
      | Some _ \<Rightarrow>
          if en_ClientWrite E (wd_step w) then (True, emit (FallbackPage sni reqURL spec) w1) else (False, w1))"

definition terminateFailed ::
    "'s env \<Rightarrow> string \<Rightarrow> string \<Rightarrow> terminatePhase \<times> netError \<Rightarrow> 's world \<Rightarrow> 's world" where
  "terminateFailed E sni reqURL failure w =
     (if fst failure = PhaseHandshake then logAccess ''CONNECT'' reqURL ''tls-terminate-error'' 0 w
      else
        let spec = (if fst failure = PhaseDial then classifyTerminateDialErr (snd failure) else InternalError) in
        case Fallback E sni reqURL spec w of
          (False, w1) \<Rightarrow> logAccess ''CONNECT'' reqURL ''fallback-failed'' 0 w1
        | (True, w1) \<Rightarrow> logAccess ''CONNECT'' reqURL ''fallback-served'' (sp_Status spec) w1)"

definition rawSplice :: "'s env \<Rightarrow> Http1Handler \<Rightarrow> string \<Rightarrow> 's world \<Rightarrow> 's world" where
  "rawSplice E h dst w =
     (case Dial E (hh_ConnectTries h) dst w of
        (Inl _, w1) \<Rightarrow> w1
      | (Inr conn, w1) \<Rightarrow> emit (Closed conn) (emit (Spliced dst) w1))"

subsection \<open>HTTP/2 clients\<close>

definition h2Reply :: "golib \<Rightarrow> CompiledRule \<Rightarrow> httpResponse \<Rightarrow> httpResponse" where
  "h2Reply G rule resp =
     (let ri = snd (applyResponseActions G (cr_response rule) \<lparr>ri_Resp = resp, ri_BodyOverride = None, ri_StatusOverride = 0\<rparr>);
          r = ri_Resp ri;
          status = (if ri_StatusOverride ri \<noteq> 0 then ri_StatusOverride ri else p_StatusCode r) in
      case ri_BodyOverride ri of
        Some body \<Rightarrow>
          r\<lparr>p_StatusCode := status, p_Header := headerSet (p_Header r) ''Content-Length'' (Itoa (int (length body))), p_Body := body\<rparr>
      | None \<Rightarrow> r\<lparr>p_StatusCode := status\<rparr>)"

definition handleH2Stream ::
    "'s env \<Rightarrow> Http1Handler \<Rightarrow> Session \<Rightarrow> ConnInput \<Rightarrow> string \<Rightarrow> httpRequest \<Rightarrow> h2RoundTripper \<times> 's world \<Rightarrow> h2RoundTripper \<times> 's world" where
  "handleH2Stream E h sess connIn dst req rw =
     (let (rt, w) = rw; url = msgRequestURL connIn req; G = en_G E in
      if \<not> authorityMatches G (en_idna E) (q_Host req) (ci_Host connIn) (ci_Port connIn) (ci_Proto connIn) then
        (rt, pageEnd (q_Target req) MisdirectedRequest (q_Method req) url ''misdirected-authority'' w)
      else
        (case lookupRules E sess w of
           (Inl f, w1) \<Rightarrow> (rt, emit StreamReset (lookupFailed f (q_Method req) url w1))
         | (Inr rs, w1) \<Rightarrow>
             (case LookupRequest G rs \<lparr>mi_Conn = connIn, mi_Path = q_Path req, mi_Method = q_Method req, mi_Header = q_Header req\<rparr> of
                None \<Rightarrow> (rt, pageEnd (q_Target req) NoMatch (q_Method req) url ''no-match'' w1)
              | Some rule \<Rightarrow>
                  let oc = newOutcallContext (rs_uuid rs) (Addr_String (ClientKey sess)) dst (q_Method req) url (q_Header req) in
                  (case applyRequestActions G (en_oc E) oc (cr_request rule) req (wd_outcall w1) of
                     (v, req', st') \<Rightarrow>
                       let w2 = w1\<lparr>wd_outcall := st'\<rparr> in
                       case v of
                         Inl _ \<Rightarrow> (rt, emit StreamReset (emit Panicked w2))
                       | Inr verdict \<Rightarrow>
                           if vd_ShortCircuit verdict then
                             (rt,
                              case vd_Resp verdict of
                                Some spec \<Rightarrow> pageEnd (q_Target req') spec (q_Method req') url (requestVerdictOutcome spec) w2
                              | None \<Rightarrow> emit StreamReset (logAccess (q_Method req') url ''block'' 0 w2))
                           else (case h2_RoundTrip E (hh_ConnectTries h) rt req' w2 of
                             (Inl err, rt', w3) \<Rightarrow>
                               (rt', pageEnd (q_Target req') (classifyReadErr (asNetError err)) (q_Method req') url ''upstream-error'' w3)
                           | (Inr resp0, rt', w3) \<Rightarrow>
                               let resp = h2Reply G rule resp0 in
                               (rt', logAccess (q_Method req') url ''ok'' (p_StatusCode resp) (emit (Replied resp) w3)))))))"

text \<open>The streams of the connection, in the order their handlers run.\<close>

definition serveH2 ::
    "'s env \<Rightarrow> Http1Handler \<Rightarrow> Session \<Rightarrow> nat \<Rightarrow> string \<Rightarrow> string \<Rightarrow> ConnInput \<Rightarrow> 's world \<Rightarrow> 's world" where
  "serveH2 E h sess upstreamFirst dst sni connIn w =
     (case newUpstreamH2ClientConn E (hh_ConnectTries h) (hh_HTTP2ConnectTries h) dst sni (Some upstreamFirst) w of
        (Inl _, w1) \<Rightarrow> logAccess ''CONNECT'' (ci_Proto connIn @ ''://'' @ sni) ''h2-connect-fail'' 0 w1
      | (Inr cc, w1) \<Rightarrow>
          let rt = \<lparr>r2_dst = dst, r2_sni = sni, r2_connectTries = hh_HTTP2ConnectTries h, r2_headerLimit = hh_HeaderLimit h, r2_cc = Some cc\<rparr>;
              (rt', w2) = fold (handleH2Stream E h sess connIn dst) (en_Streams E (wd_step w1)) (rt, advance w1) in
          upstream_Close (UpH2 rt') w2)"

subsection \<open>Tunnels\<close>

definition serveTunnel ::
    "'s env \<Rightarrow> Http1Handler \<Rightarrow> Session \<Rightarrow> string \<Rightarrow> string \<Rightarrow> ConnInput \<Rightarrow> bool \<Rightarrow> string \<Rightarrow> string \<Rightarrow> 's world \<Rightarrow> 's world" where
  "serveTunnel E h sess dst sni connIn mitm meth reqURL w =
     (if \<not> mitm then rawSplice E h dst (logAccess meth reqURL ''splice (mitm:false)'' 0 w)
      else case Terminate E h dst sni w of
        (Inl failure, w1) \<Rightarrow> terminateFailed E sni reqURL failure w1
      | (Inr result, w1) \<Rightarrow>
          if tm_ALPN result = ''h2'' then serveH2 E h sess (tm_Upstream result) dst sni connIn w1
          else if tm_UpstreamALPN result = ''h2'' then
            (case newUpstreamH2ClientConn E (hh_ConnectTries h) (hh_HTTP2ConnectTries h) dst sni (Some (tm_Upstream result)) w1 of
               (Inl e, w2) \<Rightarrow> pageEnd reqURL (classifyTerminateDialErr e) meth reqURL ''h2-connect-fail'' w2
             | (Inr cc, w2) \<Rightarrow>
                 relayIntercepted E h sess
                   (UpH2 \<lparr>r2_dst = dst, r2_sni = sni, r2_connectTries = hh_HTTP2ConnectTries h, r2_headerLimit = hh_HeaderLimit h,
                      r2_cc = Some cc\<rparr>) connIn dst None w2)
          else
            relayIntercepted E h sess
              (UpH1 \<lparr>rt_conn = tm_Upstream result, rt_redial = Some (TLSTo dst sni), rt_headerLimit = hh_HeaderLimit h\<rparr>)
              connIn dst None w1)"

text \<open>The tunnel once the CONNECT was granted: the splice, or the peek at the ClientHello and the check of its name.\<close>

definition serveGranted ::
    "'s env \<Rightarrow> Http1Handler \<Rightarrow> Session \<Rightarrow> string \<Rightarrow> string \<Rightarrow> ConnInput \<Rightarrow> bool \<Rightarrow> string \<Rightarrow> 's world \<Rightarrow> 's world" where
  "serveGranted E h sess host dst connIn mitm reqURL w =
     (if \<not> mitm then serveTunnel E h sess dst [] connIn mitm ''CONNECT'' reqURL w
      else case en_Hello E (wd_step w) (wd_client w) of
        (Inl _, _) \<Rightarrow> logAccess ''CONNECT'' reqURL ''peek-error'' 0 (advance w)
      | (Inr serverName, _) \<Rightarrow>
          let sni = (if serverName = [] then host else serverName); w1 = advance w in
          if \<not> sameHost (en_G E) (en_idna E) sni host then
            (case Fallback E sni reqURL MisdirectedRequest w1 of
               (False, w2) \<Rightarrow> logAccess ''CONNECT'' reqURL ''sni-mismatch-fallback-failed'' 0 w2
             | (True, w2) \<Rightarrow> logAccess ''CONNECT'' reqURL ''sni-mismatch'' (sp_Status MisdirectedRequest) w2)
          else serveTunnel E h sess dst sni connIn mitm ''CONNECT'' reqURL w1)"

subsection \<open>The explicit proxy\<close>

definition serveConnect :: "'s env \<Rightarrow> Http1Handler \<Rightarrow> Session \<Rightarrow> httpRequest \<Rightarrow> 's world \<Rightarrow> 's world" where
  "serveConnect E h sess req w =
     (case normalizeAuthority (en_G E) (en_idna E) (q_Host req) ''443'' of
        Inl _ \<Rightarrow> pageEnd (q_Host req) InvalidRequest ''CONNECT'' (q_Host req) ''invalid-connect-authority'' w
      | Inr (host, port, dst0) \<Rightarrow>
          let reqURL = ''https://'' @ dst0; connIn = \<lparr>ci_Host = host, ci_Port = port, ci_Proto = ''https''\<rparr> in
          (case lookupRules E sess w of
             (Inl f, w1) \<Rightarrow> lookupFailed f ''CONNECT'' reqURL w1
           | (Inr rs, w1) \<Rightarrow>
               (case gate E sess rs (q_Method req) (q_Header req) reqURL w1 of
                  (None, w2) \<Rightarrow> w2
                | (Some _, w2) \<Rightarrow>
                    let (mitm, deny, matched) = LookupConn (en_G E) rs connIn in
                    if \<not> matched then pageEnd reqURL NoMatch ''CONNECT'' reqURL ''no-match'' w2
                    else if deny then pageEnd reqURL RuleDenied ''CONNECT'' reqURL ''denied'' w2
                    else (case pin E rs host port ''http'' w2 of
                      (Inl e, w3) \<Rightarrow> pinFailed e ''CONNECT'' reqURL w3
                    | (Inr dst, w3) \<Rightarrow>
                        (case Dial E (hh_ConnectTries h) dst w3 of
                           (Inl e, w4) \<Rightarrow> pageEnd reqURL (classifyConnectErr e) ''CONNECT'' reqURL ''connect-fail'' w4
                         | (Inr probe, w4) \<Rightarrow>
                             let w5 = advance (emit (Closed probe) w4) in
                             if \<not> en_ClientWrite E (wd_step w4) then w5
                             else serveGranted E h sess host dst connIn mitm reqURL (emit Established w5))))))"

definition serveAbsoluteForm :: "'s env \<Rightarrow> Http1Handler \<Rightarrow> Session \<Rightarrow> httpRequest \<Rightarrow> 's world \<Rightarrow> 's world" where
  "serveAbsoluteForm E h sess req w =
     (let url = q_URLText req; meth = q_Method req in
      if \<not> EqualFold (en_G E) (q_Scheme req) ''http'' then
        pageEnd url InvalidRequest meth url ''unsupported-absolute-scheme'' w
      else case normalizeAuthority (en_G E) (en_idna E) (q_URLHost req) ''80'' of
        Inl _ \<Rightarrow> pageEnd url InvalidRequest meth url ''invalid-request-authority'' w
      | Inr (host, port, _) \<Rightarrow>
          let connIn = \<lparr>ci_Host = host, ci_Port = port, ci_Proto = ''http''\<rparr> in
          (case lookupRules E sess w of
             (Inl f, w1) \<Rightarrow> lookupFailed f meth url w1
           | (Inr rs, w1) \<Rightarrow>
               (case gate E sess rs meth (q_Header req) url w1 of
                  (None, w2) \<Rightarrow> w2
                | (Some _, w2) \<Rightarrow>
                    let req1 = req\<lparr>q_Header := headerDel (q_Header req) ''Proxy-Authorization''\<rparr>;
                        (_, deny, matched) = LookupConn (en_G E) rs connIn in
                    if \<not> matched then pageEnd url NoMatch meth url ''no-match'' w2
                    else if deny then pageEnd url RuleDenied meth url ''denied'' w2
                    else (case pin E rs host port ''http'' w2 of
                      (Inl e, w3) \<Rightarrow> pinFailed e meth url w3
                    | (Inr dst, w3) \<Rightarrow>
                        (case Dial E (hh_ConnectTries h) dst w3 of
                           (Inl e, w4) \<Rightarrow> pageEnd url (classifyConnectErr e) meth url ''connect-fail'' w4
                         | (Inr conn, w4) \<Rightarrow>
                             relayIntercepted E h sess
                               (UpH1 \<lparr>rt_conn = conn, rt_redial = Some (PlainTo dst), rt_headerLimit = hh_HeaderLimit h\<rparr>)
                               connIn dst (Some (req1\<lparr>q_Scheme := [], q_URLHost := []\<rparr>)) w4)))))"

subsection \<open>Transparent interception\<close>

definition serveTransparentTLS ::
    "'s env \<Rightarrow> Http1Handler \<Rightarrow> Session \<Rightarrow> string \<Rightarrow> string \<Rightarrow> string \<Rightarrow> 's world \<Rightarrow> 's world" where
  "serveTransparentTLS E h sess serverName dstAddr dstPort w =
     (let meth = Transport_String (se_Transport sess);
          sni = (if serverName = [] then dstAddr else serverName);
          reqURL = ''https://'' @ JoinHostPort sni dstPort;
          connIn = \<lparr>ci_Host = sni, ci_Port = dstPort, ci_Proto = ''https''\<rparr> in
      case lookupRules E sess w of
        (Inl f, w1) \<Rightarrow> lookupFailed f meth reqURL w1
      | (Inr rs, w1) \<Rightarrow>
          (case gate E sess rs meth (\<lambda>_. None) reqURL w1 of
             (None, w2) \<Rightarrow> w2
           | (Some _, w2) \<Rightarrow>
               let (mitm, deny, matched) = LookupConn (en_G E) rs connIn in
               if \<not> matched then logAccess meth reqURL ''no-match'' 0 w2
               else if deny then logAccess meth reqURL ''denied'' 0 w2
               else (case pin E rs dstAddr dstPort ''http'' w2 of
                 (Inl e, w3) \<Rightarrow> pinDropped e meth reqURL w3
               | (Inr dst, w3) \<Rightarrow> serveTunnel E h sess dst sni connIn mitm meth reqURL w3)))"

definition opaqueReadOutcome :: "headerError \<Rightarrow> string" where
  "opaqueReadOutcome he =
     (if he = EmptyConnectionErr DeadlineExceeded \<or> he = HeaderReadErr DeadlineExceeded then ''client-read-timeout''
      else case he of
        EmptyConnectionErr _ \<Rightarrow> ''empty-connection''
      | HeadersTooLargeErr \<Rightarrow> ''headers-too-large''
      | HeaderReadErr _ \<Rightarrow> ''invalid-request'')"

definition serveTransparentOpaqueMITM ::
    "'s env \<Rightarrow> Http1Handler \<Rightarrow> Session \<Rightarrow> string \<Rightarrow> string \<Rightarrow> string \<Rightarrow> 's world \<Rightarrow> 's world" where
  "serveTransparentOpaqueMITM E h sess dstAddr dstPort meth0 w =
     (case boundNextHeaderBlock (hh_HeaderLimit h) (en_readErr E (wd_step w)) (wd_client w) of
        (Inl he, _) \<Rightarrow> logAccess meth0 [] (opaqueReadOutcome he) 0 (advance w)
      | (Inr block, _) \<Rightarrow>
          let following = drop (length block) (wd_client w) in
          (case en_ReadRequest E block following of
             None \<Rightarrow> logAccess meth0 [] ''invalid-request'' 0 (advance w)
           | Some (req, bodyLen) \<Rightarrow>
               let w0 = (advance w)\<lparr>wd_client := drop bodyLen following\<rparr>;
                   host = (if q_Host req = [] then dstAddr else q_Host req) in
               (case normalizeAuthority (en_G E) (en_idna E) host dstPort of
                  Inl _ \<Rightarrow> logAccess meth0 (q_URLText req) ''invalid-host-header'' 0 w0
                | Inr (hostOnly, _, _) \<Rightarrow>
                    let connIn = \<lparr>ci_Host = hostOnly, ci_Port = dstPort, ci_Proto = ''http''\<rparr>;
                        reqURL = ''http://'' @ hostOnly @ q_Target req; meth = q_Method req in
                    (case lookupRules E sess w0 of
                       (Inl f, w1) \<Rightarrow> lookupFailed f meth reqURL w1
                     | (Inr rs, w1) \<Rightarrow>
                         (case gate E sess rs meth (q_Header req) reqURL w1 of
                            (None, w2) \<Rightarrow> w2
                          | (Some _, w2) \<Rightarrow>
                              let req1 = req\<lparr>q_Header := headerDel (q_Header req) ''Proxy-Authorization''\<rparr>;
                                  (_, deny, matched) = LookupConn (en_G E) rs connIn in
                              if \<not> matched then logAccess meth reqURL ''no-match'' 0 w2
                              else if deny then logAccess meth reqURL ''denied'' 0 w2
                              else (case pin E rs dstAddr dstPort ''http'' w2 of
                                (Inl e, w3) \<Rightarrow> pinDropped e meth reqURL w3
                              | (Inr dst, w3) \<Rightarrow>
                                  (case Dial E (hh_ConnectTries h) dst w3 of
                                     (Inl e, w4) \<Rightarrow> logAccess meth reqURL ''connect-fail'' 0 w4
                                   | (Inr conn, w4) \<Rightarrow>
                                       relayIntercepted E h sess
                                         (UpH1 \<lparr>rt_conn = conn, rt_redial = Some (PlainTo dst), rt_headerLimit = hh_HeaderLimit h\<rparr>)
                                         connIn dst (Some req1) w4)))))))"

definition serveTransparentOpaque ::
    "'s env \<Rightarrow> Http1Handler \<Rightarrow> Session \<Rightarrow> string \<Rightarrow> string \<Rightarrow> string \<Rightarrow> 's world \<Rightarrow> 's world" where
  "serveTransparentOpaque E h sess dstAddr dstPort meth w =
     (let reqURL = ''tcp://'' @ JoinHostPort dstAddr dstPort;
          connIn = \<lparr>ci_Host = dstAddr, ci_Port = dstPort, ci_Proto = ''tcp''\<rparr> in
      case lookupRules E sess w of
        (Inl f, w1) \<Rightarrow> lookupFailed f meth reqURL w1
      | (Inr rs, w1) \<Rightarrow>
          (case gate E sess rs meth (\<lambda>_. None) reqURL w1 of
             (None, w2) \<Rightarrow> w2
           | (Some _, w2) \<Rightarrow>
               let (mitm, deny, matched) = LookupConn (en_G E) rs connIn in
               if \<not> matched then logAccess meth reqURL ''no-match'' 0 w2
               else if deny then logAccess meth reqURL ''denied'' 0 w2
               else if mitm then serveTransparentOpaqueMITM E h sess dstAddr dstPort meth w2
               else (case pin E rs dstAddr dstPort ''tcp'' w2 of
                 (Inl e, w3) \<Rightarrow> pinDropped e meth reqURL w3
               | (Inr dst, w3) \<Rightarrow> serveTunnel E h sess dst [] connIn False meth reqURL w3)))"

text \<open>A session without a recovered destination has the zero address, which prints as no address at all.\<close>

definition dstAddrText :: "Session \<Rightarrow> string" where
  "dstAddrText sess = (case se_Dst sess of Some (addr, _) \<Rightarrow> Addr_String addr | None \<Rightarrow> ''invalid IP'')"

definition dstPortText :: "Session \<Rightarrow> string" where
  "dstPortText sess = Itoa (case se_Dst sess of Some (_, port) \<Rightarrow> uint port | None \<Rightarrow> 0)"

definition serveTransparent :: "'s env \<Rightarrow> Http1Handler \<Rightarrow> Session \<Rightarrow> 's world \<Rightarrow> 's world" where
  "serveTransparent E h sess w =
     (let dstAddr = dstAddrText sess; dstPort = dstPortText sess; meth = Transport_String (se_Transport sess); w1 = advance w in
      case en_Hello E (wd_step w) (wd_client w) of
        (Inr serverName, _) \<Rightarrow> serveTransparentTLS E h sess serverName dstAddr dstPort w1
      | (Inl e, raw) \<Rightarrow>
          if raw = [] then
            logAccess meth [] (if e = DeadlineExceeded then ''client-read-timeout'' else ''empty-connection'') 0 w1
          else serveTransparentOpaque E h sess dstAddr dstPort meth w1)"

subsection \<open>Accepted connections\<close>

definition recoverSession :: "Http1Handler \<Rightarrow> Session \<Rightarrow> header \<Rightarrow> Session" where
  "recoverSession h sess hdr =
     (case se_Client sess of
        Some (peer, port) \<Rightarrow>
          if hh_TrustedProxies h \<noteq> [] then sess\<lparr>se_Client := Some (recoverClientIP peer hdr (hh_TrustedProxies h), port)\<rparr> else sess
      | None \<Rightarrow> sess)"

definition notFoundPage :: Spec where
  "notFoundPage = \<lparr>sp_Status = 404, sp_ErrCode = [], sp_Message = ''Not Found'', sp_Headers = []\<rparr>"

definition writeCAPEM :: "string option \<Rightarrow> 's world \<Rightarrow> 's world" where
  "writeCAPEM pem w = (case pem of None \<Rightarrow> emit (Page [] notFoundPage) w | Some p \<Rightarrow> emit (CAPage p) w)"

definition Serve :: "'s env \<Rightarrow> Http1Handler \<Rightarrow> Session \<Rightarrow> 's world \<Rightarrow> 's world" where
  "Serve E h sess w =
     (if se_Transport sess \<noteq> TransportExplicit then serveTransparent E h sess w
      else case readBoundedRequest E h w of
        (None, w1) \<Rightarrow> w1
      | (Some req, w1) \<Rightarrow>
          let sess1 = recoverSession h sess (q_Header req) in
          if q_Method req = ''CONNECT'' then serveConnect E h sess1 req w1
          else if q_Scheme req \<noteq> [] then serveAbsoluteForm E h sess1 req w1
          else if q_Method req = ''GET'' \<and> q_Path req = ''/ca.pem'' then writeCAPEM (hh_CAPEM h) w1
          else pageEnd (q_URLText req) InvalidRequest (q_Method req) (q_URLText req) ''invalid-request-shape'' w1)"

text \<open>\<open>Selector.Pick\<close> has one handler to pick, so a dispatched session is served by it.\<close>

definition Dispatcher_Handle :: "'s env \<Rightarrow> Http1Handler \<Rightarrow> Session \<Rightarrow> 's world \<Rightarrow> 's world" where
  "Dispatcher_Handle E deflt sess w = Serve E deflt sess w"

end
