(* ===== verification/EngineSpec.thy ===== *)
theory EngineSpec
  imports Engine
begin

text \<open>
  What the rule engine promises. Without a trust window every lookup answers from the rule files
  as they are stored at that moment, as a cacheless reference does (a refinement, by rule induction over the runs of the
  engine among updates by other nodes); when the backend is down an engine answers only from a
  confirmed entry and only within its policy of serving stale entries; no lookup ever returns a
  missing rule set.
\<close>

subsection \<open>The invariant of the caches\<close>

definition compiledSet :: "golib \<Rightarrow> RuleSet \<Rightarrow> bool" where
  "compiledSet G rs \<longleftrightarrow>
     (\<exists>http rules egress uuid ac auth. Compile G http = Inr rules \<and> CompileAuth ac = Inr auth \<and>
        rs = newRuleSet rules egress uuid auth)"

definition provenRuleSet :: "golib \<Rightarrow> RuleSet \<Rightarrow> bool" where
  "provenRuleSet G rs \<longleftrightarrow> rs = emptyRuleSet \<or> compiledSet G rs"

definition provenTable :: "golib \<Rightarrow> DefaultRuleset option \<Rightarrow> bool" where
  "provenTable G def \<longleftrightarrow> (\<forall>d. def = Some d \<longrightarrow> (\<forall>b \<in> set (dr_v4 d) \<union> set (dr_v6 d). compiledSet G (cb_rules b)))"

definition engineInv :: "golib \<Rightarrow> RuleEngine \<Rightarrow> bool" where
  "engineInv G e \<longleftrightarrow>
     (\<forall>client c. re_cache e client = Some c \<and> cc_exists c \<longrightarrow> (\<exists>rs. cc_ruleSet c = Some rs \<and> provenRuleSet G rs)) \<and>
     (\<forall>cd. re_defaultCache e = Some cd \<longrightarrow> provenTable G (cd_ruleset cd))"

definition policiesCompiled :: "golib \<Rightarrow> httpPolicies \<Rightarrow> bool" where
  "policiesCompiled G policies \<longleftrightarrow>
     (\<forall>(key, rules, idx) \<in> set policies. (\<exists>http. Compile G http = Inr rules) \<and> idx = buildHostCandidateIndex rules)"

lemma fromTable_proven: "provenTable G def \<Longrightarrow> fromTable def client = Some rs \<Longrightarrow> provenRuleSet G rs"
  by (auto simp: fromTable_def table_Lookup_def provenTable_def provenRuleSet_def split: option.splits if_splits dest!: find_mem)

lemma httpPolicy_compiled:
  assumes "httpPolicy G label http policies = Inr ((rules, idx), policies')" and "policiesCompiled G policies"
  shows "(\<exists>http. Compile G http = Inr rules) \<and> idx = buildHostCandidateIndex rules \<and> policiesCompiled G policies'"
  using assms by (fastforce simp: httpPolicy_def policiesCompiled_def Let_def split: option.splits sum.splits dest: map_of_SomeD)

lemma compileBucket_compiled:
  assumes "compileBucket G prev pe policies = Inr (b, policies')" and "policiesCompiled G policies" and "provenTable G prev"
  shows "compiledSet G (cb_rules b) \<and> policiesCompiled G policies'"
proof (cases "\<exists>b. bucketByLabel prev (canonical (pe_key pe)) = Some b \<and> cb_contentHash b = contentHash G (pe_rule pe)")
  case True
  then obtain b0 d where "prev = Some d" "b0 \<in> set (rev (dr_v4 d @ dr_v6 d))" "cb_rules b = cb_rules b0" "policies' = policies"
    using assms(1) by (auto simp: bucketByLabel_def compileBucket_def Let_def split: option.splits dest!: find_mem)
  with assms(2,3) show ?thesis by (auto simp: provenTable_def)
next
  case False
  then obtain auth rules idx egress where "CompileAuth (rf_Auth (pe_rule pe)) = Inr auth"
      "httpPolicy G (canonical (pe_key pe)) (rf_HTTP (pe_rule pe)) policies = Inr ((rules, idx), policies')"
      "cb_rules b = newRuleSetWithHostIndex rules idx egress (rf_UUID (pe_rule pe)) auth"
    using assms(1) by (auto simp: compileBucket_def Let_def split: option.splits sum.splits prod.splits)
  with httpPolicy_compiled [OF this(2) assms(2)] show ?thesis
    unfolding compiledSet_def newRuleSet_def by metis
qed

lemma compileBuckets_compiled:
  assumes "compileBuckets G prev pes policies = Inr bs" and "policiesCompiled G policies" and "provenTable G prev"
  shows "\<forall>b \<in> set bs. compiledSet G (cb_rules b)"
  using assms(1,2)
proof (induction pes arbitrary: policies bs)
  case (Cons pe pes)
  then obtain b policies' bs' where b: "compileBucket G prev pe policies = Inr (b, policies')"
      "compileBuckets G prev pes policies' = Inr bs'" "bs = b # bs'"
    by (auto split: prod.splits)
  from compileBucket_compiled [OF b(1) Cons(3) assms(3)] Cons(1) [OF b(2)] b(3) show ?case by simp
qed simp

lemma compileParsedEntries_proven:
  assumes "compileParsedEntries G entries prev = Inr d" and "provenTable G prev"
  shows "provenTable G (Some d)"
proof -
  from assms(1) obtain bs where "compileBuckets G prev entries [] = Inr bs"
      "set (dr_v4 d) \<union> set (dr_v6 d) \<subseteq> set bs"
    by (auto simp: compileParsedEntries_def Let_def)
  with compileBuckets_compiled [OF this(1) _ assms(2)] show ?thesis
    by (auto simp: provenTable_def policiesCompiled_def)
qed

subsubsection \<open>Every operation keeps it\<close>

lemma setDefault_inv:
  assumes "setDefault sys v ex d e s = (e', s')" and "engineInv G e" and "provenTable G d"
  shows "engineInv G e'"
  using assms by (auto simp: setDefault_def engineInv_def split: prod.splits)

lemma engineInv_default: "engineInv G e \<Longrightarrow> re_defaultCache e = Some cd \<Longrightarrow> provenTable G (cd_ruleset cd)"
  by (simp add: engineInv_def)

lemma provenTable_None [simp]: "provenTable G None"
  by (simp add: provenTable_def)

lemma recompileDefault_inv:
  assumes "recompileDefault sys G J version e s = (r, e', s')" and "engineInv G e"
  shows "engineInv G e' \<and> (\<forall>def. r = Inr def \<longrightarrow> provenTable G def)"
proof -
  have prev: "provenTable G (case re_defaultCache e of None \<Rightarrow> None | Some c \<Rightarrow> cd_ruleset c)"
    using assms(2) by (auto simp: engineInv_def split: option.split)
  show ?thesis
    using assms prev
    by (auto simp: recompileDefault_def Let_def split: prod.splits sum.splits intro: setDefault_inv compileParsedEntries_proven)
qed

lemma lookupDefaultTable_inv:
  assumes "lookupDefaultTable sys G J e s = (r, e', s')" and "engineInv G e"
  shows "engineInv G e' \<and> (\<forall>def. r = Inr def \<longrightarrow> provenTable G def)"
  using assms
  by (auto simp: lookupDefaultTable_def Let_def split: prod.splits sum.splits option.splits if_splits
      intro: setDefault_inv engineInv_default dest: recompileDefault_inv)

lemma setClient_inv:
  assumes "setClient sys client entry e s = (e', s')" and "engineInv G e"
    and "\<And>now. cc_exists (entry now) \<Longrightarrow> \<exists>rs. cc_ruleSet (entry now) = Some rs \<and> provenRuleSet G rs"
  shows "engineInv G e'"
  using assms by (auto simp: setClient_def engineInv_def split: prod.splits if_splits)

lemma resolveClientCache_inv:
  assumes "resolveClientCache sys G J client c e s = (r, e', s')" and "engineInv G e"
    and "cc_exists c \<Longrightarrow> \<exists>rs. cc_ruleSet c = Some rs \<and> provenRuleSet G rs"
  shows "engineInv G e' \<and> (\<forall>x. r = Inr x \<longrightarrow> (\<exists>rs. x = Some rs \<and> provenRuleSet G rs))"
proof (cases "cc_exists c")
  case True
  with assms show ?thesis by (auto simp: resolveClientCache_def)
next
  case False
  obtain d e1 s1 where d: "lookupDefaultTable sys G J e s = (d, e1, s1)" by (cases "lookupDefaultTable sys G J e s") auto
  from lookupDefaultTable_inv [OF d assms(2)] assms(1) False d show ?thesis
    by (auto simp: resolveClientCache_def provenRuleSet_def [of G emptyRuleSet] split: sum.splits option.splits
        dest: fromTable_proven)
qed

lemma resolveEgress_inv:
  assumes "resolveEgress sys G J client rf e s = (r, e', s')" and "engineInv G e"
  shows "engineInv G e'"
  using assms by (auto simp: resolveEgress_def split: prod.splits sum.splits option.splits dest: lookupDefaultTable_inv)

lemma lookupIP_inv:
  assumes run: "lookupIP sys G J client version prev e s = (r, e', s')" and inv: "engineInv G e"
    and prev: "\<And>c. prev = Some c \<Longrightarrow> cc_exists c \<Longrightarrow> \<exists>rs. cc_ruleSet c = Some rs \<and> provenRuleSet G rs"
  shows "engineInv G e' \<and> (\<forall>x. r = Inr x \<longrightarrow> (\<exists>rs. x = Some rs \<and> provenRuleSet G rs))"
proof -
  obtain r1 s1 where load: "Load sys J client s = (r1, s1)" by (cases "Load sys J client s")
  show ?thesis
  proof (cases r1)
    case (Inl err)
    with run load inv show ?thesis by (auto simp: lookupIP_def)
  next
    case (Inr rf0)
    obtain rf version' s2 where mint: "mintUUID sys G client rf0 version s1 = ((rf, version'), s2)"
      by (cases "mintUUID sys G client rf0 version s1") auto
    let ?entry = "\<lambda>rs now. \<lparr>cc_checkedAt = now, cc_version = version', cc_exists = True, cc_ruleSet = Some rs, cc_contentHash = contentHash G rf\<rparr>"
    have set: "engineInv G e2" if "setClient sys client (?entry rs) e1 s3 = (e2, s4)" "engineInv G e1" "provenRuleSet G rs"
      for e1 e2 s3 s4 rs using setClient_inv [OF that(1,2)] that(3) by simp
    show ?thesis
    proof (cases "\<exists>c rs. prev = Some c \<and> cc_exists c \<and> cc_contentHash c = contentHash G rf \<and> cc_ruleSet c = Some rs")
      case True
      then obtain c rs where c: "prev = Some c" "cc_exists c" "cc_contentHash c = contentHash G rf" "cc_ruleSet c = Some rs" by blast
      with prev [OF c(1,2)] have "provenRuleSet G rs" by simp
      with run load Inr mint c set inv show ?thesis
        by (auto simp: lookupIP_def Let_def split: prod.splits)
    next
      case False
      then have none: "(case prev of Some c \<Rightarrow> if cc_exists c \<and> cc_contentHash c = contentHash G rf then cc_ruleSet c else None | None \<Rightarrow> None) = None"
        by (auto split: option.split)
      have comp: "provenRuleSet G (newRuleSet rules egress uuid auth)"
        if "CompileAuth (rf_Auth rf) = Inr auth" "Compile G (rf_HTTP rf) = Inr rules" for rules egress uuid auth
        using that unfolding provenRuleSet_def compiledSet_def by blast
      show ?thesis
        using run load Inr mint none inv
        by (auto simp: lookupIP_def Let_def split: prod.splits sum.splits intro: set comp resolveEgress_inv dest: resolveEgress_inv)
    qed
  qed
qed

lemma engineInv_client: "engineInv G e \<Longrightarrow> re_cache e client = Some c \<Longrightarrow> cc_exists c \<Longrightarrow> \<exists>rs. cc_ruleSet c = Some rs \<and> provenRuleSet G rs"
  by (simp add: engineInv_def)

text \<open>The six ways a lookup can go.\<close>

definition askFresh :: "'s sys \<Rightarrow> RuleEngine \<Rightarrow> Addr \<Rightarrow> 's \<Rightarrow> bool \<times> 's" where
  "askFresh sys e client s = (case re_cache e client of None \<Rightarrow> (False, s) | Some c \<Rightarrow> fresh sys e (cc_checkedAt c) s)"

definition absentEntry :: "Version \<Rightarrow> int \<Rightarrow> cachedRuleSet" where
  "absentEntry version now = \<lparr>cc_checkedAt = now, cc_version = version, cc_exists = False, cc_ruleSet = None, cc_contentHash = []\<rparr>"

lemma Lookup_alt:
  "Lookup sys G J client e s =
     (let (isFresh, s1) = askFresh sys e client s in
      case (if isFresh then re_cache e client else None) of
        Some c \<Rightarrow> resolveClientCache sys G J client c e s1
      | None \<Rightarrow>
          (case store_Stat sys client s1 of
             (Inl err, s2) \<Rightarrow>
               (case (if 0 < re_cacheTTL e then re_cache e client else None) of
                  Some c \<Rightarrow> resolveClientCache sys G J client c e s2
                | None \<Rightarrow> (Inl err, e, s2))
           | (Inr (version, exists), s2) \<Rightarrow>
               (case (case re_cache e client of Some c \<Rightarrow> if cc_version c = version \<and> cc_exists c = exists then Some c else None | None \<Rightarrow> None) of
                  Some c \<Rightarrow> (let (e', s3) = touchClientCache sys client c e s2 in resolveClientCache sys G J client c e' s3)
                | None \<Rightarrow>
                    if \<not> exists then
                      (let (now, s3) = sy_Now sys s2 in
                       resolveClientCache sys G J client (absentEntry version now)
                         (e\<lparr>re_cache := (re_cache e)(client \<mapsto> absentEntry version now)\<rparr>) s3)
                    else lookupIP sys G J client version (re_cache e client) e s2)))"
  unfolding Lookup_def askFresh_def absentEntry_def Let_def ..

lemma Lookup_elim:
  assumes "Lookup sys G J client e s = out"
  obtains
    (trusted) c s1 where "re_cache e client = Some c" "askFresh sys e client s = (True, s1)"
      "out = resolveClientCache sys G J client c e s1"
  | (stale) c s1 s2 err where "re_cache e client = Some c" "askFresh sys e client s = (False, s1)"
      "store_Stat sys client s1 = (Inl err, s2)" "0 < re_cacheTTL e" "out = resolveClientCache sys G J client c e s2"
  | (failed) s1 s2 err where "askFresh sys e client s = (False, s1)" "store_Stat sys client s1 = (Inl err, s2)"
      "re_cache e client = None \<or> \<not> 0 < re_cacheTTL e" "out = (Inl err, e, s2)"
  | (unchanged) c s1 s2 e' s3 where "askFresh sys e client s = (False, s1)" "re_cache e client = Some c"
      "store_Stat sys client s1 = (Inr (cc_version c, cc_exists c), s2)" "touchClientCache sys client c e s2 = (e', s3)"
      "out = resolveClientCache sys G J client c e' s3"
  | (absent) s1 s2 version now e' s3 where "askFresh sys e client s = (False, s1)" "store_Stat sys client s1 = (Inr (version, False), s2)"
      "sy_Now sys s2 = (now, s3)" "e' = e\<lparr>re_cache := (re_cache e)(client \<mapsto> absentEntry version now)\<rparr>"
      "out = resolveClientCache sys G J client (absentEntry version now) e' s3"
  | (changed) s1 s2 version where "askFresh sys e client s = (False, s1)" "store_Stat sys client s1 = (Inr (version, True), s2)"
      "\<forall>c. re_cache e client = Some c \<longrightarrow> \<not> (cc_version c = version \<and> cc_exists c)"
      "out = lookupIP sys G J client version (re_cache e client) e s2"
proof -
  obtain f s1 where f: "askFresh sys e client s = (f, s1)" by (cases "askFresh sys e client s")
  obtain st s2 where st: "store_Stat sys client s1 = (st, s2)" by (cases "store_Stat sys client s1")
  obtain now s3 where now: "sy_Now sys s2 = (now, s3)" by (cases "sy_Now sys s2")
  note out = assms [unfolded Lookup_alt f Let_def prod.case st]
  show thesis
  proof (cases "re_cache e client")
    case None
    then have "f = False" using f by (simp add: askFresh_def)
    show thesis
    proof (cases st)
      case (Inl err)
      with out None f st \<open>f = False\<close> show thesis by (auto intro: failed)
    next
      case (Inr ve)
      obtain version ex where ve: "ve = (version, ex)" by (cases ve)
      show thesis
      proof (cases ex)
        case True
        show thesis by (rule changed) (use out None f st \<open>f = False\<close> Inr ve True in auto)
      next
        case False
        show thesis by (rule absent) (use out None f st \<open>f = False\<close> Inr ve False now in auto)
      qed
    qed
  next
    case (Some c)
    obtain e' s4 where touch: "touchClientCache sys client c e s2 = (e', s4)" by (cases "touchClientCache sys client c e s2")
    show thesis
    proof (cases f)
      case True
      with out Some f show thesis by (auto intro: trusted)
    next
      case False
      show thesis
      proof (cases st)
        case (Inl err)
        with out Some f st False show thesis by (auto split: if_splits intro: stale failed)
      next
        case (Inr ve)
        obtain version ex where ve: "ve = (version, ex)" by (cases ve)
        show thesis
        proof (cases "cc_version c = version \<and> cc_exists c = ex")
          case True
          with out Some f st False Inr ve touch show thesis by (auto intro: unchanged)
        next
          case differs: False
          show thesis
          proof (cases ex)
            case True
            with out Some f st False Inr ve differs show thesis by (auto intro: changed)
          next
            case nofile: False
            with out Some f st False Inr ve differs now show thesis by (auto intro: absent)
          qed
        qed
      qed
    qed
  qed
qed

lemma Lookup_inv:
  assumes "Lookup sys G J client e s = (r, e', s')" and "engineInv G e"
  shows "engineInv G e' \<and> (\<forall>x. r = Inr x \<longrightarrow> (\<exists>rs. x = Some rs \<and> provenRuleSet G rs))"
  using assms(1)
proof (cases rule: Lookup_elim)
  case (trusted c s1)
  from resolveClientCache_inv [OF trusted(3) [symmetric] assms(2)] engineInv_client [OF assms(2) trusted(1)] show ?thesis by blast
next
  case (stale c s1 s2 err)
  from resolveClientCache_inv [OF stale(5) [symmetric] assms(2)] engineInv_client [OF assms(2) stale(1)] show ?thesis by blast
next
  case (unchanged c s1 s2 e1 s3)
  note c = engineInv_client [OF assms(2) unchanged(2)]
  have "engineInv G e1"
    using setClient_inv [OF unchanged(4) [unfolded touchClientCache_def] assms(2)] c by simp
  from resolveClientCache_inv [OF unchanged(5) [symmetric] this c] show ?thesis by blast
next
  case (absent s1 s2 version now e1 s3)
  have "engineInv G e1" using assms(2) by (auto simp: absent(4) engineInv_def absentEntry_def)
  from resolveClientCache_inv [OF absent(5) [symmetric] this] show ?thesis by (simp add: absentEntry_def)
next
  case (changed s1 s2 version)
  from lookupIP_inv [OF changed(4) [symmetric] assms(2) engineInv_client [OF assms(2), of client]] show ?thesis by blast
qed (use assms(2) in auto)

subsection \<open>The cacheless reference\<close>

definition compileFile :: "golib \<Rightarrow> RuleFile \<Rightarrow> (engineError, RuleSet) res" where
  "compileFile G rf =
     bindR (case CompileAuth (rf_Auth rf) of Inl e \<Rightarrow> Inl (FileAuth e) | Inr a \<Rightarrow> Inr a) (\<lambda>auth.
     bindR (case Compile G (rf_HTTP rf) of Inl e \<Rightarrow> Inl (FileRules e) | Inr rs \<Rightarrow> Inr rs) (\<lambda>rules.
     bindR (case rf_Egress rf of
              None \<Rightarrow> Inr []
            | Some es \<Rightarrow> (case CompileEgress G es of Inl e \<Rightarrow> Inl (FileEgress e) | Inr ces \<Rightarrow> Inr ces)) (\<lambda>egress.
     Inr (newRuleSet rules egress (rf_UUID rf) auth))))"

definition compileTable :: "golib \<Rightarrow> jsonlib \<Rightarrow> string \<Rightarrow> (tableError, DefaultRuleset) res" where
  "compileTable G J data = bindR (parseDefaultRuleset J data) (\<lambda>entries. compileParsedEntries G entries None)"

text \<open>The policy of a client, read off what the backend holds: its own file, or the default table.\<close>

definition storedPolicy ::
    "golib \<Rightarrow> jsonlib \<Rightarrow> 's sys \<Rightarrow> (string \<Rightarrow> (string \<times> Version) option) \<Rightarrow> Addr \<Rightarrow> (engineError, RuleSet) res" where
  "storedPolicy G J sys vw client =
     (case vw (keyFor sys client) of
        Some (data, v) \<Rightarrow>
          (case json_ruleFile J data of None \<Rightarrow> Inl (FileParse (keyFor sys client)) | Some rf \<Rightarrow> compileFile G rf)
      | None \<Rightarrow>
          (case vw defaultKey of
             None \<Rightarrow> Inr emptyRuleSet
           | Some (data, v) \<Rightarrow>
               (case compileTable G J data of
                  Inl err \<Rightarrow> Inl (TableInvalid err)
                | Inr d \<Rightarrow> Inr (case table_Lookup d client of Some rs \<Rightarrow> rs | None \<Rightarrow> emptyRuleSet))))"

text \<open>A policy as a lookup returns it, by reference.\<close>

definition answer :: "(engineError, RuleSet) res \<Rightarrow> (engineError, RuleSet option) res" where
  "answer r = (case r of Inl e \<Rightarrow> Inl e | Inr rs \<Rightarrow> Inr (Some rs))"

lemma answer_simps [simp]: "answer (Inl e) = Inl e" "answer (Inr rs) = Inr (Some rs)"
  by (simp_all add: answer_def)

text \<open>
  The documents in play: every rule file names its uuid and its egress list, and the texts and hashes the code
  compares tell different policies apart.
\<close>

definition documentsApart :: "golib \<Rightarrow> jsonlib \<Rightarrow> bool" where
  "documentsApart G J \<longleftrightarrow>
     (\<forall>data rf. json_ruleFile J data = Some rf \<longrightarrow> rf_UUID rf \<noteq> [] \<and> rf_Egress rf \<noteq> None) \<and>
     (\<forall>raw rf. json_ruleFileStrict J raw = Some rf \<longrightarrow> rf_UUID rf \<noteq> []) \<and>
     (\<forall>data data' rf rf'. json_ruleFile J data = Some rf \<and> json_ruleFile J data' = Some rf' \<and> contentHash G rf = contentHash G rf' \<longrightarrow>
        freshRuleSet G rf = freshRuleSet G rf') \<and>
     (\<forall>raw raw' rf rf'. json_ruleFileStrict J raw = Some rf \<and> json_ruleFileStrict J raw' = Some rf' \<longrightarrow>
        (contentHash G rf = contentHash G rf' \<longrightarrow> freshRuleSet G rf = freshRuleSet G rf') \<and>
        (json_Marshal G (httpJSON (rf_HTTP rf)) = json_Marshal G (httpJSON (rf_HTTP rf')) \<longrightarrow> rf_HTTP rf = rf_HTTP rf'))"

lemma documentsApart_file:
  assumes "documentsApart G J" and "json_ruleFile J data = Some rf"
  shows "rf_UUID rf \<noteq> []" and "rf_Egress rf \<noteq> None"
    and "json_ruleFile J data' = Some rf' \<Longrightarrow> contentHash G rf = contentHash G rf' \<Longrightarrow> freshRuleSet G rf = freshRuleSet G rf'"
  using assms unfolding documentsApart_def by blast+

lemma documentsApart_entry:
  assumes "documentsApart G J" and "json_ruleFileStrict J raw = Some rf"
  shows "rf_UUID rf \<noteq> []"
    and "json_ruleFileStrict J raw' = Some rf' \<Longrightarrow> contentHash G rf = contentHash G rf' \<Longrightarrow> freshRuleSet G rf = freshRuleSet G rf'"
    and "json_ruleFileStrict J raw' = Some rf' \<Longrightarrow> json_Marshal G (httpJSON (rf_HTTP rf)) = json_Marshal G (httpJSON (rf_HTTP rf')) \<Longrightarrow>
      rf_HTTP rf = rf_HTTP rf'"
  using assms unfolding documentsApart_def by blast+

lemma compileFile_fresh: "compileFile G rf = Inr rs \<longleftrightarrow> freshRuleSet G rf = Some rs"
  by (auto simp: compileFile_def freshRuleSet_def split: sum.splits option.splits)

lemma parseEntries_rules:
  assumes "parseEntries J raws acc = Inr entries"
    and "\<forall>pe \<in> set acc. \<exists>raw. json_ruleFileStrict J raw = Some (pe_rule pe)"
  shows "\<forall>pe \<in> set entries. \<exists>raw. json_ruleFileStrict J raw = Some (pe_rule pe)"
  using assms
proof (induction J raws acc rule: parseEntries.induct)
  case (2 J k raw res entries')
  then obtain key rf where kr: "parseMaskedKey k = Inr key" "json_ruleFileStrict J raw = Some rf"
      "parseEntries J res (putEntry entries' \<lparr>pe_key = key, pe_rule = rf\<rparr>) = Inr entries"
    by (auto split: sum.splits option.splits)
  have "\<forall>pe \<in> set (putEntry entries' \<lparr>pe_key = key, pe_rule = rf\<rparr>). \<exists>raw. json_ruleFileStrict J raw = Some (pe_rule pe)"
    using 2(3) kr(2) by (auto simp: putEntry_def Let_def)
  from 2(1) [OF kr(1,2) kr(3) this] show ?case .
qed simp

lemma parseDefaultRuleset_rules:
  assumes "parseDefaultRuleset J data = Inr entries" and "pe \<in> set entries"
  shows "\<exists>raw. json_ruleFileStrict J raw = Some (pe_rule pe)"
  using assms parseEntries_rules [of J _ "[]" entries] by (auto simp: parseDefaultRuleset_def split: option.splits)

lemma policiesApart_parsed:
  assumes "documentsApart G J" and "parseDefaultRuleset J data = Inr entries"
  shows "policiesApart G entries"
  using parseDefaultRuleset_rules [OF assms(2)] documentsApart_entry(3) [OF assms(1)]
  unfolding policiesApart_def list_all_iff by blast

lemma mintEntries_none:
  "\<forall>pe \<in> set entries. rf_UUID (pe_rule pe) \<noteq> [] \<Longrightarrow> mintEntries sys entries s = (False, entries, s)"
  by (induction entries) auto

text \<open>Replacing a table compiled from one text by the table of another gives what a fresh compilation gives.\<close>

lemma compileTable_prev:
  assumes docs: "documentsApart G J" and new: "parseDefaultRuleset J data = Inr entries"
    and prev: "\<forall>d. prev = Some d \<longrightarrow> (\<exists>data'. compileTable G J data' = Inr d)"
  shows "compileParsedEntries G entries prev = compileParsedEntries G entries None"
proof (rule compileParsedEntries_prev)
  show "policiesApart G entries" using docs new by (rule policiesApart_parsed)
  show "reuseSound G prev entries"
    unfolding reuseSound_def
  proof (intro ballI allI impI, elim conjE)
    fix pe b assume pe: "pe \<in> set entries" and b: "bucketByLabel prev (canonical (pe_key pe)) = Some b"
      "cb_contentHash b = contentHash G (pe_rule pe)"
    then obtain d where d: "prev = Some d" by (cases prev) (auto simp: bucketByLabel_def)
    with prev obtain data' entries' where old: "parseDefaultRuleset J data' = Inr entries'" "compileParsedEntries G entries' None = Inr d"
      by (auto simp: compileTable_def)
    from compileParsedEntries_buckets [OF old(2) policiesApart_parsed [OF docs old(1)] b(1) [unfolded d]]
    obtain pe' where pe': "pe' \<in> set entries'" "pureBucket G pe' = Inr b" by blast
    then have "freshRuleSet G (pe_rule pe') = Some (cb_rules b)" "cb_contentHash b = contentHash G (pe_rule pe')"
      by (auto simp: pureBucket_def freshRuleSet_def Let_def split: sum.splits option.splits)
    moreover obtain raw raw' where "json_ruleFileStrict J raw = Some (pe_rule pe)" "json_ruleFileStrict J raw' = Some (pe_rule pe')"
      using parseDefaultRuleset_rules [OF new pe] parseDefaultRuleset_rules [OF old(1) pe'(1)] by blast
    ultimately show "freshRuleSet G (pe_rule pe) = Some (cb_rules b)"
      using b(2) documentsApart_entry(2) [OF docs, of raw "pe_rule pe" raw' "pe_rule pe'"] by simp
  qed
qed

subsection \<open>Coherence with the history of the backend\<close>

text \<open>
  \<open>hist\<close> is what each version of a key has ever denoted. The contract of a version is
  that it denotes one value.
\<close>

type_synonym history = "string \<times> Version \<rightharpoonup> string"

definition viewIn :: "history \<Rightarrow> (string \<Rightarrow> (string \<times> Version) option) \<Rightarrow> bool" where
  "viewIn hist vw \<longleftrightarrow> (\<forall>k d v. vw k = Some (d, v) \<longrightarrow> hist (k, v) = Some d)"

definition tableCoherent :: "golib \<Rightarrow> jsonlib \<Rightarrow> history \<Rightarrow> RuleEngine \<Rightarrow> bool" where
  "tableCoherent G J hist e \<longleftrightarrow>
     (\<forall>cd. re_defaultCache e = Some cd \<longrightarrow>
        (if cd_exists cd then
           \<exists>data d. hist (defaultKey, cd_version cd) = Some data \<and> compileTable G J data = Inr d \<and> cd_ruleset cd = Some d
         else cd_ruleset cd = None))"

definition clientCoherent :: "golib \<Rightarrow> jsonlib \<Rightarrow> 's sys \<Rightarrow> history \<Rightarrow> RuleEngine \<Rightarrow> bool" where
  "clientCoherent G J sys hist e \<longleftrightarrow>
     (\<forall>client c. re_cache e client = Some c \<and> cc_exists c \<longrightarrow>
        (\<exists>data rf rs. hist (keyFor sys client, cc_version c) = Some data \<and> json_ruleFile J data = Some rf \<and>
           compileFile G rf = Inr rs \<and> cc_ruleSet c = Some rs \<and> cc_contentHash c = contentHash G rf))"

definition storedTable :: "golib \<Rightarrow> jsonlib \<Rightarrow> (string \<Rightarrow> (string \<times> Version) option) \<Rightarrow> (engineError, DefaultRuleset option) res" where
  "storedTable G J vw =
     (case vw defaultKey of
        None \<Rightarrow> Inr None
      | Some (data, v) \<Rightarrow> (case compileTable G J data of Inl err \<Rightarrow> Inl (TableInvalid err) | Inr d \<Rightarrow> Inr (Some d)))"

lemma tableCoherent_update [simp]: "tableCoherent G J hist (e\<lparr>re_cache := x\<rparr>) = tableCoherent G J hist e"
  by (simp add: tableCoherent_def)

lemma coherent_mono:
  assumes "hist \<subseteq>\<^sub>m hist'"
  shows "tableCoherent G J hist e \<Longrightarrow> tableCoherent G J hist' e" and "clientCoherent G J sys hist e \<Longrightarrow> clientCoherent G J sys hist' e"
proof -
  have le: "hist' k = Some d" if "hist k = Some d" for k d using assms that by (metis domI map_le_def)
  show "tableCoherent G J hist e \<Longrightarrow> tableCoherent G J hist' e"
    unfolding tableCoherent_def using le by (meson option.inject)
  show "clientCoherent G J sys hist e \<Longrightarrow> clientCoherent G J sys hist' e"
    unfolding clientCoherent_def using le by blast
qed

text \<open>
  The runs of an engine without a trust window, among updates of the backend by others: an
  update may change any key, and a version, once seen, keeps denoting the same value. The trace
  records each lookup with what the backend held and what it answered.
\<close>

inductive engine_run ::
    "'s sys \<Rightarrow> ('s \<Rightarrow> string \<Rightarrow> (string \<times> Version) option) \<Rightarrow> ('s \<Rightarrow> bool) \<Rightarrow> golib \<Rightarrow> jsonlib \<Rightarrow>
     RuleEngine \<Rightarrow> 's \<Rightarrow> history \<Rightarrow>
     (Addr \<times> (string \<Rightarrow> (string \<times> Version) option) \<times> (engineError, RuleSet option) res) list \<Rightarrow> bool"
  for sys view ready G J where
  start: "ready s \<Longrightarrow> viewIn hist (view s) \<Longrightarrow> engine_run sys view ready G J (NewRuleEngine 0) s hist []"
| look: "engine_run sys view ready G J e s hist tr \<Longrightarrow> Lookup sys G J client e s = (r, e', s') \<Longrightarrow>
    engine_run sys view ready G J e' s' hist ((client, view s, r) # tr)"
| update: "engine_run sys view ready G J e s hist tr \<Longrightarrow> ready s' \<Longrightarrow> hist \<subseteq>\<^sub>m hist' \<Longrightarrow> viewIn hist' (view s') \<Longrightarrow>
    engine_run sys view ready G J e s' hist' tr"

locale engine_store = blob_store "sy_store sys" view ready keys
  for sys :: "'s sys" and view and ready and keys +
  assumes Now: "ready s \<Longrightarrow> ready (snd (sy_Now sys s)) \<and> view (snd (sy_Now sys s)) = view s"
    and client_key: "keys (keyFor sys client)"
    and default_key: "keys defaultKey"
begin

lemma stat_key:
  "ready s \<Longrightarrow> keys k \<Longrightarrow>
    store_stat sys k s = (Inr (case view s k of None \<Rightarrow> ([], False) | Some (d, v) \<Rightarrow> (v, True)), s)"
  by (simp add: store_stat_def Stat split: option.split)

lemma Now_E:
  assumes "ready s"
  obtains now s' where "sy_Now sys s = (now, s')" and "ready s'" and "view s' = view s"
  using Now [OF assms] by (cases "sy_Now sys s") auto

lemma recompile_table:
  assumes docs: "documentsApart G J" and coh: "tableCoherent G J hist e" and rdy: "ready s" and vw: "viewIn hist (view s)"
    and key: "view s defaultKey = Some (data, version)"
  shows "\<exists>e' s'. recompileDefault sys G J version e s = (storedTable G J (view s), e', s') \<and> tableCoherent G J hist e' \<and>
    re_cache e' = re_cache e \<and> re_cacheTTL e' = re_cacheTTL e \<and> ready s' \<and> view s' = view s"
proof -
  have raw: "LoadRawDefault sys s = (Inr (Some data), s)"
    using Get [OF rdy default_key] key by (simp add: LoadRawDefault_def loadRaw_def)
  show ?thesis
  proof (cases "parseDefaultRuleset J data")
    case (Inl err)
    with raw key coh rdy show ?thesis by (simp add: recompileDefault_def storedTable_def compileTable_def)
  next
    case (Inr entries)
    have "\<forall>pe \<in> set entries. rf_UUID (pe_rule pe) \<noteq> []"
      using parseDefaultRuleset_rules [OF Inr] documentsApart_entry(1) [OF docs] by blast
    then have mint: "mintEntries sys entries s = (False, entries, s)" by (rule mintEntries_none)
    let ?prev = "case re_defaultCache e of None \<Rightarrow> None | Some c \<Rightarrow> cd_ruleset c"
    have "\<forall>d. ?prev = Some d \<longrightarrow> (\<exists>data'. compileTable G J data' = Inr d)"
    proof (cases "re_defaultCache e")
      case (Some cd)
      with coh show ?thesis by (cases "cd_exists cd") (auto simp: tableCoherent_def)
    qed simp
    note prev = compileTable_prev [OF docs Inr this]
    obtain now s' where now: "sy_Now sys s = (now, s')" "ready s'" "view s' = view s" using rdy by (rule Now_E)
    show ?thesis
    proof (cases "compileParsedEntries G entries None")
      case (Inl err)
      with raw Inr mint prev key coh rdy show ?thesis
        by (simp add: recompileDefault_def persistDefault_def storedTable_def compileTable_def Let_def)
    next
      case (Inr d)
      have tab: "compileTable G J data = Inr d" using Inr \<open>parseDefaultRuleset J data = Inr entries\<close> by (simp add: compileTable_def)
      have hist: "hist (defaultKey, version) = Some data" using vw key by (simp add: viewIn_def)
      show ?thesis
        using raw \<open>parseDefaultRuleset J data = Inr entries\<close> mint prev Inr key now tab hist
        by (simp add: recompileDefault_def persistDefault_def storedTable_def setDefault_def tableCoherent_def Let_def)
    qed
  qed
qed

lemma lookup_table:
  assumes docs: "documentsApart G J" and coh: "tableCoherent G J hist e" and rdy: "ready s" and vw: "viewIn hist (view s)"
    and ttl: "re_cacheTTL e = 0"
  shows "\<exists>e' s'. lookupDefaultTable sys G J e s = (storedTable G J (view s), e', s') \<and> tableCoherent G J hist e' \<and>
    re_cache e' = re_cache e \<and> re_cacheTTL e' = re_cacheTTL e \<and> ready s' \<and> view s' = view s"
proof -
  have stat: "StatDefault sys s = (Inr (case view s defaultKey of None \<Rightarrow> ([], False) | Some (d, v) \<Rightarrow> (v, True)), s)"
    by (simp add: StatDefault_def stat_key [OF rdy default_key])
  obtain now s' where now: "sy_Now sys s = (now, s')" "ready s'" "view s' = view s" using rdy by (rule Now_E)
  show ?thesis
  proof (cases "view s defaultKey")
    case None
    with stat now ttl coh show ?thesis
      by (auto simp: lookupDefaultTable_def fresh_def setDefault_def storedTable_def tableCoherent_def Let_def split: option.split)
  next
    case (Some dv)
    obtain data v where dv: "dv = (data, v)" by (cases dv)
    note re = recompile_table [OF docs coh rdy vw Some [unfolded dv]]
    show ?thesis
    proof (cases "re_defaultCache e")
      case None
      with stat Some dv re show ?thesis by (auto simp: lookupDefaultTable_def)
    next
      case cached: (Some cd)
      show ?thesis
      proof (cases "cd_version cd = v \<and> cd_exists cd")
        case True
        with coh cached obtain data' d where "hist (defaultKey, v) = Some data'" "compileTable G J data' = Inr d" "cd_ruleset cd = Some d"
          by (auto simp: tableCoherent_def)
        moreover have "hist (defaultKey, v) = Some data" using vw Some dv by (simp add: viewIn_def)
        ultimately show ?thesis
          using stat Some dv cached True ttl now
          by (simp add: lookupDefaultTable_def fresh_def setDefault_def storedTable_def tableCoherent_def)
      next
        case False
        with stat Some dv re cached ttl show ?thesis by (auto simp: lookupDefaultTable_def fresh_def)
      qed
    qed
  qed
qed

lemma resolve_entry:
  assumes docs: "documentsApart G J" and coh: "tableCoherent G J hist e" and rdy: "ready s" and vw: "viewIn hist (view s)"
    and ttl: "re_cacheTTL e = 0" and absent: "\<not> cc_exists c" "view s (keyFor sys client) = None"
  shows "\<exists>e' s'. resolveClientCache sys G J client c e s = (answer (storedPolicy G J sys (view s) client), e', s') \<and>
    tableCoherent G J hist e' \<and> re_cache e' = re_cache e \<and> re_cacheTTL e' = re_cacheTTL e \<and> ready s' \<and> view s' = view s"
proof -
  from lookup_table [OF docs coh rdy vw ttl] obtain e' s' where t:
      "lookupDefaultTable sys G J e s = (storedTable G J (view s), e', s')" "tableCoherent G J hist e'"
      "re_cache e' = re_cache e" "re_cacheTTL e' = re_cacheTTL e" "ready s'" "view s' = view s"
    by blast
  then have "resolveClientCache sys G J client c e s = (answer (storedPolicy G J sys (view s) client), e', s')"
    using absent by (auto simp: resolveClientCache_def storedTable_def storedPolicy_def fromTable_def split: option.splits sum.splits)
  with t show ?thesis by blast
qed

lemma clientCoherent_same:
  "re_cache e' = re_cache e \<Longrightarrow> clientCoherent G J sys hist e' = clientCoherent G J sys hist e"
  by (simp add: clientCoherent_def)

lemma lookup_client:
  assumes docs: "documentsApart G J" and coh: "tableCoherent G J hist e" "clientCoherent G J sys hist e"
    and rdy: "ready s" and vw: "viewIn hist (view s)" and ttl: "re_cacheTTL e = 0"
    and key: "view s (keyFor sys client) = Some (data, version)"
  shows "\<exists>e' s'. lookupIP sys G J client version (re_cache e client) e s = (answer (storedPolicy G J sys (view s) client), e', s') \<and>
    tableCoherent G J hist e' \<and> clientCoherent G J sys hist e' \<and> re_cacheTTL e' = re_cacheTTL e \<and> ready s' \<and> view s' = view s"
proof -
  have get: "st_Get (sy_store sys) (keyFor sys client) s = (Inr (data, version), s)"
    using Get [OF rdy client_key] key by simp
  show ?thesis
  proof (cases "json_ruleFile J data")
    case None
    with get key coh rdy show ?thesis
      by (simp add: lookupIP_def Load_def store_load_def storedPolicy_def)
  next
    case (Some rf)
    note doc = documentsApart_file [OF docs Some]
    then obtain es where es: "rf_Egress rf = Some es" by blast
    have load: "Load sys J client s = (Inr rf, s)" using get Some by (simp add: Load_def store_load_def)
    have mint: "mintUUID sys G client rf version s = ((rf, version), s)" using doc(1) by (simp add: mintUUID_def)
    have spec: "storedPolicy G J sys (view s) client = compileFile G rf" using key Some by (simp add: storedPolicy_def)
    have hist: "hist (keyFor sys client, version) = Some data" using vw key by (simp add: viewIn_def)
    obtain now s' where now: "sy_Now sys s = (now, s')" "ready s'" "view s' = view s" using rdy by (rule Now_E)
    let ?e = "\<lambda>rs. e\<lparr>re_cache := (re_cache e)(client \<mapsto>
      \<lparr>cc_checkedAt = now, cc_version = version, cc_exists = True, cc_ruleSet = Some rs, cc_contentHash = contentHash G rf\<rparr>)\<rparr>"
    have keep: "clientCoherent G J sys hist (?e rs)" if "compileFile G rf = Inr rs" for rs
      using coh(2) hist Some that by (auto simp: clientCoherent_def)
    show ?thesis
    proof (cases "\<exists>c rs. re_cache e client = Some c \<and> cc_exists c \<and> cc_contentHash c = contentHash G rf \<and> cc_ruleSet c = Some rs")
      case True
      then obtain c rs where c: "re_cache e client = Some c" "cc_exists c" "cc_contentHash c = contentHash G rf" "cc_ruleSet c = Some rs"
        by blast
      with coh(2) obtain data' rf' where "json_ruleFile J data' = Some rf'" "compileFile G rf' = Inr rs" "contentHash G rf = contentHash G rf'"
        unfolding clientCoherent_def by fastforce
      with doc(3) have comp: "compileFile G rf = Inr rs" by (simp add: compileFile_fresh)
      then show ?thesis
        using load mint c now spec keep coh(1) by (simp add: lookupIP_def setClient_def)
    next
      case False
      then have none: "(case re_cache e client of Some c \<Rightarrow> if cc_exists c \<and> cc_contentHash c = contentHash G rf then cc_ruleSet c else None | None \<Rightarrow> None) = None"
        by (auto split: option.split)
      show ?thesis
        using load mint none now spec keep coh rdy es
        by (cases "CompileAuth (rf_Auth rf)"; cases "Compile G (rf_HTTP rf)"; cases "CompileEgress G es")
          (simp_all add: lookupIP_def setClient_def resolveEgress_def compileFile_def Let_def)
    qed
  qed
qed

lemma lookup_stored:
  assumes docs: "documentsApart G J" and coh: "tableCoherent G J hist e" "clientCoherent G J sys hist e"
    and rdy: "ready s" and vw: "viewIn hist (view s)" and ttl: "re_cacheTTL e = 0"
  shows "\<exists>e' s'. Lookup sys G J client e s = (answer (storedPolicy G J sys (view s) client), e', s') \<and>
    tableCoherent G J hist e' \<and> clientCoherent G J sys hist e' \<and> re_cacheTTL e' = re_cacheTTL e \<and> ready s' \<and> view s' = view s"
proof -
  have stat: "store_Stat sys client s = (Inr (case view s (keyFor sys client) of None \<Rightarrow> ([], False) | Some (d, v) \<Rightarrow> (v, True)), s)"
    by (simp add: store_Stat_def stat_key [OF rdy client_key])
  have ask: "askFresh sys e client s = (False, s)" using ttl by (simp add: askFresh_def fresh_def split: option.split)
  obtain now s1 where now: "sy_Now sys s = (now, s1)" "ready s1" "view s1 = view s" using rdy by (rule Now_E)
  have goal: ?thesis if run: "Lookup sys G J client e s = resolveClientCache sys G J client c e1 s1"
    and c: "\<not> cc_exists c" "view s (keyFor sys client) = None" and e1: "tableCoherent G J hist e1" "clientCoherent G J sys hist e1" "re_cacheTTL e1 = 0"
    for c e1
    using resolve_entry [OF docs e1(1) now(2) _ e1(3) c(1), of client] vw c(2) now(3) e1(2,3) run ttl clientCoherent_same by (metis (no_types, lifting))
  obtain out where out: "Lookup sys G J client e s = out" by blast
  then show ?thesis
  proof (cases rule: Lookup_elim)
    case (unchanged c s1' s2 e1 s3)
    with ask stat have c: "s2 = s" "(case view s (keyFor sys client) of None \<Rightarrow> ([], False) | Some (d, v) \<Rightarrow> (v, True)) = (cc_version c, cc_exists c)"
      by auto
    have touched: "e1 = e\<lparr>re_cache := (re_cache e)(client \<mapsto> c\<lparr>cc_checkedAt := now\<rparr>)\<rparr>" "s3 = s1"
      using unchanged(4) now by (auto simp: touchClientCache_def setClient_def c)
    have e1: "tableCoherent G J hist e1" "clientCoherent G J sys hist e1" "re_cacheTTL e1 = 0"
      using coh unchanged(2) ttl by (auto simp: touched clientCoherent_def)
    show ?thesis
    proof (cases "cc_exists c")
      case False
      with c e1 unchanged(5) out touched(2) show ?thesis by (intro goal [of c e1]) (auto split: option.splits)
    next
      case True
      with c(2) obtain data where data: "view s (keyFor sys client) = Some (data, cc_version c)" by (auto split: option.splits)
      with True coh(2) unchanged(2) vw obtain rf rs where "json_ruleFile J data = Some rf" "compileFile G rf = Inr rs" "cc_ruleSet c = Some rs"
        by (fastforce simp: clientCoherent_def viewIn_def)
      with True data e1 unchanged(5) out touched(2) now ttl show ?thesis
        by (simp add: resolveClientCache_def storedPolicy_def)
    qed
  next
    case (absent s1' s2 version now' e1 s3)
    with ask stat now have a: "s3 = s1" "now' = now" "view s (keyFor sys client) = None" by (auto split: option.splits)
    have "tableCoherent G J hist e1" "clientCoherent G J sys hist e1" "re_cacheTTL e1 = 0"
      using coh ttl by (auto simp: absent(4) clientCoherent_def absentEntry_def)
    with a absent(5) out show ?thesis by (intro goal [of "absentEntry version now'" e1]) (auto simp: absentEntry_def)
  next
    case (changed s1' s2 version)
    with ask stat obtain data where "s2 = s" "view s (keyFor sys client) = Some (data, version)" by (auto split: option.splits)
    with lookup_client [OF docs coh rdy vw ttl this(2)] changed(4) out show ?thesis by simp
  qed (use ask stat ttl in auto)
qed

lemma run_stored:
  assumes "engine_run sys view ready G J e s hist tr" and docs: "documentsApart G J"
  shows "tableCoherent G J hist e \<and> clientCoherent G J sys hist e \<and> ready s \<and> viewIn hist (view s) \<and> re_cacheTTL e = 0 \<and>
    (\<forall>(client, vw, r) \<in> set tr. r = answer (storedPolicy G J sys vw client))"
  using assms(1)
proof (induction rule: engine_run.induct)
  case (start s hist)
  then show ?case by (simp add: NewRuleEngine_def tableCoherent_def clientCoherent_def)
next
  case (look e s hist tr client r e' s')
  from look.IH look.hyps(2) lookup_stored [OF docs, of hist e s client] show ?case by auto
next
  case (update e s hist tr s' hist')
  from update.IH update.hyps coherent_mono [OF update.hyps(3)] show ?case by blast
qed

end

subsection \<open>The engine over the file-system backend\<close>

definition posixSys :: "PosixStorage \<Rightarrow> (disk \<Rightarrow> string) \<Rightarrow> (string \<Rightarrow> string) \<Rightarrow> disk sys" where
  "posixSys p uuid sha1 =
     \<lparr>sy_store = posixStorage p, sy_Now = (\<lambda>d. (dk_clock d, d)), sy_NewUUID = (\<lambda>d. (uuid d, d)), sy_sha1 = sha1\<rparr>"

lemma keyFor_clean: "cleanKey (keyFor sys client)"
proof -
  define h where "h = hexEncode (sy_sha1 sys (Addr_String client))"
  have h: "CHR ''/'' \<notin> set h" "CHR ''.'' \<notin> set h" by (simp_all add: h_def hexEncode_no_slash hexEncode_no_dot)
  have "keyFor sys client = ''rules'' @ CHR ''/'' # ''ip'' @ CHR ''/'' # h @ ''.json''"
    by (simp add: keyFor_def ipPrefix_def h_def)
  then have segs: "Split (keyFor sys client) CHR ''/'' = [''rules'', ''ip'', h @ ''.json'']"
    using h(1) by (simp only: Split_append_sep) (simp add: Split_no_sep)
  have "\<not> HasPrefix (h @ ''.json'') ''.tmp-''" using h(2) by (cases h) (auto simp: HasPrefix_iff)
  with segs show ?thesis by (simp add: cleanKey_def isTemp_def plainSeg_def)
qed

lemma defaultKey_clean: "cleanKey defaultKey"
  by code_simp

interpretation posix_engine: engine_store "posixSys p uuid sha1" "posix_view p" "posix_ready p" cleanKey
  by unfold_locales
    (simp_all add: posixSys_def keyFor_clean defaultKey_clean posix_store.Get posix_store.Stat posix_store.Put posix_store.Delete)

subsection \<open>Properties\<close>

definition oneFile :: RuleFile where
  "oneFile = \<lparr>rf_UUID = ''u-1'', rf_Auth = None, rf_HTTP = [], rf_Egress = Some []\<rparr>"

definition oneFileJSON :: jsonlib where
  "oneFileJSON =
     \<lparr>json_object = (\<lambda>_. None), json_ruleFileStrict = (\<lambda>_. None), json_ruleFile = (\<lambda>data. if data = ''one'' then Some oneFile else None)\<rparr>"

lemma oneFile_apart: "documentsApart plainLib oneFileJSON"
  by (auto simp: documentsApart_def oneFileJSON_def oneFile_def)

definition demoSys :: "disk sys" where
  "demoSys = posixSys demoPosix (\<lambda>_. ''minted'') (\<lambda>s. s)"

definition demoClient :: Addr where
  "demoClient = v4Addr [10, 0, 0, 7]"

definition demoDisk :: disk where
  "demoDisk = snd (posix_Put demoPosix (keyFor demoSys demoClient) ''one'' (emptyDisk 5))"

lemma demoDisk_facts:
  "posix_ready demoPosix demoDisk" "posix_view demoPosix demoDisk (keyFor demoSys demoClient) = Some (''one'', ''5-3'')"
proof -
  from posix_Put_ready [OF emptyDisk_ready [of 5] keyFor_clean [of demoSys demoClient], of "''one''"]
  obtain d where d: "posix_Put demoPosix (keyFor demoSys demoClient) ''one'' (emptyDisk 5) = (None, d)" "posix_ready demoPosix d"
      "disk_find d (posix_path demoPosix (keyFor demoSys demoClient)) = Some \<lparr>fi_data = ''one'', fi_mtime = 5\<rparr>"
    by (auto simp: emptyDisk_def)
  moreover have "versionOf \<lparr>fi_data = ''one'', fi_mtime = 5\<rparr> = ''5-3''" by code_simp
  ultimately show "posix_ready demoPosix demoDisk" "posix_view demoPosix demoDisk (keyFor demoSys demoClient) = Some (''one'', ''5-3'')"
    by (simp_all add: demoDisk_def posix_view_def)
qed



subsubsection \<open>Every lookup hands out a compiled policy\<close>

inductive engine_reach :: "'s sys \<Rightarrow> golib \<Rightarrow> jsonlib \<Rightarrow> RuleEngine \<Rightarrow> bool" for sys G J where
  new: "engine_reach sys G J (NewRuleEngine ttl)"
| look: "engine_reach sys G J e \<Longrightarrow> Lookup sys G J client e s = (r, e', s') \<Longrightarrow> engine_reach sys G J e'"

lemma reach_inv: "engine_reach sys G J e \<Longrightarrow> engineInv G e"
proof (induction rule: engine_reach.induct)
  case (look e client s r e' s')
  from Lookup_inv [OF look(2) look.IH] show ?case by simp
qed (simp add: NewRuleEngine_def engineInv_def)

lemma proven_first_match:
  assumes "provenRuleSet G rs"
  shows "\<exists>rules. (rules = [] \<or> (\<exists>http. Compile G http = Inr rules)) \<and>
    (fits_uint32 (buildHostCandidateIndex rules) \<longrightarrow>
      (\<forall>inp. find (connMatches G inp) (visited G rs (ci_Host inp)) = find (connMatches G inp) rules))"
proof (cases "rs = emptyRuleSet")
  case True
  then show ?thesis by (intro exI [of _ "[]"]) (simp add: visited_def emptyRuleSet_def)
next
  case False
  with assms obtain http rules egress uuid auth where rs: "Compile G http = Inr rules" "rs = newRuleSet rules egress uuid auth"
    unfolding provenRuleSet_def compiledSet_def by blast
  have "find (connMatches G inp) (visited G rs (ci_Host inp)) = find (connMatches G inp) rules"
    if "fits_uint32 (buildHostCandidateIndex rules)" for inp
    unfolding rs(2) using that rs(1) by (intro visited_first_match indexable_Compile) (auto simp: connMatches_def)
  with rs(1) show ?thesis by blast
qed



subsubsection \<open>A backend that is down\<close>

definition backendDown :: "'s sys \<Rightarrow> bool" where
  "backendDown sys \<longleftrightarrow> (\<forall>key s. \<exists>m. fst (st_Stat (sy_store sys) key s) = Inl (StorageFailure m))"

lemma down_stat:
  assumes "backendDown sys"
  obtains err s' where "store_stat sys key s = (Inl err, s')"
proof -
  obtain r s' where r: "st_Stat (sy_store sys) key s = (r, s')" by (cases "st_Stat (sy_store sys) key s")
  with assms obtain m where "r = Inl (StorageFailure m)" unfolding backendDown_def by (metis fst_conv)
  with r show thesis by (intro that) (simp add: store_stat_def)
qed

lemma down_table:
  assumes "backendDown sys" and run: "lookupDefaultTable sys G J e s = (r, e', s')"
  shows "e' = e \<and> (\<forall>def. r = Inr def \<longrightarrow> 0 < re_cacheTTL e \<and> (\<exists>cd. re_defaultCache e = Some cd \<and> def = cd_ruleset cd))"
proof (cases "re_defaultCache e")
  case None
  obtain err s2 where "StatDefault sys s = (Inl err, s2)" unfolding StatDefault_def using assms(1) by (rule down_stat)
  with run None show ?thesis by (auto simp: lookupDefaultTable_def)
next
  case (Some cd)
  obtain f s1 where f: "fresh sys e (cd_checkedAt cd) s = (f, s1)" by (cases "fresh sys e (cd_checkedAt cd) s")
  then have "f \<Longrightarrow> 0 < re_cacheTTL e" by (auto simp: fresh_def split: if_splits)
  moreover obtain err s2 where "StatDefault sys s1 = (Inl err, s2)" unfolding StatDefault_def using assms(1) by (rule down_stat)
  ultimately show ?thesis using run Some f by (auto simp: lookupDefaultTable_def split: if_splits)
qed

lemma down_resolve:
  assumes "backendDown sys" and run: "resolveClientCache sys G J client c e s = (r, e', s')" and "0 < re_cacheTTL e"
  shows "e' = e \<and> (\<forall>x. r = Inr x \<longrightarrow>
    (if cc_exists c then x = cc_ruleSet c
     else \<exists>cd. re_defaultCache e = Some cd \<and> x = Some (case fromTable (cd_ruleset cd) client of Some rs \<Rightarrow> rs | None \<Rightarrow> emptyRuleSet)))"
proof (cases "cc_exists c")
  case True
  with run show ?thesis by (auto simp: resolveClientCache_def)
next
  case False
  obtain t e1 s1 where t: "lookupDefaultTable sys G J e s = (t, e1, s1)" by (cases "lookupDefaultTable sys G J e s") auto
  from down_table [OF assms(1) t] run t False show ?thesis
    by (cases t) (auto simp: resolveClientCache_def split: option.splits)
qed

text \<open>
  C9. While the backend cannot be reached, a lookup changes nothing, and it succeeds only when a trust window is
  configured and the client has a confirmed entry; the answer is then the entry's own rule set or, for a client
  confirmed to have none, what the cached default table says. Without a window, or for a client never
  seen, it fails closed.
\<close>

theorem lookup_backend_down:
  assumes "backendDown sys" and "Lookup sys G J client e s = (r, e', s')"
  shows "e' = e \<and> (\<forall>x. r = Inr x \<longrightarrow> 0 < re_cacheTTL e \<and>
    (\<exists>c. re_cache e client = Some c \<and>
      (if cc_exists c then x = cc_ruleSet c
       else \<exists>cd. re_defaultCache e = Some cd \<and> x = Some (case fromTable (cd_ruleset cd) client of Some rs \<Rightarrow> rs | None \<Rightarrow> emptyRuleSet))))"
  using assms(2)
proof (cases rule: Lookup_elim)
  case (trusted c s1)
  then have ttl: "0 < re_cacheTTL e" by (auto simp: askFresh_def fresh_def split: option.splits if_splits)
  from down_resolve [OF assms(1) trusted(3) [symmetric] ttl] ttl trusted(1) show ?thesis by simp
next
  case (stale c s1 s2 err)
  from down_resolve [OF assms(1) stale(5) [symmetric] stale(4)] stale(1,4) show ?thesis by simp
next
  case (unchanged c s1 s2 e1 s3)
  then show ?thesis using down_stat [OF assms(1), of "keyFor sys client" s1] by (auto simp: store_Stat_def)
next
  case (absent s1 s2 version now e1 s3)
  then show ?thesis using down_stat [OF assms(1), of "keyFor sys client" s1] by (auto simp: store_Stat_def)
next
  case (changed s1 s2 version)
  then show ?thesis using down_stat [OF assms(1), of "keyFor sys client" s1] by (auto simp: store_Stat_def)
qed simp

definition downStorage :: "unit Storage" where
  "downStorage =
     \<lparr>st_Get = (\<lambda>k s. (Inl (StorageFailure ''down''), s)), st_Put = (\<lambda>k d s. (Some (StorageFailure ''down''), s)),
      st_Delete = (\<lambda>k s. (Some (StorageFailure ''down''), s)), st_DeletePrefix = (\<lambda>k s. (Some (StorageFailure ''down''), s)),
      st_Stat = (\<lambda>k s. (Inl (StorageFailure ''down''), s)), st_List = (\<lambda>k s. (Inl (StorageFailure ''down''), s))\<rparr>"

definition downSys :: "unit sys" where
  "downSys = \<lparr>sy_store = downStorage, sy_Now = (\<lambda>s. (9, s)), sy_NewUUID = (\<lambda>s. (''u'', s)), sy_sha1 = (\<lambda>s. s)\<rparr>"

theorem lookup_backend_down_witness:
  "\<exists>err. fst (Lookup downSys plainLib oneFileJSON demoClient (NewRuleEngine 60) ()) = Inl err"
proof -
  obtain r e' s' where run: "Lookup downSys plainLib oneFileJSON demoClient (NewRuleEngine 60) () = (r, e', s')"
    by (cases "Lookup downSys plainLib oneFileJSON demoClient (NewRuleEngine 60) ()") auto
  have "backendDown downSys" by (simp add: backendDown_def downStorage_def downSys_def)
  moreover have "re_cache (NewRuleEngine 60) demoClient = None" by (simp add: NewRuleEngine_def)
  ultimately show ?thesis using lookup_backend_down [OF _ run] by (cases r) (auto simp: run)
qed

text \<open>
  An egress list inherited from the default table is fixed when the client's file is compiled: as long as
  that file keeps its version, a lookup answers with the cached rule set, whatever the default
  table holds by then; an update of the default is not seen by such a client.
\<close>

theorem inherited_egress_frozen:
  assumes "posix_ready p d" and "re_cacheTTL e = 0" and "re_cache e client = Some c" and "cc_exists c" and "cc_ruleSet c = Some rs"
    and "posix_view p d (keyFor (posixSys p uuid sha1) client) = Some (data, cc_version c)"
  shows "fst (Lookup (posixSys p uuid sha1) G J client e d) = Inr (Some rs)"
proof -
  let ?sys = "posixSys p uuid sha1"
  have stat: "store_Stat ?sys client d = (Inr (cc_version c, True), d)"
    using posix_engine.stat_key [OF assms(1) keyFor_clean [of ?sys client], of uuid sha1] assms(6) by (simp add: store_Stat_def)
  have "askFresh ?sys e client d = (False, d)" using assms(2,3) by (simp add: askFresh_def fresh_def)
  then show ?thesis
    using stat assms(3-5) by (simp add: Lookup_alt resolveClientCache_def split: prod.split)
qed

theorem inherited_egress_frozen_witness:
  "fst (Lookup demoSys plainLib demoJSON demoClient
     ((NewRuleEngine 0)\<lparr>re_cache := [demoClient \<mapsto>
        \<lparr>cc_checkedAt = 0, cc_version = ''5-3'', cc_exists = True, cc_ruleSet = Some (newRuleSet [] (map anyEgress guardPrefixes) ''u-1'' None),
         cc_contentHash = []\<rparr>]\<rparr>) demoDisk) = Inr (Some (newRuleSet [] (map anyEgress guardPrefixes) ''u-1'' None))"
  using inherited_egress_frozen [OF demoDisk_facts(1), of "(NewRuleEngine 0)\<lparr>re_cache := [demoClient \<mapsto>
        \<lparr>cc_checkedAt = 0, cc_version = ''5-3'', cc_exists = True, cc_ruleSet = Some (newRuleSet [] (map anyEgress guardPrefixes) ''u-1'' None),
         cc_contentHash = []\<rparr>]\<rparr>" demoClient _ _ "\<lambda>_. ''minted''" "\<lambda>s. s" "''one''" plainLib demoJSON]
    demoDisk_facts(2) by (simp add: demoSys_def NewRuleEngine_def)

end
