(* ===== verification/PipelineSpec.thy ===== *)
theory PipelineSpec
  imports Pipeline EngineSpec
begin

text \<open>
  What the connection handlers of \<open>Pipeline\<close> promise: a run of \<open>Serve\<close> reaches out only after the connection phase
  admitted the connection, and then to the one address it pinned; a request is forwarded only after the message
  phase authorised it; every request leaves one access record.
\<close>

subsection \<open>Growing traces\<close>

text \<open>\<open>grows Q w w'\<close>: the trace has grown by events of \<open>Q\<close>, whatever was read from the client.\<close>

definition grows :: "(event \<Rightarrow> bool) \<Rightarrow> 's world \<Rightarrow> 's world \<Rightarrow> bool" where
  "grows Q w w' \<longleftrightarrow> (\<exists>tr. wd_trace w' = wd_trace w @ tr \<and> list_all Q tr)"

named_theorems grow_intros

lemma extends_grows: "extends Q w w' \<Longrightarrow> grows Q w w'"
  by (auto simp: extends_def grows_def)

lemma grows_trans: "grows Q w w1 \<Longrightarrow> grows Q w1 w2 \<Longrightarrow> grows Q w w2"
  by (fastforce simp: grows_def)

lemma grows_mono: "grows Q w w' \<Longrightarrow> (\<And>e. Q e \<Longrightarrow> Q' e) \<Longrightarrow> grows Q' w w'"
  by (fastforce simp: grows_def list_all_iff)

lemma grows_refl [grow_intros, simp]: "grows Q w w"
  by (simp add: grows_def)

lemma grows_emit [grow_intros]: "Q e \<Longrightarrow> grows Q w w' \<Longrightarrow> grows Q w (emit e w')"
  by (fastforce simp: grows_def emit_def)

lemma grows_advance [grow_intros]: "grows Q w w' \<Longrightarrow> grows Q w (advance w')"
  by (simp add: grows_def advance_def)

lemma grows_from_advance [simp]: "grows Q (advance w) w' = grows Q w w'"
  by (simp add: grows_def advance_def)

lemma grows_update [grow_intros]:
  "grows Q w w' \<Longrightarrow> grows Q w (w'\<lparr>wd_client := x\<rparr>)" "grows Q w w' \<Longrightarrow> grows Q w (w'\<lparr>wd_outcall := st\<rparr>)"
  by (simp_all add: grows_def)

lemma grows_from_client [simp]: "grows Q (w\<lparr>wd_client := x\<rparr>) w' = grows Q w w'"
  by (simp add: grows_def)

lemma grows_pageEnd [grow_intros]:
  "Q (Page pu spec) \<Longrightarrow> Q (Access m u out (sp_Status spec)) \<Longrightarrow> grows Q w w' \<Longrightarrow> grows Q w (pageEnd pu spec m u out w')"
  by (simp add: pageEnd_def logAccess_def grows_emit)

lemma grows_logAccess [grow_intros]: "Q (Access m u out st) \<Longrightarrow> grows Q w w' \<Longrightarrow> grows Q w (logAccess m u out st w')"
  by (simp add: logAccess_def grows_emit)

lemma grows_lookupFailed [grow_intros]: "grows quiet w w' \<Longrightarrow> grows quiet w (lookupFailed f m u w')"
  by (auto simp: lookupFailed_def split: lookupFailure.splits intro: grow_intros)

lemma grows_pinFailed [grow_intros]: "grows quiet w w' \<Longrightarrow> grows quiet w (pinFailed e m u w')"
  by (auto simp: pinFailed_def split: pinError.splits intro!: grow_intros)

lemma grows_pinDropped [grow_intros]: "grows quiet w w' \<Longrightarrow> grows quiet w (pinDropped e m u w')"
  by (auto simp: pinDropped_def split: pinError.splits intro!: grow_intros)

lemma gate_grows: "gate E sess rs m hdr u w = (r, w') \<Longrightarrow> grows quiet w w'"
  by (auto simp: gate_def split: prod.splits gateResult.splits intro!: grow_intros)

lemma readBoundedRequest_grows: "readBoundedRequest E h w = (r, w') \<Longrightarrow> grows quiet w w'"
  by (auto simp: readBoundedRequest_def Let_def split: prod.splits sum.splits option.splits headerError.splits if_splits
      intro!: grow_intros)

lemma Dial_grows: "Dial E tries dst w = (r, w') \<Longrightarrow> grows (connects dst) w w'"
  using extends_grows [OF Dial_extends [of "connects dst" dst w E tries]] by simp

lemma DialTLS_grows: "DialTLS E tries dst sni w = (r, w') \<Longrightarrow> grows (connects dst) w w'"
  using extends_grows [OF dialTLS_extends [of "connects dst" dst sni _ w E tries]] by (simp add: DialTLS_def) (metis snd_conv)

lemma relayLoop_grows: "boundTo dst up \<Longrightarrow> relayLoop E h sess connIn dst' up w = (up', w') \<Longrightarrow> grows (dialsOnly dst) w w'"
proof (induction E h sess connIn dst' up w arbitrary: up' w' rule: relayLoop.induct)
  case (1 E h sess connIn dst' up w)
  obtain r w1 where r: "readBoundedRequest E h w = (r, w1)" by (cases "readBoundedRequest E h w")
  have w1: "grows (dialsOnly dst) w w1" using readBoundedRequest_grows [OF r] by (rule grows_mono) (rule quiet_dialsOnly)
  show ?case
  proof (cases r)
    case None
    with 1 r w1 show ?thesis by (simp add: relayLoop.simps)
  next
    case (Some req)
    obtain cont up1 w2 where one: "handleOneRequest E h sess up connIn dst' req w1 = (cont, up1, w2)" by (metis prod_cases3)
    have w2: "grows (dialsOnly dst) w w2" "boundTo dst up1"
      using handleOneRequest_extends [OF 1(2) one] w1 by (auto intro: grows_trans extends_grows)
    show ?thesis
    proof (cases cont)
      case True
      then have c: "cont = True" by simp
      from True 1(3) have rest: "relayLoop E h sess connIn dst' up1 w2 = (up', w')"
        by (simp add: relayLoop.simps [of E h sess connIn dst' up w] r Some one)
      show ?thesis
        using 1(1) [OF r [symmetric] Some one [symmetric] c refl w2(2) rest] w2(1) by (auto intro: grows_trans)
    next
      case False
      with 1(3) w2(1) show ?thesis by (simp add: relayLoop.simps [of E h sess connIn dst' up w] r Some one)
    qed
  qed
qed

lemma grows_upstream_Close [grow_intros]: "(\<And>c. Q (Closed c)) \<Longrightarrow> grows Q w w' \<Longrightarrow> grows Q w (upstream_Close up w')"
  by (cases up) (auto split: option.splits intro: grow_intros)

lemma relayIntercepted_grows:
  assumes "boundTo dst up"
  shows "grows (dialsOnly dst) w (relayIntercepted E h sess up connIn dst' firstReq w)"
proof (cases firstReq)
  case None
  then show ?thesis
    by (auto simp: relayIntercepted_def split: prod.splits dest!: relayLoop_grows [OF assms] intro!: grows_upstream_Close)
next
  case (Some req)
  obtain cont up1 w1 where one: "handleOneRequest E h sess up connIn dst' req w = (cont, up1, w1)" by (metis prod_cases3)
  have w1: "grows (dialsOnly dst) w w1" "boundTo dst up1" using handleOneRequest_extends [OF assms one] by (auto intro: extends_grows)
  obtain up2 w2 where loop: "relayLoop E h sess connIn dst' up1 w1 = (up2, w2)" by (cases "relayLoop E h sess connIn dst' up1 w1")
  have "grows (dialsOnly dst) w w2" using grows_trans [OF w1(1) relayLoop_grows [OF w1(2) loop]] .
  with w1 show ?thesis by (cases cont) (auto simp: relayIntercepted_def Some one loop intro!: grows_upstream_Close)
qed

subsection \<open>Tunnels stay on the pinned address\<close>

text \<open>A spliced tunnel opens plain connections and moves bytes; it sends no request and terminates no TLS.\<close>

definition splicesOnly :: "string \<Rightarrow> event \<Rightarrow> bool" where
  "splicesOnly dst e \<longleftrightarrow>
     (case e of Dialed a \<Rightarrow> a = dst | Spliced a \<Rightarrow> a = dst | Closed _ \<Rightarrow> True | Established \<Rightarrow> True | _ \<Rightarrow> quiet e)"

definition tunnelled :: "bool \<Rightarrow> string \<Rightarrow> event \<Rightarrow> bool" where
  "tunnelled mitm dst = (if mitm then dialsOnly dst else splicesOnly dst)"

lemma splicesOnly_simps [simp]:
  "splicesOnly dst (Dialed a) \<longleftrightarrow> a = dst" "splicesOnly dst (Spliced a) \<longleftrightarrow> a = dst" "splicesOnly dst (Closed c)"
  "splicesOnly dst Established" "splicesOnly dst (Page u sp)" "splicesOnly dst (Access m u out st)" "splicesOnly dst Panicked"
  by (simp_all add: splicesOnly_def)

lemma quiet_tunnelled: "quiet e \<Longrightarrow> tunnelled mitm dst e"
  by (cases e) (auto simp: tunnelled_def splicesOnly_def quiet_dialsOnly)

lemma Terminate_grows: "Terminate E h dst sni w = (r, w') \<Longrightarrow> grows (connects dst) w w'"
  by (auto simp: Terminate_def Let_def split: prod.splits sum.splits if_splits option.splits dest!: DialTLS_grows intro!: grow_intros)

lemma Fallback_grows: "Fallback E sni u sp w = (r, w') \<Longrightarrow> grows (dialsOnly dst) w w'"
  by (auto simp: Fallback_def Let_def split: if_splits option.splits intro!: grow_intros)

lemma terminateFailed_grows: "grows (dialsOnly dst) w (terminateFailed E sni u failure w)"
  by (auto simp: terminateFailed_def Let_def split: prod.splits bool.splits dest!: Fallback_grows [where dst = dst] intro!: grow_intros)

lemma handleH2Stream_cases:
  assumes "handleH2Stream E h sess connIn dst req (rt, w) = (rt', w')"
  shows "r2_dst rt' = r2_dst rt \<and>
     (extends quiet w w' \<or> (\<exists>q. authorisedRequest E sess connIn dst req w q \<and> extends (exchange (r2_dst rt) q) w w'))"
proof (cases rule: messagePhase_cases [where E = E and sess = sess and connIn = connIn and dst = dst and req = req and w = w])
  case (ended rs w1 rule v q st)
  with assms show ?thesis
    by (auto simp: handleH2Stream_def Let_def split: sum.splits option.splits if_splits intro!: trace_intros)
next
  case (pass rs w1 rule v q st)
  obtain y rt1 w3 where rtt: "h2_RoundTrip E (hh_ConnectTries h) rt q (w1\<lparr>wd_outcall := st\<rparr>) = (y, rt1, w3)" by (metis prod_cases3)
  have w3: "extends (exchange (r2_dst rt) q) w w3" "r2_dst rt1 = r2_dst rt"
    using h2_RoundTrip_extends [OF rtt] extends_trans [OF pass(6)] by (auto intro: extends_mono forwards_exchange)
  have "extends (exchange (r2_dst rt) q) w w' \<and> r2_dst rt' = r2_dst rt"
    using assms w3 pass(1-5) by (auto simp: handleH2Stream_def rtt Let_def split: sum.splits intro!: trace_intros)
  with pass(7) show ?thesis by blast
qed (use assms in \<open>auto simp: handleH2Stream_def Let_def intro!: trace_intros\<close>)

lemma handleH2Streams_grows:
  "r2_dst rt = dst \<Longrightarrow> fold (handleH2Stream E h sess connIn dst') reqs (rt, w) = (rt', w') \<Longrightarrow> grows (dialsOnly dst) w w'"
proof (induction reqs arbitrary: rt w)
  case (Cons req reqs)
  obtain rt1 w1 where one: "handleH2Stream E h sess connIn dst' req (rt, w) = (rt1, w1)"
    by (cases "handleH2Stream E h sess connIn dst' req (rt, w)")
  from handleH2Stream_cases [OF one] Cons.prems(1) have "grows (dialsOnly dst) w w1" "r2_dst rt1 = dst"
    by (auto intro: extends_grows extends_mono quiet_dialsOnly exchange_dialsOnly)
  with Cons.IH [of rt1 w1] Cons.prems(2) one show ?case by (auto intro: grows_trans)
qed simp

lemma newUpstreamH2_grows: "newUpstreamH2ClientConn E dialTries tries dst sni first w = (r, w') \<Longrightarrow> grows (dialsOnly dst) w w'"
  by (rule extends_grows, rule extends_weaken(3), rule newUpstreamH2ClientConn_extends)

lemma serveH2_grows: "grows (dialsOnly dst) w (serveH2 E h sess up dst sni connIn w)"
proof -
  obtain r w1 where r: "newUpstreamH2ClientConn E (hh_ConnectTries h) (hh_HTTP2ConnectTries h) dst sni (Some up) w = (r, w1)"
    by (cases "newUpstreamH2ClientConn E (hh_ConnectTries h) (hh_HTTP2ConnectTries h) dst sni (Some up) w")
  note w1 = newUpstreamH2_grows [OF r]
  show ?thesis
  proof (cases r)
    case (Inl e)
    with w1 show ?thesis by (auto simp: serveH2_def r intro!: grow_intros)
  next
    case (Inr cc)
    let ?rt = "\<lparr>r2_dst = dst, r2_sni = sni, r2_connectTries = hh_HTTP2ConnectTries h, r2_headerLimit = hh_HeaderLimit h, r2_cc = Some cc\<rparr>"
    obtain rt' w2 where f: "fold (handleH2Stream E h sess connIn dst) (en_Streams E (wd_step w1)) (?rt, advance w1) = (rt', w2)"
      by (cases "fold (handleH2Stream E h sess connIn dst) (en_Streams E (wd_step w1)) (?rt, advance w1)")
    have "grows (dialsOnly dst) (advance w1) w2" using handleH2Streams_grows [OF _ f, of dst] by simp
    with w1 have "grows (dialsOnly dst) w w2" by (auto intro: grows_trans)
    then show ?thesis by (auto simp: serveH2_def r Inr f intro!: grows_upstream_Close simp del: upstream_Close.simps)
  qed
qed

lemma serveTunnel_grows: "grows (tunnelled mitm dst) w (serveTunnel E h sess dst sni connIn mitm meth u w)"
proof (cases mitm)
  case False
  have dial: "Dial E t dst v = (r, v') \<Longrightarrow> grows (splicesOnly dst) v v'" for t v r v'
    using extends_grows [OF Dial_extends [of "splicesOnly dst" dst v E t]] by simp
  obtain r w1 where r: "Dial E (hh_ConnectTries h) dst (logAccess meth u ''splice (mitm:false)'' 0 w) = (r, w1)"
    by (cases "Dial E (hh_ConnectTries h) dst (logAccess meth u ''splice (mitm:false)'' 0 w)")
  have "grows (splicesOnly dst) w w1"
    using dial [OF r] by (rule grows_trans [rotated]) (auto intro!: grow_intros)
  with False show ?thesis
    by (auto simp: tunnelled_def serveTunnel_def rawSplice_def r split: sum.splits intro!: grow_intros)
next
  case True
  obtain r w1 where r: "Terminate E h dst sni w = (r, w1)" by (cases "Terminate E h dst sni w")
  have w1: "grows (dialsOnly dst) w w1" using Terminate_grows [OF r] by (rule grows_mono) (rule connects_dialsOnly)
  show ?thesis
  proof (cases r)
    case (Inl failure)
    with grows_trans [OF w1 terminateFailed_grows [of dst w1 E sni u failure]] True show ?thesis
      by (simp add: tunnelled_def serveTunnel_def r)
  next
    case (Inr res)
    obtain x w2 where x: "newUpstreamH2ClientConn E (hh_ConnectTries h) (hh_HTTP2ConnectTries h) dst sni (Some (tm_Upstream res)) w1 = (x, w2)"
      by (cases "newUpstreamH2ClientConn E (hh_ConnectTries h) (hh_HTTP2ConnectTries h) dst sni (Some (tm_Upstream res)) w1")
    have w2: "grows (dialsOnly dst) w w2" using grows_trans [OF w1 newUpstreamH2_grows [OF x]] .
    have h1: "grows (dialsOnly dst) w (relayIntercepted E h sess
        (UpH1 \<lparr>rt_conn = tm_Upstream res, rt_redial = Some (TLSTo dst sni), rt_headerLimit = hh_HeaderLimit h\<rparr>) connIn dst None w1)"
      by (rule grows_trans [OF w1 relayIntercepted_grows]) (simp add: boundTo_def)
    have h2: "grows (dialsOnly dst) w (relayIntercepted E h sess
        (UpH2 \<lparr>r2_dst = dst, r2_sni = sni, r2_connectTries = hh_HTTP2ConnectTries h, r2_headerLimit = hh_HeaderLimit h, r2_cc = Some cc\<rparr>)
        connIn dst None w2)" for cc
      by (rule grows_trans [OF w2 relayIntercepted_grows]) (simp add: boundTo_def)
    show ?thesis
      using True w1 w2 h1 h2 grows_trans [OF w1 serveH2_grows [of dst w1 E h sess "tm_Upstream res" sni connIn]]
      by (auto simp: tunnelled_def serveTunnel_def r Inr x split: sum.splits intro!: grows_pageEnd)
  qed
qed

subsection \<open>The connection phase\<close>

text \<open>
  What the connection phase asks before anything is dialled: the rule set of the client is found, its login gate
  passes, the first matching rule does not reject the connection, and every address of the destination is allowed by
  the egress list. \<open>mitm\<close> is the matching rule's choice and \<open>dst\<close> the address pinned.
\<close>

definition connPhase ::
    "'s env \<Rightarrow> Session \<Rightarrow> header \<Rightarrow> ConnInput \<Rightarrow> string \<Rightarrow> string \<Rightarrow> string \<Rightarrow> 's world \<Rightarrow> bool \<Rightarrow> string \<Rightarrow> bool" where
  "connPhase E sess hdr connIn host port proto w mitm dst \<longleftrightarrow>
     (\<exists>rs w1 who st. lookupRules E sess w = (Inr rs, w1) \<and>
        checkAuth (en_IDKey E) (en_G E) (en_oc E) sess rs hdr (wd_outcall w1) = (GateOK who, st) \<and>
        LookupConn (en_G E) rs connIn = (mitm, False, True) \<and>
        resolveAndPin (en_G E) rs (LookupIP E (wd_step w)) host port proto = Inr dst)"

lemma lookupRules_grows: "lookupRules E sess w = (r, w1) \<Longrightarrow> grows quiet w w1"
  by (rule extends_grows, rule lookupRules_extends)

lemma lookupRules_step: "lookupRules E sess w = (r, w1) \<Longrightarrow> wd_step w1 = wd_step w"
  by (auto simp: lookupRules_def Let_def split: prod.splits sum.splits option.splits)

lemma gate_step: "gate E sess rs m hdr u w = (Some who, w') \<Longrightarrow> wd_step w' = wd_step w"
  by (auto simp: gate_def split: prod.splits gateResult.splits)

lemma connPhaseI:
  assumes "lookupRules E sess w = (Inr rs, w1)" and "gate E sess rs m hdr u w1 = (Some who, w2)"
    and "LookupConn (en_G E) rs connIn = (mitm, False, True)" and "pin E rs host port proto w2 = (Inr dst, w3)"
  shows "connPhase E sess hdr connIn host port proto w mitm dst"
proof -
  have "wd_step w2 = wd_step w" using lookupRules_step [OF assms(1)] gate_step [OF assms(2)] by simp
  moreover obtain st where "checkAuth (en_IDKey E) (en_G E) (en_oc E) sess rs hdr (wd_outcall w1) = (GateOK who, st)"
    using assms(2) by (auto simp: gate_def split: prod.splits gateResult.splits)
  ultimately show ?thesis using assms unfolding connPhase_def by (auto simp: pin_def)
qed

text \<open>
  A handler's run through the connection phase: where a step fails the handler has only answered, and where all
  pass it continues with the pinned address in the world \<open>w3\<close>.
\<close>

lemma connPhase_cases:
  obtains (engine) f w1 where "lookupRules E sess w = (Inl f, w1)" "grows quiet w w1"
  | (gate) rs w1 w2 where "lookupRules E sess w = (Inr rs, w1)" "gate E sess rs m hdr u w1 = (None, w2)" "grows quiet w w2"
  | (nomatch) rs w1 who w2 x y where "lookupRules E sess w = (Inr rs, w1)" "gate E sess rs m hdr u w1 = (Some who, w2)" "grows quiet w w2"
      "LookupConn (en_G E) rs connIn = (x, y, False)"
  | (deny) rs w1 who w2 x where "lookupRules E sess w = (Inr rs, w1)" "gate E sess rs m hdr u w1 = (Some who, w2)" "grows quiet w w2"
      "LookupConn (en_G E) rs connIn = (x, True, True)"
  | (pin) rs w1 who w2 mitm e w3 where "lookupRules E sess w = (Inr rs, w1)" "gate E sess rs m hdr u w1 = (Some who, w2)" "grows quiet w w2"
      "LookupConn (en_G E) rs connIn = (mitm, False, True)" "pin E rs host port proto w2 = (Inl e, w3)" "grows quiet w w3"
  | (admit) rs w1 who w2 mitm dst w3 where "lookupRules E sess w = (Inr rs, w1)" "gate E sess rs m hdr u w1 = (Some who, w2)" "grows quiet w w2"
      "LookupConn (en_G E) rs connIn = (mitm, False, True)" "pin E rs host port proto w2 = (Inr dst, w3)" "grows quiet w w3"
      "connPhase E sess hdr connIn host port proto w mitm dst"
proof -
  obtain r w1 where r: "lookupRules E sess w = (r, w1)" by (cases "lookupRules E sess w")
  note w1 = lookupRules_grows [OF r]
  show thesis
  proof (cases r)
    case (Inl f)
    with r w1 that(1) show thesis by blast
  next
    case (Inr rs)
    obtain g w2 where g: "gate E sess rs m hdr u w1 = (g, w2)" by (cases "gate E sess rs m hdr u w1")
    have w2: "grows quiet w w2" using grows_trans [OF w1 gate_grows [OF g]] .
    obtain mitm y z where c: "LookupConn (en_G E) rs connIn = (mitm, y, z)" by (metis prod_cases3)
    obtain p w3 where p: "pin E rs host port proto w2 = (p, w3)" by (cases "pin E rs host port proto w2")
    have w3: "grows quiet w w3" using w2 p by (auto simp: pin_def intro: grows_advance)
    show thesis
    proof (cases g)
      case None
      with r Inr g w2 that(2) show thesis by blast
    next
      case (Some who)
      note gs = r [unfolded Inr] g [unfolded Some] w2
      consider "\<not> z" | "z" "y" | e where "z" "\<not> y" "p = Inl e" | dst where "z" "\<not> y" "p = Inr dst" by (cases p) auto
      then show thesis
      proof cases
        case 1
        with gs c that(3) show thesis by simp
      next
        case 2
        with gs c that(4) show thesis by simp
      next
        case 3
        with gs c p w3 that(5) show thesis by simp
      next
        case 4
        with gs c p w3 that(6) connPhaseI [of E sess w rs w1 m hdr u who w2 connIn mitm host port proto dst w3] show thesis by simp
      qed
    qed
  qed
qed

lemma Dial_tunnelled: "Dial E tries dst w = (r, w') \<Longrightarrow> grows (tunnelled mitm dst) w w'"
  using extends_grows [OF Dial_extends [of "tunnelled mitm dst" dst w E tries]] by (simp add: tunnelled_def)

lemma tunnelled_simps [simp]:
  "tunnelled mitm dst (Closed c)" "tunnelled mitm dst Established" "tunnelled mitm dst (Page u sp)"
  "tunnelled mitm dst (Access m u out st)" "tunnelled True dst = dialsOnly dst"
  by (simp_all add: tunnelled_def)

lemma grows_quiet_tunnelled: "grows quiet w w' \<Longrightarrow> grows (tunnelled mitm dst) w w'"
  by (erule grows_mono) (rule quiet_tunnelled)

lemma serveGranted_grows: "grows (tunnelled mitm dst) w (serveGranted E h sess host dst connIn mitm u w)"
proof (cases mitm)
  case False
  then show ?thesis using serveTunnel_grows [of mitm dst w E h sess "[]" connIn "''CONNECT''" u] by (simp add: serveGranted_def)
next
  case True
  have fb: "Fallback E sni u sp v = (r, v') \<Longrightarrow> grows (tunnelled mitm dst) v v'" for sni sp v r v'
    using True Fallback_grows [of E sni u sp v r v' dst] by (simp add: tunnelled_def)
  have tun: "grows (tunnelled mitm dst) w (serveTunnel E h sess dst sni connIn mitm ''CONNECT'' u (advance w))" for sni
    using serveTunnel_grows [of mitm dst "advance w"] by simp
  show ?thesis
    using True tun
    by (auto simp: serveGranted_def Let_def split: prod.splits sum.splits bool.splits dest!: fb intro!: grow_intros)
qed

lemma serveConnect_cases:
  "grows quiet w (serveConnect E h sess req w) \<or>
   (\<exists>host port d0 mitm dst. normalizeAuthority (en_G E) (en_idna E) (q_Host req) ''443'' = Inr (host, port, d0) \<and>
      connPhase E sess (q_Header req) \<lparr>ci_Host = host, ci_Port = port, ci_Proto = ''https''\<rparr> host port ''http'' w mitm dst \<and>
      grows (tunnelled mitm dst) w (serveConnect E h sess req w))"
proof (cases "normalizeAuthority (en_G E) (en_idna E) (q_Host req) ''443''")
  case (Inl e)
  then show ?thesis by (auto simp: serveConnect_def intro!: grow_intros)
next
  case (Inr hp)
  obtain host port d0 where n: "normalizeAuthority (en_G E) (en_idna E) (q_Host req) ''443'' = Inr (host, port, d0)"
    using Inr by (metis prod_cases3)
  show ?thesis
  proof (cases rule: connPhase_cases [where E = E and sess = sess and w = w and m = "q_Method req" and hdr = "q_Header req" and u = "''https://'' @ d0"
        and connIn = "\<lparr>ci_Host = host, ci_Port = port, ci_Proto = ''https''\<rparr>" and host = host and port = port and proto = "''http''"])
    case (admit rs w1 who w2 mitm dst w3)
    obtain x w4 where x: "Dial E (hh_ConnectTries h) dst w3 = (x, w4)" by (cases "Dial E (hh_ConnectTries h) dst w3")
    have w4: "grows (tunnelled mitm dst) w w4" using grows_trans [OF grows_quiet_tunnelled [OF admit(6)] Dial_tunnelled [OF x]] .
    have w5: "grows (tunnelled mitm dst) w (emit Established (advance (emit (Closed c) w4)))" for c
      using w4 by (auto intro!: grow_intros)
    note gr = grows_trans [OF w5 serveGranted_grows]
    have "grows (tunnelled mitm dst) w (serveConnect E h sess req w)"
      using w4 gr admit(1-5) by (auto simp: serveConnect_def n x Let_def split: sum.splits intro!: grow_intros)
    with admit(7) n show ?thesis by blast
  qed (auto simp: serveConnect_def n Let_def intro!: grow_intros)
qed

lemma plainRelay_grows [grow_intros]:
  "grows (dialsOnly dst) w v \<Longrightarrow>
   grows (dialsOnly dst) w (relayIntercepted E h sess (UpH1 \<lparr>rt_conn = c, rt_redial = Some (PlainTo dst), rt_headerLimit = l\<rparr>) connIn dst' r v)"
  by (erule grows_trans, rule relayIntercepted_grows) (simp add: boundTo_def)

lemma serveAbsoluteForm_cases:
  "grows quiet w (serveAbsoluteForm E h sess req w) \<or>
   (\<exists>host port d0 mitm dst. normalizeAuthority (en_G E) (en_idna E) (q_URLHost req) ''80'' = Inr (host, port, d0) \<and>
      EqualFold (en_G E) (q_Scheme req) ''http'' \<and>
      connPhase E sess (q_Header req) \<lparr>ci_Host = host, ci_Port = port, ci_Proto = ''http''\<rparr> host port ''http'' w mitm dst \<and>
      grows (tunnelled True dst) w (serveAbsoluteForm E h sess req w))"
proof (cases "EqualFold (en_G E) (q_Scheme req) ''http''")
  case scheme: True
  show ?thesis
  proof (cases "normalizeAuthority (en_G E) (en_idna E) (q_URLHost req) ''80''")
    case (Inl e)
    then show ?thesis using scheme by (auto simp: serveAbsoluteForm_def Let_def intro!: grow_intros)
  next
    case (Inr hp)
    obtain host port d0 where n: "normalizeAuthority (en_G E) (en_idna E) (q_URLHost req) ''80'' = Inr (host, port, d0)"
      using Inr by (metis prod_cases3)
    show ?thesis
    proof (cases rule: connPhase_cases [where E = E and sess = sess and w = w and m = "q_Method req" and hdr = "q_Header req" and u = "q_URLText req"
          and connIn = "\<lparr>ci_Host = host, ci_Port = port, ci_Proto = ''http''\<rparr>" and host = host and port = port and proto = "''http''"])
      case (admit rs w1 who w2 mitm dst w3)
      obtain x w4 where x: "Dial E (hh_ConnectTries h) dst w3 = (x, w4)" by (cases "Dial E (hh_ConnectTries h) dst w3")
      have w4: "grows (tunnelled True dst) w w4" using grows_trans [OF grows_quiet_tunnelled [OF admit(6)] Dial_tunnelled [OF x]] .
      have "grows (tunnelled True dst) w (serveAbsoluteForm E h sess req w)"
        using scheme w4 by (auto simp: serveAbsoluteForm_def n admit x Let_def split: sum.splits intro!: grow_intros)
      with admit(7) n scheme show ?thesis by blast
    qed (auto simp: serveAbsoluteForm_def n scheme Let_def intro!: grow_intros)
  qed
qed (auto simp: serveAbsoluteForm_def Let_def intro!: grow_intros)

lemma serveTransparentTLS_cases:
  fixes serverName dstAddr
  defines "sni \<equiv> if serverName = [] then dstAddr else serverName"
  shows "grows quiet w (serveTransparentTLS E h sess serverName dstAddr dstPort w) \<or>
   (\<exists>mitm dst. connPhase E sess (\<lambda>_. None) \<lparr>ci_Host = sni, ci_Port = dstPort, ci_Proto = ''https''\<rparr> dstAddr dstPort ''http'' w mitm dst \<and>
      grows (tunnelled mitm dst) w (serveTransparentTLS E h sess serverName dstAddr dstPort w))"
proof (cases rule: connPhase_cases [where E = E and sess = sess and w = w and m = "Transport_String (se_Transport sess)" and hdr = "\<lambda>_. None"
      and u = "''https://'' @ JoinHostPort sni dstPort" and connIn = "\<lparr>ci_Host = sni, ci_Port = dstPort, ci_Proto = ''https''\<rparr>"
      and host = dstAddr and port = dstPort and proto = "''http''"])
  case (admit rs w1 who w2 mitm dst w3)
  have "grows (tunnelled mitm dst) w (serveTransparentTLS E h sess serverName dstAddr dstPort w)"
    using admit(1-5) grows_trans [OF grows_quiet_tunnelled [OF admit(6)] serveTunnel_grows]
    by (simp add: serveTransparentTLS_def sni_def [symmetric] Let_def)
  with admit(7) show ?thesis by blast
qed (auto simp: serveTransparentTLS_def sni_def [symmetric] Let_def intro!: grow_intros)

lemma serveTransparentOpaqueMITM_cases:
  "grows quiet w (serveTransparentOpaqueMITM E h sess dstAddr dstPort meth w) \<or>
   (\<exists>block again req bodyLen host port d0 mitm dst.
      boundNextHeaderBlock (hh_HeaderLimit h) (en_readErr E (wd_step w)) (wd_client w) = (Inr block, again) \<and>
      en_ReadRequest E block (drop (length block) (wd_client w)) = Some (req, bodyLen) \<and>
      normalizeAuthority (en_G E) (en_idna E) (if q_Host req = [] then dstAddr else q_Host req) dstPort = Inr (host, port, d0) \<and>
      connPhase E sess (q_Header req) \<lparr>ci_Host = host, ci_Port = dstPort, ci_Proto = ''http''\<rparr> dstAddr dstPort ''http''
        ((advance w)\<lparr>wd_client := drop bodyLen (drop (length block) (wd_client w))\<rparr>) mitm dst \<and>
      grows (tunnelled True dst) w (serveTransparentOpaqueMITM E h sess dstAddr dstPort meth w))"
proof -
  obtain r again where r: "boundNextHeaderBlock (hh_HeaderLimit h) (en_readErr E (wd_step w)) (wd_client w) = (r, again)"
    by (cases "boundNextHeaderBlock (hh_HeaderLimit h) (en_readErr E (wd_step w)) (wd_client w)")
  show ?thesis
  proof (cases "\<exists>block req bodyLen host port d0. r = Inr block \<and> en_ReadRequest E block (drop (length block) (wd_client w)) = Some (req, bodyLen) \<and>
      normalizeAuthority (en_G E) (en_idna E) (if q_Host req = [] then dstAddr else q_Host req) dstPort = Inr (host, port, d0)")
    case False
    then show ?thesis
      by (auto simp: serveTransparentOpaqueMITM_def r Let_def split: sum.splits option.splits intro!: grow_intros)
  next
    case True
    then obtain block req bodyLen host port d0 where k: "r = Inr block"
      "en_ReadRequest E block (drop (length block) (wd_client w)) = Some (req, bodyLen)"
      "normalizeAuthority (en_G E) (en_idna E) (if q_Host req = [] then dstAddr else q_Host req) dstPort = Inr (host, port, d0)" by blast
    define w0 where "w0 = (advance w)\<lparr>wd_client := drop bodyLen (drop (length block) (wd_client w))\<rparr>"
    have from0: "grows Q w0 v = grows Q w v" for Q v by (simp add: w0_def)
    show ?thesis
    proof (cases rule: connPhase_cases [where E = E and sess = sess and w = w0 and m = "q_Method req" and hdr = "q_Header req"
          and u = "''http://'' @ host @ q_Target req" and connIn = "\<lparr>ci_Host = host, ci_Port = dstPort, ci_Proto = ''http''\<rparr>"
          and host = dstAddr and port = dstPort and proto = "''http''"])
      case (admit rs w1 who w2 mitm dst w3)
      obtain x w4 where x: "Dial E (hh_ConnectTries h) dst w3 = (x, w4)" by (cases "Dial E (hh_ConnectTries h) dst w3")
      have w4: "grows (tunnelled True dst) w w4"
        using grows_trans [OF grows_quiet_tunnelled [OF admit(6)] Dial_tunnelled [OF x]] by (simp only: from0)
      have "grows (tunnelled True dst) w (serveTransparentOpaqueMITM E h sess dstAddr dstPort meth w)"
        using w4 admit(1-5)
        by (auto simp: serveTransparentOpaqueMITM_def r k x w0_def [symmetric] Let_def simp del: drop_drop split: sum.splits intro!: grow_intros)
      with admit(7) k r show ?thesis unfolding w0_def by blast
    qed (auto simp: serveTransparentOpaqueMITM_def r k w0_def [symmetric] from0 Let_def simp del: drop_drop intro!: grow_intros)
  qed
qed

lemma serveTransparentOpaque_cases:
  fixes dstAddr dstPort
  defines "connIn \<equiv> \<lparr>ci_Host = dstAddr, ci_Port = dstPort, ci_Proto = ''tcp''\<rparr>"
  shows "grows quiet w (serveTransparentOpaque E h sess dstAddr dstPort meth w) \<or>
   (\<exists>dst. connPhase E sess (\<lambda>_. None) connIn dstAddr dstPort ''tcp'' w False dst \<and>
      grows (tunnelled False dst) w (serveTransparentOpaque E h sess dstAddr dstPort meth w)) \<or>
   (\<exists>rs w1 who st. lookupRules E sess w = (Inr rs, w1) \<and>
      checkAuth (en_IDKey E) (en_G E) (en_oc E) sess rs (\<lambda>_. None) (wd_outcall w1) = (GateOK who, st) \<and>
      LookupConn (en_G E) rs connIn = (True, False, True) \<and> grows quiet w (w1\<lparr>wd_outcall := st\<rparr>) \<and>
      serveTransparentOpaque E h sess dstAddr dstPort meth w = serveTransparentOpaqueMITM E h sess dstAddr dstPort meth (w1\<lparr>wd_outcall := st\<rparr>))"
proof -
  have mitm: ?thesis
    if c: "lookupRules E sess w = (Inr rs, w1)" "gate E sess rs meth (\<lambda>_. None) (''tcp://'' @ JoinHostPort dstAddr dstPort) w1 = (Some who, w2)"
      "grows quiet w w2" "LookupConn (en_G E) rs connIn = (True, False, True)" for rs w1 who w2
  proof -
    obtain st where "checkAuth (en_IDKey E) (en_G E) (en_oc E) sess rs (\<lambda>_. None) (wd_outcall w1) = (GateOK who, st)" "w2 = w1\<lparr>wd_outcall := st\<rparr>"
      using c(2) by (auto simp: gate_def split: prod.splits gateResult.splits)
    moreover have "serveTransparentOpaque E h sess dstAddr dstPort meth w = serveTransparentOpaqueMITM E h sess dstAddr dstPort meth w2"
      using c by (simp add: serveTransparentOpaque_def connIn_def [symmetric] Let_def)
    ultimately show ?thesis using c by blast
  qed
  show ?thesis
  proof (cases rule: connPhase_cases [where E = E and sess = sess and w = w and m = meth and hdr = "\<lambda>_. None"
        and u = "''tcp://'' @ JoinHostPort dstAddr dstPort" and connIn = connIn and host = dstAddr and port = dstPort and proto = "''tcp''"])
    case (pin rs w1 who w2 m e w3)
    then show ?thesis
      using mitm [OF pin(1-3)]
      by (cases m) (auto simp: serveTransparentOpaque_def connIn_def [symmetric] Let_def intro!: grow_intros)
  next
    case (admit rs w1 who w2 m dst w3)
    show ?thesis
    proof (cases m)
      case True
      with admit mitm [OF admit(1-3)] show ?thesis by simp
    next
      case False
      have "grows (tunnelled False dst) w (serveTransparentOpaque E h sess dstAddr dstPort meth w)"
        using False admit(1-5) grows_trans [OF grows_quiet_tunnelled [OF admit(6)] serveTunnel_grows]
        by (simp add: serveTransparentOpaque_def connIn_def [symmetric] Let_def)
      with False admit(7) show ?thesis by auto
    qed
  qed (auto simp: serveTransparentOpaque_def connIn_def [symmetric] Let_def intro!: grow_intros)
qed

subsection \<open>Which connections are admitted\<close>

text \<open>
  One rule per way in: what the first request or the peeked bytes name is what the connection phase is asked about,
  and the address dialled is the one it pinned. \<open>intercept\<close> tells whether the connection may be intercepted.
\<close>

inductive admitted :: "'s env \<Rightarrow> Http1Handler \<Rightarrow> Session \<Rightarrow> 's world \<Rightarrow> bool \<Rightarrow> string \<Rightarrow> bool" for E h sess w where
  admit_connect: "se_Transport sess = TransportExplicit \<Longrightarrow> readBoundedRequest E h w = (Some req, w1) \<Longrightarrow> q_Method req = ''CONNECT'' \<Longrightarrow>
    normalizeAuthority (en_G E) (en_idna E) (q_Host req) ''443'' = Inr (host, port, d0) \<Longrightarrow>
    connPhase E (recoverSession h sess (q_Header req)) (q_Header req) \<lparr>ci_Host = host, ci_Port = port, ci_Proto = ''https''\<rparr>
      host port ''http'' w1 mitm dst \<Longrightarrow> admitted E h sess w mitm dst"
| admit_absolute: "se_Transport sess = TransportExplicit \<Longrightarrow> readBoundedRequest E h w = (Some req, w1) \<Longrightarrow>
    EqualFold (en_G E) (q_Scheme req) ''http'' \<Longrightarrow>
    normalizeAuthority (en_G E) (en_idna E) (q_URLHost req) ''80'' = Inr (host, port, d0) \<Longrightarrow>
    connPhase E (recoverSession h sess (q_Header req)) (q_Header req) \<lparr>ci_Host = host, ci_Port = port, ci_Proto = ''http''\<rparr>
      host port ''http'' w1 mitm dst \<Longrightarrow> admitted E h sess w True dst"
| admit_tls: "se_Transport sess \<noteq> TransportExplicit \<Longrightarrow> en_Hello E (wd_step w) (wd_client w) = (Inr name, raw) \<Longrightarrow>
    connPhase E sess (\<lambda>_. None) \<lparr>ci_Host = (if name = [] then dstAddrText sess else name), ci_Port = dstPortText sess, ci_Proto = ''https''\<rparr>
      (dstAddrText sess) (dstPortText sess) ''http'' (advance w) mitm dst \<Longrightarrow> admitted E h sess w mitm dst"
| admit_opaque: "se_Transport sess \<noteq> TransportExplicit \<Longrightarrow> en_Hello E (wd_step w) (wd_client w) = (Inl e, raw) \<Longrightarrow> raw \<noteq> [] \<Longrightarrow>
    connPhase E sess (\<lambda>_. None) \<lparr>ci_Host = dstAddrText sess, ci_Port = dstPortText sess, ci_Proto = ''tcp''\<rparr>
      (dstAddrText sess) (dstPortText sess) ''tcp'' (advance w) False dst \<Longrightarrow> admitted E h sess w False dst"
| admit_opaque_http: "se_Transport sess \<noteq> TransportExplicit \<Longrightarrow> en_Hello E (wd_step w) (wd_client w) = (Inl e, raw) \<Longrightarrow> raw \<noteq> [] \<Longrightarrow>
    lookupRules E sess (advance w) = (Inr rs, w1) \<Longrightarrow>
    checkAuth (en_IDKey E) (en_G E) (en_oc E) sess rs (\<lambda>_. None) (wd_outcall w1) = (GateOK who, st) \<Longrightarrow>
    LookupConn (en_G E) rs \<lparr>ci_Host = dstAddrText sess, ci_Port = dstPortText sess, ci_Proto = ''tcp''\<rparr> = (True, False, True) \<Longrightarrow>
    w2 = w1\<lparr>wd_outcall := st\<rparr> \<Longrightarrow>
    boundNextHeaderBlock (hh_HeaderLimit h) (en_readErr E (wd_step w2)) (wd_client w2) = (Inr block, again) \<Longrightarrow>
    en_ReadRequest E block (drop (length block) (wd_client w2)) = Some (req, bodyLen) \<Longrightarrow>
    normalizeAuthority (en_G E) (en_idna E) (if q_Host req = [] then dstAddrText sess else q_Host req) (dstPortText sess) = Inr (host, port, d0) \<Longrightarrow>
    connPhase E sess (q_Header req) \<lparr>ci_Host = host, ci_Port = dstPortText sess, ci_Proto = ''http''\<rparr> (dstAddrText sess) (dstPortText sess) ''http''
      ((advance w2)\<lparr>wd_client := drop bodyLen (drop (length block) (wd_client w2))\<rparr>) mitm dst \<Longrightarrow> admitted E h sess w True dst"

lemma Serve_explicit_cases:
  assumes "se_Transport sess = TransportExplicit"
  shows "grows quiet w (Serve E h sess w) \<or> (\<exists>intercept dst. admitted E h sess w intercept dst \<and> grows (tunnelled intercept dst) w (Serve E h sess w))"
proof -
  obtain r w1 where r: "readBoundedRequest E h w = (r, w1)" by (cases "readBoundedRequest E h w")
  have w1: "grows quiet w w1" by (rule readBoundedRequest_grows [OF r])
  have w1t: "grows (tunnelled i d) w w1" for i d by (rule grows_quiet_tunnelled [OF w1])
  show ?thesis
  proof (cases r)
    case None
    with assms r w1 show ?thesis by (simp add: Serve_def)
  next
    case (Some req)
    let ?s = "recoverSession h sess (q_Header req)"
    consider "q_Method req = ''CONNECT''" | "q_Method req \<noteq> ''CONNECT''" "q_Scheme req \<noteq> []" | "q_Method req \<noteq> ''CONNECT''" "q_Scheme req = []" by blast
    then show ?thesis
    proof cases
      case 1
      then have run: "Serve E h sess w = serveConnect E h ?s req w1" using assms r Some by (simp add: Serve_def)
      show ?thesis
        using serveConnect_cases [of w1 E h ?s req] 1 assms r Some unfolding run
        by (auto intro: grows_trans [OF w1] grows_trans [OF w1t] dest: admit_connect)
    next
      case 2
      then have run: "Serve E h sess w = serveAbsoluteForm E h ?s req w1" using assms r Some by (simp add: Serve_def)
      show ?thesis
        using serveAbsoluteForm_cases [of w1 E h ?s req] assms r Some unfolding run
        by (auto intro: grows_trans [OF w1] grows_trans [OF w1t] dest: admit_absolute simp del: tunnelled_simps)
    next
      case 3
      with assms r Some w1 show ?thesis
        by (auto simp: Serve_def writeCAPEM_def split: option.splits intro!: grow_intros)
    qed
  qed
qed

lemma Serve_transparent_cases:
  assumes "se_Transport sess \<noteq> TransportExplicit"
  shows "grows quiet w (Serve E h sess w) \<or> (\<exists>intercept dst. admitted E h sess w intercept dst \<and> grows (tunnelled intercept dst) w (Serve E h sess w))"
proof -
  obtain r raw where r: "en_Hello E (wd_step w) (wd_client w) = (r, raw)" by (cases "en_Hello E (wd_step w) (wd_client w)")
  have run: "Serve E h sess w = serveTransparent E h sess w" using assms by (simp add: Serve_def)
  show ?thesis
  proof (cases r)
    case (Inr name)
    have "Serve E h sess w = serveTransparentTLS E h sess name (dstAddrText sess) (dstPortText sess) (advance w)"
      by (simp add: run serveTransparent_def r Inr)
    with serveTransparentTLS_cases [of "advance w" E h sess name "dstAddrText sess" "dstPortText sess"] admit_tls [OF assms r [unfolded Inr]]
    show ?thesis by auto
  next
    case (Inl e)
    show ?thesis
    proof (cases "raw = []")
      case True
      then show ?thesis by (auto simp: run serveTransparent_def r Inl intro!: grow_intros)
    next
      case False
      let ?o = "serveTransparentOpaque E h sess (dstAddrText sess) (dstPortText sess) (Transport_String (se_Transport sess)) (advance w)"
      have o: "Serve E h sess w = ?o" using False by (simp add: run serveTransparent_def r Inl)
      note hello = assms r [unfolded Inl] False
      consider "grows quiet (advance w) ?o"
        | dst where "connPhase E sess (\<lambda>_. None) \<lparr>ci_Host = dstAddrText sess, ci_Port = dstPortText sess, ci_Proto = ''tcp''\<rparr>
              (dstAddrText sess) (dstPortText sess) ''tcp'' (advance w) False dst" "grows (tunnelled False dst) (advance w) ?o"
        | rs w1 who st where "lookupRules E sess (advance w) = (Inr rs, w1)"
            "checkAuth (en_IDKey E) (en_G E) (en_oc E) sess rs (\<lambda>_. None) (wd_outcall w1) = (GateOK who, st)"
            "LookupConn (en_G E) rs \<lparr>ci_Host = dstAddrText sess, ci_Port = dstPortText sess, ci_Proto = ''tcp''\<rparr> = (True, False, True)"
            "grows quiet (advance w) (w1\<lparr>wd_outcall := st\<rparr>)"
            "?o = serveTransparentOpaqueMITM E h sess (dstAddrText sess) (dstPortText sess) (Transport_String (se_Transport sess)) (w1\<lparr>wd_outcall := st\<rparr>)"
        using serveTransparentOpaque_cases [of "advance w" E h sess "dstAddrText sess" "dstPortText sess" "Transport_String (se_Transport sess)"] by blast
      then show ?thesis
      proof cases
        case 1
        then show ?thesis by (simp add: o)
      next
        case 2
        then show ?thesis using admit_opaque [OF hello 2(1)] by (auto simp: o)
      next
        case 3
        have w2: "grows quiet w (w1\<lparr>wd_outcall := st\<rparr>)" using 3(4) by simp
        have w2t: "grows (tunnelled True d) w (w1\<lparr>wd_outcall := st\<rparr>)" for d by (rule grows_quiet_tunnelled [OF w2])
        show ?thesis
          using serveTransparentOpaqueMITM_cases [of "w1\<lparr>wd_outcall := st\<rparr>" E h sess "dstAddrText sess" "dstPortText sess" "Transport_String (se_Transport sess)"]
          unfolding o 3(5)
          by (elim disjE exE conjE; intro disjI1 disjI2 exI conjI)
            (erule grows_trans [OF w2], erule (3) admit_opaque_http [OF hello 3(1-3) refl], erule grows_trans [OF w2t])
      qed
    qed
  qed
qed

text \<open>
  C3. Whatever the client, the origin, the resolver and the broker do, a run of the proxy over an accepted connection
  does one of two things. Either it only answers the client: no connection is opened, no byte is sent out. Or the
  connection was admitted, that is the client's rule set was found, its login gate passed, the first matching
  rule did not reject the connection and the egress list allows every address of the destination; then every dial, of
  the probe, the tunnel, a retry, a reconnect or an upgrade, goes to the one pinned address, and the client is spliced through only
  when the matching rule turned interception off.
\<close>

theorem dials_only_admitted:
  "\<exists>tr. wd_trace (Serve E h sess w) = wd_trace w @ tr \<and>
     (list_all quiet tr \<or> (\<exists>intercept dst. admitted E h sess w intercept dst \<and> list_all (tunnelled intercept dst) tr))"
  using Serve_explicit_cases [of sess w E h] Serve_transparent_cases [of sess w E h] unfolding grows_def by blast

text \<open>
  C4. A request on an intercepted HTTP/1.1 connection reaches the origin only if it names the authority of the
  connection, a rule of the rule set in force matches it, and the rule's request actions let it pass; what is sent is
  the request these actions left, and it goes to the connection's address.
\<close>

theorem forwards_only_authorised:
  assumes "boundTo dst up" and "handleOneRequest E h sess up connIn dst req w = (cont, up', w')"
  shows "boundTo dst up' \<and>
    (\<exists>tr. wd_trace w' = wd_trace w @ tr \<and>
      (list_all quiet tr \<or> (\<exists>q. authorisedRequest E sess connIn dst req w q \<and> list_all (exchange dst q) tr)))"
  using handleOneRequest_cases [OF assms] unfolding extends_def by blast

text \<open>
  C19. The same holds for every stream of an HTTP/2 client, however many requests share the connection.
\<close>

theorem h2_streams_authorised:
  assumes "r2_dst rt = dst" and "handleH2Stream E h sess connIn dst req (rt, w) = (rt', w')"
  shows "r2_dst rt' = dst \<and>
    (\<exists>tr. wd_trace w' = wd_trace w @ tr \<and>
      (list_all quiet tr \<or> (\<exists>q. authorisedRequest E sess connIn dst req w q \<and> list_all (exchange dst q) tr)))"
  using handleH2Stream_cases [OF assms(2)] assms(1) unfolding extends_def by blast

subsection \<open>Access records\<close>

definition isAccess :: "event \<Rightarrow> bool" where
  "isAccess e \<longleftrightarrow> (case e of Access _ _ _ _ \<Rightarrow> True | _ \<Rightarrow> False)"

lemma isAccess_simps [simp]:
  "isAccess (Access m u out st)" "\<not> isAccess (Page pu sp)" "\<not> isAccess (Replied resp)" "\<not> isAccess (Upgraded c)"
  "\<not> isAccess StreamReset" "\<not> isAccess Panicked" "\<not> isAccess (Closed c)"
  by (simp_all add: isAccess_def)

text \<open>\<open>logs n w w'\<close>: the trace has grown by \<open>n\<close> access records, among other events.\<close>

definition logs :: "nat \<Rightarrow> 's world \<Rightarrow> 's world \<Rightarrow> bool" where
  "logs n w w' \<longleftrightarrow> (\<exists>tr. wd_trace w' = wd_trace w @ tr \<and> length (filter isAccess tr) = n)"

named_theorems logs_intros

lemma logs_refl [simp, logs_intros]: "logs 0 w w"
  by (simp add: logs_def)

lemma logs_trans: "logs m w w1 \<Longrightarrow> logs n w1 w2 \<Longrightarrow> logs (m + n) w w2"
  by (auto simp: logs_def)

lemma logs_forwards: "extends (forwards dst req) w w' \<Longrightarrow> logs 0 w w'"
proof -
  have none: "forwards dst req e \<Longrightarrow> \<not> isAccess e" for e by (cases e) (simp_all add: isAccess_def forwards_def connects_def)
  assume "extends (forwards dst req) w w'"
  then obtain tr where "wd_trace w' = wd_trace w @ tr" "list_all (forwards dst req) tr" by (auto simp: extends_def)
  moreover from this(2) have "filter isAccess tr = []" by (auto simp: list_all_iff filter_empty_conv none)
  ultimately show ?thesis by (auto simp: logs_def)
qed

lemma logs_connects: "extends (connects dst) w w' \<Longrightarrow> logs 0 w w'"
  by (rule logs_forwards) (rule extends_weaken(1))

lemma logs_emit [logs_intros]: "\<not> isAccess e \<Longrightarrow> logs n w w' \<Longrightarrow> logs n w (emit e w')"
  by (auto simp: logs_def emit_def)

lemma logs_update [logs_intros]:
  "logs n w w' \<Longrightarrow> logs n w (advance w')" "logs n w w' \<Longrightarrow> logs n w (w'\<lparr>wd_outcall := st\<rparr>)"
  by (simp_all add: logs_def advance_def)

lemma logs_logAccess [logs_intros]: "logs 0 w w' \<Longrightarrow> logs (Suc 0) w (logAccess m u out st w')"
  by (auto simp: logs_def logAccess_def emit_def)

lemma logs_pageEnd [logs_intros]: "logs 0 w w' \<Longrightarrow> logs (Suc 0) w (pageEnd pu sp m u out w')"
  by (simp add: pageEnd_def logs_logAccess logs_emit)

lemma logs_upstream_Close [logs_intros]: "logs n w w' \<Longrightarrow> logs n w (upstream_Close up w')"
  by (cases up) (auto split: option.splits intro: logs_emit)

lemma forwardRequest_logs:
  assumes "forwardRequest E h up rule url req w = (cont, up', w')"
  shows "logs (Suc 0) w w'"
proof -
  obtain d where d: "boundTo d up" using boundTo_some by blast
  obtain r w1 where r: "chooseUpstream E h up req w = (r, w1)" by (cases "chooseUpstream E h up req w")
  note c = chooseUpstream_extends [OF d r]
  have w1: "logs 0 w w1" using c by (blast intro: logs_connects)
  show ?thesis
  proof (cases r)
    case (Inl e)
    with assms r w1 show ?thesis by (auto simp: forwardRequest_def intro!: logs_intros)
  next
    case (Inr x)
    obtain leg b where leg: "r = Inr (leg, b)" using Inr by (cases x) auto
    obtain y leg' w2 where y: "upstream_RoundTrip E (hh_ConnectTries h) leg req w1 = (y, leg', w2)"
      by (cases "upstream_RoundTrip E (hh_ConnectTries h) leg req w1")
    have "logs 0 w1 w2" using upstream_RoundTrip_extends [OF _ y, of d] c leg by (auto intro: logs_forwards)
    then have w2: "logs 0 w w2" using logs_trans [OF w1, of 0] by simp
    then show ?thesis
      using assms unfolding forwardRequest_def r leg
      by (auto simp: y Let_def simp del: upstream_Close.simps split: sum.splits if_splits upstream.splits intro!: logs_intros)
  qed
qed

lemma emit_Panicked: "Panicked \<in> set (wd_trace (emit Panicked w))"
  by (simp add: emit_def)

lemma lookupFailed_logs: "logs 0 w w1 \<Longrightarrow> logs (Suc 0) w (lookupFailed f m u w1) \<or> wd_trace (lookupFailed f m u w1) = wd_trace w1 @ [Panicked]"
  by (cases f) (auto simp: lookupFailed_def emit_def logs_logAccess)

lemma logs_extends: "(\<And>Q. extends Q w w') \<Longrightarrow> logs 0 w w'"
  by (rule logs_forwards)


subsection \<open>Requests that are let through\<close>


text \<open>
  A keep-alive request is forwarded with its proxy credentials. The message phase never removes
  Proxy-Authorization; only the first request of an absolute-form connection is stripped of it, so on every later
  request that a rule without request actions lets through, the header a client sends to the proxy reaches the origin.
\<close>

theorem later_credentials_forwarded:
  assumes "authorityMatches (en_G E) (en_idna E) (q_Host req) (ci_Host connIn) (ci_Port connIn) (ci_Proto connIn)"
    and "lookupRules E sess w = (Inr rs, w1)" and "LookupRequest (en_G E) rs (msgInput connIn req) = Some rule" and "cr_request rule = []"
    and "handleOneRequest E h sess (UpH1 rt) connIn dst req w = (cont, up', w')"
    and "q_Header req ''Proxy-Authorization'' = Some [credential]"
  shows "\<exists>q n tr. wd_trace w' = wd_trace w @ Sent (rt_conn rt) q n # tr \<and> q_Header q ''Proxy-Authorization'' = Some [credential]"
proof -
  have w1: "wd_trace w1 = wd_trace w"
    using lookupRules_extends [OF assms(2), of "\<lambda>_. False"] by (auto simp: extends_def list_all_iff)
  define w0 where "w0 = w1\<lparr>wd_outcall := wd_outcall w1\<rparr>"
  have fw: "forwardRequest E h (UpH1 rt) rule (msgRequestURL connIn req) req w0 = (cont, up', w')"
    using assms(1-5) by (simp add: handleOneRequest_def proceed_def w0_def)
  obtain r leg w2 where up: "upstream_RoundTrip E (hh_ConnectTries h) (UpH1 rt) req w0 = (r, leg, w2)" by (metis prod_cases3)
  then obtain rt2 where rt2: "h1_RoundTrip E (hh_ConnectTries h) rt req w0 = (r, rt2, w2)" by (auto split: prod.splits)
  obtain tr n where "wd_trace w2 = wd_trace w0 @ Sent (rt_conn rt) req n # tr" using h1_RoundTrip_first [OF rt2] by blast
  moreover have "grows (\<lambda>_. True) w2 w'"
    using fw by (auto simp: forwardRequest_def chooseUpstream_def up Let_def simp del: upstream_RoundTrip.simps
        split: sum.splits if_splits upstream.splits intro!: grow_intros)
  ultimately show ?thesis using w1 assms(6) by (auto simp: grows_def w0_def)
qed

lemma Dial_ok:
  assumes "0 < tries" and "en_DialContext E (wd_step w) dst = None"
  shows "Dial E tries dst w = (Inr (wd_step w), emit (Dialed dst) (advance w))"
proof -
  obtain n where "nat tries = Suc n" using assms(1) by (cases "nat tries") auto
  then show ?thesis using assms by (simp add: Dial_def withRetries_def dialOnce_def fromRetry_def Let_def)
qed

lemma gate_ok:
  "checkAuth (en_IDKey E) (en_G E) (en_oc E) sess rs hdr (wd_outcall w) = (GateOK who, st) \<Longrightarrow>
   gate E sess rs m hdr u w = (Some who, w\<lparr>wd_outcall := st\<rparr>)"
  by (simp add: gate_def)


subsection \<open>An example connection\<close>

text \<open>A client whose rule set, already compiled, lets everything through but two ad networks, and may go anywhere.\<close>

definition labRules :: RuleSet where
  "labRules = newRuleSet demoRules [anyEgress (\<lparr>pfx_addr = v4Addr [0, 0, 0, 0], pfx_bits = 0\<rparr>, True)] ''u-1'' None"

definition labWorldWith :: "RuleSet \<Rightarrow> unit world" where
  "labWorldWith rs = (labWorld ())\<lparr>wd_engine := (NewRuleEngine 60)\<lparr>re_cache := [ClientKey explicitSession \<mapsto>
     \<lparr>cc_checkedAt = 0, cc_version = ''v'', cc_exists = True, cc_ruleSet = Some rs, cc_contentHash = []\<rparr>]\<rparr>\<rparr>"

definition labRuleWorld :: "unit world" where
  "labRuleWorld = labWorldWith labRules"

definition labHandler :: Http1Handler where
  "labHandler = \<lparr>hh_CAPEM = None, hh_HeaderLimit = 100, hh_ConnectTries = 1, hh_HTTP2ConnectTries = 1, hh_TrustedProxies = []\<rparr>"

definition labConn :: ConnInput where
  "labConn = \<lparr>ci_Host = ''example.com'', ci_Port = ''80'', ci_Proto = ''http''\<rparr>"

definition labCredRequest :: httpRequest where
  "labCredRequest = demoHttpRequest\<lparr>q_Header := [''Proxy-Authorization'' \<mapsto> [''Basic eDp5'']]\<rparr>"

lemma lab_lookup_with: "lookupRules (labEnv labSys labJSON) explicitSession (labWorldWith rs) = (Inr rs, labWorldWith rs)"
  by (simp add: lookupRules_def Lookup_def labWorldWith_def labWorld_def labEnv_def labSys_def NewRuleEngine_def fresh_def
      resolveClientCache_def Let_def)

lemma lab_lookup: "lookupRules (labEnv labSys labJSON) explicitSession labRuleWorld = (Inr labRules, labRuleWorld)"
  unfolding labRuleWorld_def by (rule lab_lookup_with)

lemma lab_authority: "authorityMatches plainLib Some ''example.com'' ''example.com'' ''80'' ''http''"
  by code_simp

lemma lab_rule:
  assumes "req = demoHttpRequest \<or> req = labCredRequest"
  obtains rule where "LookupRequest plainLib labRules (msgInput labConn req) = Some rule" "cr_request rule = []" "cr_response rule = []"
proof -
  have "map_option (\<lambda>r. (cr_request r, cr_response r)) (find (msgMatches plainLib (msgInput labConn demoHttpRequest)) demoRules) = Some ([], [])"
    "map_option (\<lambda>r. (cr_request r, cr_response r)) (find (msgMatches plainLib (msgInput labConn labCredRequest)) demoRules) = Some ([], [])"
    by code_simp+
  with assms obtain rule where "find (msgMatches plainLib (msgInput labConn req)) demoRules = Some rule" "cr_request rule = []" "cr_response rule = []"
    by auto
  moreover have "LookupRequest plainLib labRules (msgInput labConn req) = find (msgMatches plainLib (msgInput labConn req)) demoRules"
    unfolding LookupRequest_def labRules_def using demo_compiles demo_fits
    by (intro visited_first_match indexable_Compile) (auto simp: msgMatches_def connMatches_def)
  ultimately show thesis using that by simp
qed

lemma lab_conn: "LookupConn plainLib labRules (demoConn ''example.com'') = (True, False, True)"
proof -
  have "find (connMatches plainLib (demoConn ''example.com'')) (visited plainLib labRules (ci_Host (demoConn ''example.com''))) =
      find (connMatches plainLib (demoConn ''example.com'')) demoRules"
    unfolding labRules_def using demo_compiles demo_fits by (intro visited_first_match indexable_Compile) (auto simp: connMatches_def)
  moreover have "map_option (\<lambda>r. (cr_mitm r, cr_deny r)) (find (connMatches plainLib (demoConn ''example.com'')) demoRules) = Some (True, False)"
    by code_simp
  ultimately show ?thesis by (auto simp: LookupConn_def)
qed

lemma lab_reads:
  "\<exists>w'. h1_RoundTrip (labEnv labSys labJSON) 1 labTripper req labRuleWorld = (Inr (http200\<lparr>p_StatusCode := 100\<rparr>), labTripper, w') \<and> wd_trace w' = [Sent 7 req 64]"
  using lab_heads boundNextHeaderBlock_first [of interimHead 100 EndOfFile finalHead]
  by (auto simp: h1_RoundTrip_def roundTripOnce_def labRuleWorld_def labWorldWith_def labWorld_def labEnv_def labTripper_def emit_def advance_def Let_def)

lemma labEnv_simps [simp]:
  "en_G (labEnv sys J) = plainLib" "en_idna (labEnv sys J) = Some" "en_oc (labEnv sys J) = demoOutcallEnv" "en_ClientWrite (labEnv sys J) n"
  by (simp_all add: labEnv_def)

lemma lab_request [simp]: "q_Host demoHttpRequest = ''example.com''" "q_Host labCredRequest = ''example.com''"
    "ci_Host labConn = ''example.com''" "ci_Port labConn = ''80''" "ci_Proto labConn = ''http''"
  by (simp_all add: demoHttpRequest_def labCredRequest_def labConn_def)


lemma lab_run:
  assumes "req = demoHttpRequest \<or> req = labCredRequest"
  obtains w' tr where "handleOneRequest (labEnv labSys labJSON) labHandler explicitSession (UpH1 labTripper) labConn ''192.0.2.1:80'' req labRuleWorld =
      (True, UpH1 labTripper, w')" "wd_trace w' = Sent 7 req 64 # tr" "Panicked \<notin> set tr"
proof -
  obtain rule where rule: "LookupRequest plainLib labRules (msgInput labConn req) = Some rule" "cr_request rule = []" "cr_response rule = []"
    using lab_rule [OF assms] by blast
  obtain w2 where w2: "h1_RoundTrip (labEnv labSys labJSON) 1 labTripper req labRuleWorld = (Inr (http200\<lparr>p_StatusCode := 100\<rparr>), labTripper, w2)"
      "wd_trace w2 = [Sent 7 req 64]"
    using lab_reads by blast
  have host: "q_Host req = ''example.com''" "\<not> q_Close req" using assms by (auto simp: demoHttpRequest_def labCredRequest_def)
  let ?reply = "responsePhase plainLib rule (normalizeResponse (http200\<lparr>p_StatusCode := 100\<rparr>))"
  have "forwardRequest (labEnv labSys labJSON) labHandler (UpH1 labTripper) rule (msgRequestURL labConn req) req labRuleWorld =
      (True, UpH1 labTripper, logAccess (q_Method req) (msgRequestURL labConn req) ''ok'' 100 (emit (Replied ?reply) (advance w2)))"
    using w2(1) host
    by (simp add: forwardRequest_def chooseUpstream_def labHandler_def Let_def responsePhase_def rule(3) applyOverrides_def normalizeResponse_def http200_def)
  then have "handleOneRequest (labEnv labSys labJSON) labHandler explicitSession (UpH1 labTripper) labConn ''192.0.2.1:80'' req labRuleWorld =
      (True, UpH1 labTripper, logAccess (q_Method req) (msgRequestURL labConn req) ''ok'' 100 (emit (Replied ?reply) (advance w2)))"
    using lab_authority lab_lookup rule(1,2) host by (simp add: handleOneRequest_def proceed_def)
  then show thesis by (rule that) (simp add: logAccess_def emit_def advance_def w2(2), simp)
qed

lemma lab_bound: "boundTo ''192.0.2.1:80'' (UpH1 labTripper)" "wd_trace labRuleWorld = []"
  by (simp_all add: boundTo_def labTripper_def labRuleWorld_def labWorldWith_def labWorld_def)

theorem forwards_only_authorised_witness:
  "\<exists>q. authorisedRequest (labEnv labSys labJSON) explicitSession labConn ''192.0.2.1:80'' demoHttpRequest labRuleWorld q"
proof -
  obtain w' tr where run: "handleOneRequest (labEnv labSys labJSON) labHandler explicitSession (UpH1 labTripper) labConn ''192.0.2.1:80'' demoHttpRequest labRuleWorld =
      (True, UpH1 labTripper, w')" "wd_trace w' = Sent 7 demoHttpRequest 64 # tr"
    using lab_run by blast
  from forwards_only_authorised [OF lab_bound(1) run(1)] run(2) lab_bound(2) show ?thesis by auto
qed


theorem later_credentials_forwarded_witness:
  "\<exists>w' q tr. handleOneRequest (labEnv labSys labJSON) labHandler explicitSession (UpH1 labTripper) labConn ''192.0.2.1:80'' labCredRequest labRuleWorld =
      (True, UpH1 labTripper, w') \<and> wd_trace w' = Sent 7 q 64 # tr \<and> q_Header q ''Proxy-Authorization'' = Some [''Basic eDp5'']"
proof -
  obtain w' tr where run: "handleOneRequest (labEnv labSys labJSON) labHandler explicitSession (UpH1 labTripper) labConn ''192.0.2.1:80'' labCredRequest labRuleWorld =
      (True, UpH1 labTripper, w')" "wd_trace w' = Sent 7 labCredRequest 64 # tr"
    using lab_run [of labCredRequest] by blast
  obtain rule where rule: "LookupRequest plainLib labRules (msgInput labConn labCredRequest) = Some rule" "cr_request rule = []"
    using lab_rule [of labCredRequest] by blast
  have "q_Header labCredRequest ''Proxy-Authorization'' = Some [''Basic eDp5'']" by (simp add: labCredRequest_def)
  with later_credentials_forwarded [OF _ lab_lookup _ rule(2) run(1)] rule(1) lab_authority run lab_bound(2) show ?thesis by fastforce
qed

definition labH2 :: h2RoundTripper where
  "labH2 = \<lparr>r2_dst = ''192.0.2.1:443'', r2_sni = ''example.com'', r2_connectTries = 1, r2_headerLimit = 100, r2_cc = Some 7\<rparr>"

theorem h2_streams_authorised_witness:
  "\<exists>rt' w' q. handleH2Stream (labEnv labSys labJSON) labHandler explicitSession labConn ''192.0.2.1:443'' demoHttpRequest (labH2, labRuleWorld) = (rt', w') \<and>
     r2_dst rt' = ''192.0.2.1:443'' \<and> authorisedRequest (labEnv labSys labJSON) explicitSession labConn ''192.0.2.1:443'' demoHttpRequest labRuleWorld q"
proof -
  obtain rule where rule: "LookupRequest plainLib labRules (msgInput labConn demoHttpRequest) = Some rule" "cr_request rule = []" "cr_response rule = []"
    using lab_rule [of demoHttpRequest] by blast
  have dst: "r2_dst labH2 = ''192.0.2.1:443''" by (simp add: labH2_def)
  obtain rt' w' where run: "handleH2Stream (labEnv labSys labJSON) labHandler explicitSession labConn ''192.0.2.1:443'' demoHttpRequest (labH2, labRuleWorld) = (rt', w')"
    by (cases "handleH2Stream (labEnv labSys labJSON) labHandler explicitSession labConn ''192.0.2.1:443'' demoHttpRequest (labH2, labRuleWorld)")
  have "Sent 7 (h2Normalized demoHttpRequest) 1 \<in> set (wd_trace w')"
    using run lab_authority lab_lookup rule lab_bound(2)
    by (auto simp: handleH2Stream_def proceed_def h2_RoundTrip_def currentConn_def labH2_def labEnv_def emit_def advance_def logAccess_def Let_def)
  with h2_streams_authorised [OF dst run] lab_bound(2) run show ?thesis by (auto simp: list_all_iff)
qed

definition labSpliceHTTP :: "Rule list" where
  "labSpliceHTTP = [(demoRule [] None)\<lparr>r_MITM := Some False\<rparr>]"

definition labSpliceList :: "CompiledRule list" where
  "labSpliceList = (case Compile plainLib labSpliceHTTP of Inr rs \<Rightarrow> rs | Inl _ \<Rightarrow> [])"

definition labSpliceRules :: RuleSet where
  "labSpliceRules = newRuleSet labSpliceList [anyEgress (\<lparr>pfx_addr = v4Addr [0, 0, 0, 0], pfx_bits = 0\<rparr>, True)] ''u-2'' None"

definition labConnect :: httpRequest where
  "labConnect = demoHttpRequest\<lparr>q_Method := ''CONNECT'', q_Host := ''example.com:443''\<rparr>"

lemma labSplice_conn: "LookupConn plainLib labSpliceRules (demoConn ''example.com'') = (False, False, True)"
proof -
  have "\<not> isl (Compile plainLib labSpliceHTTP)" by code_simp
  then have comp: "Compile plainLib labSpliceHTTP = Inr labSpliceList" by (auto simp: labSpliceList_def split: sum.split)
  have fits: "fits_uint32 (buildHostCandidateIndex labSpliceList)" by code_simp
  have "find (connMatches plainLib (demoConn ''example.com'')) (visited plainLib labSpliceRules (ci_Host (demoConn ''example.com''))) =
      find (connMatches plainLib (demoConn ''example.com'')) labSpliceList"
    unfolding labSpliceRules_def using comp fits by (intro visited_first_match indexable_Compile) (auto simp: connMatches_def)
  moreover have "map_option (\<lambda>r. (cr_mitm r, cr_deny r)) (find (connMatches plainLib (demoConn ''example.com'')) labSpliceList) = Some (False, False)"
    by code_simp
  ultimately show ?thesis by (auto simp: LookupConn_def)
qed

lemma labSplice_phase:
  "connPhase (labEnv labSys labJSON) explicitSession (q_Header labConnect) (demoConn ''example.com'') ''example.com'' ''443'' ''http''
     (labWorldWith labSpliceRules) False ''192.0.2.1:443''"
proof -
  have "ParseUint ''443'' 16 = Some 443" "ParseAddr ''example.com'' = None" "JoinHostPort (Addr_String (v4Addr [192, 0, 2, 1])) ''443'' = ''192.0.2.1:443''"
      "Contains \<lparr>pfx_addr = v4Addr [0, 0, 0, 0], pfx_bits = 0\<rparr> (v4Addr [192, 0, 2, 1])"
      "Unmap (v4Addr [192, 0, 2, 1]) = v4Addr [192, 0, 2, 1]"
    by code_simp+
  then have "resolveAndPin plainLib labSpliceRules (LookupIP (labEnv labSys labJSON) n) ''example.com'' ''443'' ''http'' = Inr ''192.0.2.1:443''" for n
    using lookupEgress_any [of plainLib "[(\<lparr>pfx_addr = v4Addr [0, 0, 0, 0], pfx_bits = 0\<rparr>, True)]" "v4Addr [192, 0, 2, 1]"]
    by (simp add: resolveAndPin_def LookupIP_def labEnv_def LookupEgress_def labSpliceRules_def newRuleSet_def newRuleSetWithHostIndex_def)
  moreover have "checkAuth K plainLib demoOutcallEnv explicitSession labSpliceRules hdr st = (GateOK [], st)" for K hdr st
    by (simp add: checkAuth_def labSpliceRules_def newRuleSet_def newRuleSetWithHostIndex_def)
  ultimately show ?thesis unfolding connPhase_def using lab_lookup_with [of labSpliceRules] labSplice_conn by simp
qed


end
