(* ===== verification/Url.thy ===== *)
theory Url
  imports NetAddr
begin

text \<open>
  What the sources use of \<open>net/url\<close>: \<open>Parse\<close> with its escapes, authorities and opaque forms, \<open>Hostname\<close>, \<open>Port\<close> and \<open>Query\<close>,
  as in Go 1.26, the version the module names. An error is no result.
\<close>

datatype escapeMode = encodePath | encodeHost | encodeZone | encodeUserPassword | encodeQueryComponent

definition isAlphaNum :: "char \<Rightarrow> bool" where
  "isAlphaNum ch \<longleftrightarrow>
     (let b = of_char ch :: int in 0x61 \<le> b \<and> b \<le> 0x7A \<or> 0x41 \<le> b \<and> b \<le> 0x5A \<or> 0x30 \<le> b \<and> b \<le> 0x39)"

text \<open>\<open>shouldEscape\<close> in the host and zone modes, the only ones in which decoding asks it.\<close>

definition hostChar :: "char \<Rightarrow> bool" where
  "hostChar ch \<longleftrightarrow> isAlphaNum ch \<or> ch \<in> set ''!$&()*+,;=:[]<>-_.~'' \<or> ch = CHR 0x22 \<or> ch = CHR 0x27"

fun unescape :: "escapeMode \<Rightarrow> string \<Rightarrow> string option" where
  "unescape mode [] = Some []"
| "unescape mode (ch # s) =
     (if ch = CHR ''%'' then
        (case s of
           a # b # rest \<Rightarrow>
             (case (hexValue a, hexValue b) of
                (Some x, Some y) \<Rightarrow>
                  let v = char_of (nat (x * 16 + y)) in
                  if mode = encodeHost \<and> x < 8 \<and> \<not> (a = CHR ''2'' \<and> b = CHR ''5'') \<or>
                     mode = encodeZone \<and> \<not> (a = CHR ''2'' \<and> b = CHR ''5'') \<and> v \<noteq> CHR '' '' \<and> \<not> hostChar v
                  then None
                  else map_option ((#) v) (unescape mode rest)
              | _ \<Rightarrow> None)
         | _ \<Rightarrow> None)
      else if mode \<in> {encodeHost, encodeZone} \<and> (of_char ch :: int) < 0x80 \<and> \<not> hostChar ch then None
      else map_option ((#) (if mode = encodeQueryComponent \<and> ch = CHR ''+'' then CHR '' '' else ch)) (unescape mode s))"

text \<open>\<open>getScheme\<close>: the scheme and the rest, an empty scheme where there is none, and no result for a leading colon.\<close>

fun schemeFrom :: "bool \<Rightarrow> string \<Rightarrow> string \<Rightarrow> (string \<times> string) option option" where
  "schemeFrom atStart acc [] = Some None"
| "schemeFrom atStart acc (ch # s) =
     (let b = of_char ch :: int in
      if 0x61 \<le> b \<and> b \<le> 0x7A \<or> 0x41 \<le> b \<and> b \<le> 0x5A then schemeFrom False (acc @ [ch]) s
      else if 0x30 \<le> b \<and> b \<le> 0x39 \<or> ch \<in> set ''+-.'' then (if atStart then Some None else schemeFrom False (acc @ [ch]) s)
      else if ch = CHR '':'' then (if atStart then None else Some (Some (acc, s)))
      else Some None)"

definition getScheme :: "string \<Rightarrow> (string \<times> string) option" where
  "getScheme raw = (case schemeFrom True [] raw of None \<Rightarrow> None | Some None \<Rightarrow> Some ([], raw) | Some (Some p) \<Rightarrow> Some p)"

definition validOptionalPort :: "string \<Rightarrow> bool" where
  "validOptionalPort port \<longleftrightarrow> (case port of [] \<Rightarrow> True | ch # ds \<Rightarrow> ch = CHR '':'' \<and> list_all isDigit ds)"

fun cutZone :: "string \<Rightarrow> (string \<times> string) option" where
  "cutZone [] = None"
| "cutZone (ch # s) =
     (if HasPrefix (ch # s) ''%25'' then Some ([], ch # s)
      else map_option (\<lambda>(a, b). (ch # a, b)) (cutZone s))"

definition parseHost :: "string \<Rightarrow> string option" where
  "parseHost host =
     (let opening = LastIndexByte host CHR ''['' in
      if opening \<noteq> -1 then
        (let closing = LastIndexByte host CHR '']'';
             colonPort = drop (nat (closing + 1)) host;
             hostname = slice host (nat (opening + 1)) (nat closing) in
         if closing < 0 \<or> \<not> validOptionalPort colonPort then None
         else
           case (case cutZone hostname of
                   Some (a, z) \<Rightarrow> (case (unescape encodeHost a, unescape encodeZone z) of (Some x, Some y) \<Rightarrow> Some (x @ y) | _ \<Rightarrow> None)
                 | None \<Rightarrow> unescape encodeHost hostname) of
             None \<Rightarrow> None
           | Some name \<Rightarrow>
               (case ParseAddr name of
                  Some a \<Rightarrow> if addr_is4 a then None else Some (''['' @ name @ '']'' @ colonPort)
                | None \<Rightarrow> None))
      else
        (case Cut host CHR '':'' of
           Some (_, after) \<Rightarrow> if validOptionalPort (CHR '':'' # after) then unescape encodeHost host else None
         | None \<Rightarrow> unescape encodeHost host))"

record Userinfo =
  ui_username :: string
  ui_password :: "string option"

definition validUserinfo :: "string \<Rightarrow> bool" where
  "validUserinfo s \<longleftrightarrow> list_all (\<lambda>ch. isAlphaNum ch \<or> ch \<in> set ''-._:~!$&()*+,;=%@'' \<or> ch = CHR 0x27) s"

definition parseAuthority :: "string \<Rightarrow> (Userinfo option \<times> string) option" where
  "parseAuthority authority =
     (let i = LastIndexByte authority CHR ''@'' in
      case parseHost (if i < 0 then authority else drop (nat (i + 1)) authority) of
        None \<Rightarrow> None
      | Some host \<Rightarrow>
          if i < 0 then Some (None, host)
          else
            let userinfo = take (nat i) authority in
            if \<not> validUserinfo userinfo then None
            else case Cut userinfo CHR '':'' of
              None \<Rightarrow> map_option (\<lambda>u. (Some \<lparr>ui_username = u, ui_password = None\<rparr>, host)) (unescape encodeUserPassword userinfo)
            | Some (u, p) \<Rightarrow>
                (case (unescape encodeUserPassword u, unescape encodeUserPassword p) of
                   (Some u', Some p') \<Rightarrow> Some (Some \<lparr>ui_username = u', ui_password = Some p'\<rparr>, host)
                 | _ \<Rightarrow> None))"

record goURL =
  u_Scheme :: string
  u_Opaque :: string
  u_User :: "Userinfo option"
  u_Host :: string
  u_Path :: string
  u_RawQuery :: string

definition containsCTLByte :: "string \<Rightarrow> bool" where
  "containsCTLByte s \<longleftrightarrow> list_ex (\<lambda>ch. (of_char ch :: int) < 0x20 \<or> ch = CHR 0x7F) s"

definition cutOr :: "string \<Rightarrow> char \<Rightarrow> string \<times> string" where
  "cutOr s ch = (case Cut s ch of Some p \<Rightarrow> p | None \<Rightarrow> (s, []))"

definition url_parse :: "golib \<Rightarrow> string \<Rightarrow> goURL option" where
  "url_parse G raw =
     (if containsCTLByte raw then None
      else if raw = ''*'' then Some \<lparr>u_Scheme = [], u_Opaque = [], u_User = None, u_Host = [], u_Path = ''*'', u_RawQuery = []\<rparr>
      else case getScheme raw of
        None \<Rightarrow> None
      | Some (scheme0, rest0) \<Rightarrow>
          let scheme = ToLower G scheme0; (rest, query) = cutOr rest0 CHR ''?'';
              url = \<lparr>u_Scheme = scheme, u_Opaque = [], u_User = None, u_Host = [], u_Path = [], u_RawQuery = query\<rparr>;
              withPath = (\<lambda>u path. map_option (\<lambda>p. u\<lparr>u_Path := p\<rparr>) (unescape encodePath path)) in
          if \<not> HasPrefix rest ''/'' \<and> scheme \<noteq> [] then Some (url\<lparr>u_Opaque := rest\<rparr>)
          else if \<not> HasPrefix rest ''/'' \<and> CHR '':'' \<in> set (fst (cutOr rest CHR ''/'')) then None
          else if (scheme \<noteq> [] \<or> \<not> HasPrefix rest ''///'') \<and> HasPrefix rest ''//'' then
            (let authority = takeWhile (\<lambda>ch. ch \<noteq> CHR ''/'') (drop 2 rest) in
             case parseAuthority authority of
               None \<Rightarrow> None
             | Some (user, host) \<Rightarrow> withPath (url\<lparr>u_User := user, u_Host := host\<rparr>) (drop (2 + length authority) rest))
          else withPath url rest)"

definition url_Parse :: "golib \<Rightarrow> string \<Rightarrow> goURL option" where
  "url_Parse G raw =
     (let (u, frag) = cutOr raw CHR ''#'' in
      case url_parse G u of
        None \<Rightarrow> None
      | Some url \<Rightarrow> if unescape encodePath frag = None then None else Some url)"

text \<open>\<open>splitHostPort\<close> and the two accessors.\<close>

definition splitHostPort :: "string \<Rightarrow> string \<times> string" where
  "splitHostPort hostPort =
     (let colon = LastIndexByte hostPort CHR '':'';
          (host, port) = (if colon \<noteq> -1 \<and> validOptionalPort (drop (nat colon) hostPort)
                          then (take (nat colon) hostPort, drop (nat colon + 1) hostPort) else (hostPort, [])) in
      (if HasPrefix host ''['' \<and> HasSuffix host '']'' then slice host 1 (length host - 1) else host, port))"

definition Hostname :: "goURL \<Rightarrow> string" where
  "Hostname u = fst (splitHostPort (u_Host u))"

definition url_Port :: "goURL \<Rightarrow> string" where
  "url_Port u = snd (splitHostPort (u_Host u))"

text \<open>\<open>Query\<close>: the pairs that decode; \<open>Get\<close> is the first value of a key.\<close>

definition queryPairs :: "goURL \<Rightarrow> (string \<times> string) list" where
  "queryPairs u =
     List.map_filter (\<lambda>part.
       if CHR '';'' \<in> set part \<or> part = [] then None
       else let (k, v) = cutOr part CHR ''='' in
         case (unescape encodeQueryComponent k, unescape encodeQueryComponent v) of
           (Some k', Some v') \<Rightarrow> Some (k', v')
         | _ \<Rightarrow> None)
     (Split (u_RawQuery u) CHR ''&'')"

definition queryValues :: "goURL \<Rightarrow> string \<Rightarrow> string list" where
  "queryValues u key = map snd (filter (\<lambda>(k, _). k = key) (queryPairs u))"

definition query_Get :: "goURL \<Rightarrow> string \<Rightarrow> string" where
  "query_Get u key = (case queryValues u key of v # _ \<Rightarrow> v | [] \<Rightarrow> [])"

end
