(* ===== verification/Config.thy ===== *)
theory Config
  imports Url Outcall Authority Storage
begin

text \<open>
  The configuration, \<open>src/internal/config/\<close>, and what \<open>src/internal/storage/open.go\<close> makes of its backend URL. The flags as
  the command-line library leaves them are the input; the environment is a function. Sizes and durations are 64-bit
  and wrap. The property: what a configuration that was accepted satisfies.
\<close>

subsection \<open>Sizes, levels and formats\<close>

datatype configError =
    InvalidSize string | InvalidAddress string | InvalidLevel string | InvalidFormat string | InvalidProxies string
  | BadFlag string

definition ParseSize :: "string \<Rightarrow> (configError, int) res" where
  "ParseSize s =
     (if s = [] then Inl (InvalidSize s)
      else
        let ch = last s;
            (mul, numPart) =
              (if ch = CHR ''k'' \<or> ch = CHR ''K'' then (2 ^ 10, butlast s)
               else if ch = CHR ''m'' \<or> ch = CHR ''M'' then (2 ^ 20, butlast s)
               else if ch = CHR ''g'' \<or> ch = CHR ''G'' then (2 ^ 30, butlast s)
               else (1, s)) in
        case Atoi (TrimSpace numPart) of
          None \<Rightarrow> Inl (InvalidSize s)
        | Some n \<Rightarrow> if n < 0 then Inl (InvalidSize s) else Inr (wrap64 (n * mul)))"

definition LevelDebug :: int where "LevelDebug = -4"
definition LevelInfo :: int where "LevelInfo = 0"
definition LevelWarn :: int where "LevelWarn = 4"
definition LevelError :: int where "LevelError = 8"
definition LevelCritical :: int where "LevelCritical = 12"

definition logLevels :: "(string \<times> int) list" where
  "logLevels = [(''debug'', LevelDebug), (''info'', LevelInfo), (''warning'', LevelWarn), (''error'', LevelError), (''critical'', LevelCritical)]"

definition ParseLogLevel :: "golib \<Rightarrow> string \<Rightarrow> (configError, int) res" where
  "ParseLogLevel G s = (case map_of logLevels (ToLower G s) of None \<Rightarrow> Inl (InvalidLevel s) | Some l \<Rightarrow> Inr l)"

text \<open>\<open>slog.Level.String\<close> for the other levels: the nearest name below with an offset.\<close>

definition Level_String :: "int \<Rightarrow> string" where
  "Level_String l =
     (let str = (\<lambda>base val. if val = 0 then base else base @ (if val < 0 then [] else ''+'') @ Itoa val) in
      if l < LevelInfo then str ''DEBUG'' (l - LevelDebug)
      else if l < LevelWarn then str ''INFO'' (l - LevelInfo)
      else if l < LevelError then str ''WARN'' (l - LevelWarn)
      else str ''ERROR'' (l - LevelError))"

definition LevelName :: "int \<Rightarrow> string" where
  "LevelName l =
     (if l = LevelDebug then ''DEBUG'' else if l = LevelInfo then ''INFO'' else if l = LevelWarn then ''WARNING''
      else if l = LevelError then ''ERROR'' else if l = LevelCritical then ''CRITICAL'' else Level_String l)"

definition logFormats :: "string list" where "logFormats = [''plain'', ''json'', ''cat'']"

definition ParseLogFormat :: "string \<Rightarrow> (configError, string) res" where
  "ParseLogFormat s = (if s \<in> set logFormats then Inr s else Inl (InvalidFormat s))"

fun parseProxyParts :: "string \<Rightarrow> string list \<Rightarrow> (configError, Prefix list) res" where
  "parseProxyParts s [] = Inr []"
| "parseProxyParts s (part0 # parts) =
     (let part = TrimSpace part0 in
      if part = [] then Inl (InvalidProxies s)
      else
        bindR (case ParsePrefix part of
                 Some prefix \<Rightarrow> Inr prefix
               | None \<Rightarrow>
                   (case ParseAddr part of
                      None \<Rightarrow> Inl (InvalidProxies part)
                    | Some addr \<Rightarrow> Inr \<lparr>pfx_addr = addr\<lparr>addr_zone := []\<rparr>, pfx_bits = BitLen addr\<rparr>)) (\<lambda>prefix.
        bindR (parseProxyParts s parts) (\<lambda>prefixes. Inr (prefix # prefixes))))"

definition ParseTrustedProxies :: "string \<Rightarrow> (configError, Prefix list) res" where
  "ParseTrustedProxies s = (if s = [] then Inr [] else parseProxyParts s (Split s CHR '',''))"

subsection \<open>Addresses\<close>

record listenAddr =
  la_Scheme :: string
  la_Host :: string
  la_Port :: int
  la_Path :: string

definition bindHost :: "goURL \<Rightarrow> string" where
  "bindHost u = (if Hostname u = ''*'' then [] else Hostname u)"

definition parsePort :: "string \<Rightarrow> int option" where
  "parsePort str = (case Atoi str of Some port \<Rightarrow> if port < 0 \<or> 65535 < port then None else Some port | None \<Rightarrow> None)"

definition config_ParseAddr :: "golib \<Rightarrow> string \<Rightarrow> (configError, listenAddr) res" where
  "config_ParseAddr G s =
     (case url_Parse G s of
        None \<Rightarrow> Inl (InvalidAddress s)
      | Some u \<Rightarrow>
          if u_Scheme u \<in> {''tcp'', ''udp''} then
            (if url_Port u = [] then Inl (InvalidAddress s)
             else case parsePort (url_Port u) of
               None \<Rightarrow> Inl (InvalidAddress s)
             | Some port \<Rightarrow> Inr \<lparr>la_Scheme = u_Scheme u, la_Host = bindHost u, la_Port = port, la_Path = []\<rparr>)
          else if u_Scheme u = ''unix'' then
            (let path = u_Host u @ u_Path u in
             if path = [] then Inl (InvalidAddress s)
             else Inr \<lparr>la_Scheme = u_Scheme u, la_Host = [], la_Port = 0, la_Path = path\<rparr>)
          else Inl (InvalidAddress s))"

definition Network :: "listenAddr \<Rightarrow> string" where "Network a = la_Scheme a"

definition listen_String :: "listenAddr \<Rightarrow> string" where
  "listen_String a = (if la_Scheme a = ''unix'' then la_Path a else JoinHostPort (la_Host a) (Itoa (la_Port a)))"

definition defaultHTTPSProxyName :: string where "defaultHTTPSProxyName = ''Internal Proxy''"
definition defaultHTTPSProxyPort :: int where "defaultHTTPSProxyPort = 443"

record HTTPSProxyAddr =
  hp_Addr :: listenAddr
  hp_Names :: "string list"

definition ParseHTTPSProxyAddr :: "golib \<Rightarrow> string \<Rightarrow> (configError, HTTPSProxyAddr) res" where
  "ParseHTTPSProxyAddr G s =
     (case url_Parse G s of
        None \<Rightarrow> Inl (InvalidAddress s)
      | Some u \<Rightarrow>
          if u_Scheme u \<noteq> ''tcp'' then Inl (InvalidAddress s)
          else case (if url_Port u \<noteq> [] then parsePort (url_Port u) else Some defaultHTTPSProxyPort) of
            None \<Rightarrow> Inl (InvalidAddress s)
          | Some port \<Rightarrow>
              let names = filter (\<lambda>n. n \<noteq> []) (queryValues u ''cn'') in
              Inr \<lparr>hp_Addr = \<lparr>la_Scheme = ''tcp'', la_Host = bindHost u, la_Port = port, la_Path = []\<rparr>,
                   hp_Names = (if names = [] then [defaultHTTPSProxyName] else names)\<rparr>)"

subsection \<open>Flags\<close>

text \<open>A \<open>float64\<close> as far as it is compared with 0 and 1.\<close>

datatype float64 = NaN | Infinite bool | Finite rat

definition float_less :: "float64 \<Rightarrow> float64 \<Rightarrow> bool" where
  "float_less x y =
     (case (x, y) of
        (Finite a, Finite b) \<Rightarrow> a < b
      | (Infinite pos, Finite _) \<Rightarrow> \<not> pos
      | (Finite _, Infinite pos) \<Rightarrow> pos
      | (Infinite p, Infinite q) \<Rightarrow> \<not> p \<and> q
      | _ \<Rightarrow> False)"

record cliFlags =
  cf_Storage :: string
  cf_ListenHTTPProxy :: string
  cf_ListenHTTPSProxy :: string
  cf_ListenHTTPTProxy :: string
  cf_ListenHTTPRedirect :: string
  cf_Control :: string
  cf_ClusterKey :: string
  cf_RulesCacheTTL :: int
  cf_HTTPHeaderLimit :: string
  cf_HTTPBodyWindow :: string
  cf_HTTPTimeoutConnect :: int
  cf_HTTPTimeoutRead :: int
  cf_HTTPConnectTries :: int
  cf_HTTPTimeoutClientRead :: int
  cf_HTTP2TimeoutConnect :: int
  cf_HTTP2TimeoutRead :: int
  cf_HTTP2ConnectTries :: int
  cf_OutcallTimeoutConnect :: int
  cf_OutcallTimeoutRead :: int
  cf_OutcallMaxInflight :: int
  cf_LogLevel :: string
  cf_LogFormat :: string
  cf_NoAccessLogs :: bool
  cf_OtelMetrics :: string
  cf_OtelTraces :: string
  cf_OtelResource :: string
  cf_OtelSampleRatio :: float64
  cf_OtelPropagateUpstream :: bool
  cf_OtelContinueClient :: bool
  cf_OtelSpoolMaxSize :: string
  cf_OtelSpoolMaxAge :: int
  cf_TrustedProxies :: string

record Config =
  cg_Storage :: string
  cg_HTTPProxy :: "listenAddr option"
  cg_HTTPSProxy :: "HTTPSProxyAddr option"
  cg_HTTPTProxy :: "listenAddr option"
  cg_HTTPRedirect :: "listenAddr option"
  cg_Control :: listenAddr
  cg_ClusterKey :: string
  cg_RulesCacheTTL :: int
  cg_HTTPHeaderLimit :: int
  cg_HTTPBodyWindow :: int
  cg_HTTPConnectTimeout :: int
  cg_HTTPReadTimeout :: int
  cg_HTTPConnectTries :: int
  cg_HTTPClientReadTimeout :: int
  cg_HTTP2ConnectTimeout :: int
  cg_HTTP2ReadTimeout :: int
  cg_HTTP2ConnectTries :: int
  cg_OutcallConnectTimeout :: int
  cg_OutcallReadTimeout :: int
  cg_OutcallMaxInflight :: int
  cg_LogLevel :: int
  cg_LogFormat :: string
  cg_NoAccessLogs :: bool
  cg_OtelMetrics :: string
  cg_OtelTraces :: string
  cg_OtelResource :: string
  cg_OtelSampleRatio :: float64
  cg_OtelPropagateUpstream :: bool
  cg_OtelContinueClient :: bool
  cg_OtelSpoolMaxSize :: int
  cg_OtelSpoolMaxAge :: int
  cg_TrustedProxies :: "Prefix list"

text \<open>The process environment: \<open>os.Getenv\<close> and \<open>os.UserHomeDir\<close>.\<close>

record procEnv =
  pe_Getenv :: "string \<Rightarrow> string"
  pe_HomeDir :: "string option"

definition minClusterKeyBytes :: nat where "minClusterKeyBytes = 32"

definition storageSchemes :: "string list" where "storageSchemes = [''posix'', ''s3'']"

definition otelTraceSchemes :: "string list" where
  "otelTraceSchemes = [''otlp+grpc'', ''otlp+http'', ''file'', ''stdout'']"

definition defaultStorageURL :: "procEnv \<Rightarrow> string" where
  "defaultStorageURL env =
     (let xdg = pe_Getenv env ''XDG_CACHE_HOME'' in
      if HasPrefix xdg ''/'' then ''posix://'' @ filepath_Join xdg ''mitmania''
      else case pe_HomeDir env of
        None \<Rightarrow> []
      | Some home \<Rightarrow> ''posix://'' @ filepath_Join home ''.cache/mitmania'')"

definition defaultControlPath :: "procEnv \<Rightarrow> string" where
  "defaultControlPath env =
     (let xdg = pe_Getenv env ''XDG_RUNTIME_DIR'' in if HasPrefix xdg ''/'' then filepath_Join xdg ''mitmania.sock'' else [])"

definition parsePositiveSeconds :: "string \<Rightarrow> int \<Rightarrow> (configError, int) res" where
  "parsePositiveSeconds flag n = (if n \<le> 0 then Inl (BadFlag flag) else Inr (seconds n))"

definition parseNonNegativeSeconds :: "string \<Rightarrow> int \<Rightarrow> (configError, int) res" where
  "parseNonNegativeSeconds flag n = (if n < 0 then Inl (BadFlag flag) else Inr (seconds n))"

definition parsePositiveInt :: "string \<Rightarrow> int \<Rightarrow> (configError, int) res" where
  "parsePositiveInt flag n = (if n \<le> 0 then Inl (BadFlag flag) else Inr n)"

definition resolveStorage :: "golib \<Rightarrow> procEnv \<Rightarrow> string \<Rightarrow> (configError, string) res" where
  "resolveStorage G env flag =
     (let resolved = (if flag = [] then defaultStorageURL env else flag) in
      if resolved = [] then Inl (BadFlag ''storage'')
      else case url_Parse G resolved of
        None \<Rightarrow> Inl (BadFlag ''storage'')
      | Some u \<Rightarrow> if u_Scheme u \<in> set storageSchemes then Inr resolved else Inl (BadFlag ''storage''))"

definition parseClusterKey :: "string \<Rightarrow> (configError, string) res" where
  "parseClusterKey flag =
     (if flag = [] then Inl (BadFlag ''cluster-key'')
      else case b64Decode True flag of
        None \<Rightarrow> Inl (BadFlag ''cluster-key'')
      | Some key \<Rightarrow> if length key < minClusterKeyBytes then Inl (BadFlag ''cluster-key'') else Inr key)"

definition parseListener :: "golib \<Rightarrow> string \<Rightarrow> string list \<Rightarrow> string \<Rightarrow> (configError, listenAddr) res" where
  "parseListener G flag schemes s =
     bindR (config_ParseAddr G s) (\<lambda>a. if la_Scheme a \<in> set schemes then Inr a else Inl (BadFlag flag))"

definition optional :: "(string \<Rightarrow> ('e, 'a) res) \<Rightarrow> string \<Rightarrow> ('e, 'a option) res" where
  "optional f s = (if s = [] then Inr None else bindR (f s) (\<lambda>a. Inr (Some a)))"

definition parseSizeFlag :: "string \<Rightarrow> int \<Rightarrow> string \<Rightarrow> (configError, int) res" where
  "parseSizeFlag flag least s = bindR (ParseSize s) (\<lambda>n. if n < least then Inl (BadFlag flag) else Inr n)"

definition checkSink :: "golib \<Rightarrow> string \<Rightarrow> string list \<Rightarrow> string \<Rightarrow> (configError, string) res" where
  "checkSink G flag schemes s =
     (if s = [] then Inr s
      else case url_Parse G s of
        Some u \<Rightarrow> if u_Scheme u \<in> set schemes then Inr s else Inl (BadFlag flag)
      | None \<Rightarrow> Inl (BadFlag flag))"

definition config_Parse :: "golib \<Rightarrow> procEnv \<Rightarrow> cliFlags \<Rightarrow> (configError, Config) res" where
  "config_Parse G env cli =
     bindR (resolveStorage G env (cf_Storage cli)) (\<lambda>storage.
     bindR (parseClusterKey (cf_ClusterKey cli)) (\<lambda>key.
     bindR (optional (parseListener G ''listen-http-tproxy'' [''tcp'']) (cf_ListenHTTPTProxy cli)) (\<lambda>tproxy.
     bindR (optional (parseListener G ''listen-http-redirect'' [''tcp'']) (cf_ListenHTTPRedirect cli)) (\<lambda>redirect.
     bindR (optional (parseListener G ''listen-http-proxy'' [''tcp'', ''unix'']) (cf_ListenHTTPProxy cli)) (\<lambda>httpProxy.
     bindR (optional (ParseHTTPSProxyAddr G) (cf_ListenHTTPSProxy cli)) (\<lambda>httpsProxy.
     if httpProxy = None \<and> httpsProxy = None \<and> tproxy = None \<and> redirect = None then Inl (BadFlag ''no data listeners'')
     else
     bindR (if cf_Control cli \<noteq> [] then Inr (cf_Control cli)
            else if defaultControlPath env = [] then Inl (BadFlag ''control'') else Inr (''unix://'' @ defaultControlPath env)) (\<lambda>controlSpec.
     bindR (parseListener G ''control'' [''tcp'', ''unix''] controlSpec) (\<lambda>control.
     bindR (parseNonNegativeSeconds ''rules-cache-ttl'' (cf_RulesCacheTTL cli)) (\<lambda>ttl.
     bindR (parseSizeFlag ''http-header-limit'' 1 (cf_HTTPHeaderLimit cli)) (\<lambda>headerLimit.
     bindR (parseSizeFlag ''http-body-window'' 0 (cf_HTTPBodyWindow cli)) (\<lambda>bodyWindow.
     bindR (parsePositiveSeconds ''http-timeout-connect'' (cf_HTTPTimeoutConnect cli)) (\<lambda>connectTimeout.
     bindR (parsePositiveSeconds ''http-timeout-read'' (cf_HTTPTimeoutRead cli)) (\<lambda>readTimeout.
     bindR (parsePositiveInt ''http-connect-tries'' (cf_HTTPConnectTries cli)) (\<lambda>connectTries.
     bindR (parsePositiveSeconds ''http-timeout-client-read'' (cf_HTTPTimeoutClientRead cli)) (\<lambda>clientReadTimeout.
     bindR (parsePositiveSeconds ''http2-timeout-connect'' (cf_HTTP2TimeoutConnect cli)) (\<lambda>h2ConnectTimeout.
     bindR (parsePositiveSeconds ''http2-timeout-read'' (cf_HTTP2TimeoutRead cli)) (\<lambda>h2ReadTimeout.
     bindR (parsePositiveInt ''http2-connect-tries'' (cf_HTTP2ConnectTries cli)) (\<lambda>h2ConnectTries.
     bindR (parsePositiveSeconds ''outcall-timeout-connect'' (cf_OutcallTimeoutConnect cli)) (\<lambda>outcallConnectTimeout.
     bindR (parsePositiveSeconds ''outcall-timeout-read'' (cf_OutcallTimeoutRead cli)) (\<lambda>outcallReadTimeout.
     bindR (parsePositiveInt ''outcall-max-inflight'' (cf_OutcallMaxInflight cli)) (\<lambda>maxInflight.
     bindR (ParseLogLevel G (cf_LogLevel cli)) (\<lambda>level.
     bindR (ParseLogFormat (cf_LogFormat cli)) (\<lambda>format.
     bindR (checkSink G ''otel-metrics'' [''http'', ''unix''] (cf_OtelMetrics cli)) (\<lambda>metrics.
     bindR (checkSink G ''otel-traces'' otelTraceSchemes (cf_OtelTraces cli)) (\<lambda>traces.
     if float_less (cf_OtelSampleRatio cli) (Finite 0) \<or> float_less (Finite 1) (cf_OtelSampleRatio cli) then Inl (BadFlag ''otel-sample-ratio'')
     else
     bindR (parseSizeFlag ''otel-spool-max-size'' 1 (cf_OtelSpoolMaxSize cli)) (\<lambda>spoolMaxSize.
     if cf_OtelSpoolMaxAge cli \<le> 0 then Inl (BadFlag ''otel-spool-max-age'')
     else
     bindR (ParseTrustedProxies (cf_TrustedProxies cli)) (\<lambda>trusted.
     Inr \<lparr>cg_Storage = storage, cg_HTTPProxy = httpProxy, cg_HTTPSProxy = httpsProxy, cg_HTTPTProxy = tproxy, cg_HTTPRedirect = redirect,
       cg_Control = control, cg_ClusterKey = key, cg_RulesCacheTTL = ttl, cg_HTTPHeaderLimit = headerLimit, cg_HTTPBodyWindow = bodyWindow,
       cg_HTTPConnectTimeout = connectTimeout, cg_HTTPReadTimeout = readTimeout, cg_HTTPConnectTries = connectTries,
       cg_HTTPClientReadTimeout = clientReadTimeout, cg_HTTP2ConnectTimeout = h2ConnectTimeout, cg_HTTP2ReadTimeout = h2ReadTimeout,
       cg_HTTP2ConnectTries = h2ConnectTries, cg_OutcallConnectTimeout = outcallConnectTimeout, cg_OutcallReadTimeout = outcallReadTimeout,
       cg_OutcallMaxInflight = maxInflight, cg_LogLevel = level, cg_LogFormat = format, cg_NoAccessLogs = cf_NoAccessLogs cli,
       cg_OtelMetrics = metrics, cg_OtelTraces = traces, cg_OtelResource = cf_OtelResource cli, cg_OtelSampleRatio = cf_OtelSampleRatio cli,
       cg_OtelPropagateUpstream = cf_OtelPropagateUpstream cli, cg_OtelContinueClient = cf_OtelContinueClient cli,
       cg_OtelSpoolMaxSize = spoolMaxSize, cg_OtelSpoolMaxAge = cf_OtelSpoolMaxAge cli, cg_TrustedProxies = trusted\<rparr>)))))))))))))))))))))))))))"

subsection \<open>Opening the backend\<close>

definition expandTilde :: "procEnv \<Rightarrow> string \<Rightarrow> string option" where
  "expandTilde env path =
     (if path \<noteq> ''~'' \<and> \<not> HasPrefix path ''~/'' then Some path
      else case pe_HomeDir env of
        None \<Rightarrow> None
      | Some home \<Rightarrow> Some (if path = ''~'' then home else filepath_Join home (TrimPrefix path ''~/'')))"

record s3Config =
  s3_Host :: string
  s3_AccessKey :: string
  s3_SecretKey :: string
  s3_Bucket :: string
  s3_Region :: string
  s3_Secure :: bool

datatype backend = PosixBackend string | S3Backend s3Config

datatype openError = InvalidURL | MissingPath | NoHome | UnsupportedScheme string | MissingBucket | MissingCredentials | InvalidSecure string | MissingHost

definition ParseBool :: "string \<Rightarrow> bool option" where
  "ParseBool s =
     (if s \<in> set [''1'', ''t'', ''T'', ''TRUE'', ''true'', ''True''] then Some True
      else if s \<in> set [''0'', ''f'', ''F'', ''FALSE'', ''false'', ''False''] then Some False
      else None)"

definition newS3Storage :: "goURL \<Rightarrow> (openError, backend) res" where
  "newS3Storage u =
     (if query_Get u ''bucket'' = [] then Inl MissingBucket
      else
        let region = (if query_Get u ''region'' = [] then ''us-east-1'' else query_Get u ''region'') in
        case (case u_User u of Some i \<Rightarrow> (ui_username i, ui_password i) | None \<Rightarrow> ([], None)) of
          (accessKey, secret) \<Rightarrow>
            (case (accessKey = [], secret) of
               (False, Some secretKey) \<Rightarrow>
                 (case (if query_Get u ''secure'' = [] then Some True else ParseBool (query_Get u ''secure'')) of
                    None \<Rightarrow> Inl (InvalidSecure (query_Get u ''secure''))
                  | Some secure \<Rightarrow>
                      if u_Host u = [] then Inl MissingHost
                      else Inr (S3Backend \<lparr>s3_Host = u_Host u, s3_AccessKey = accessKey, s3_SecretKey = secretKey,
                             s3_Bucket = query_Get u ''bucket'', s3_Region = region, s3_Secure = secure\<rparr>))
             | _ \<Rightarrow> Inl MissingCredentials))"

definition Open :: "golib \<Rightarrow> procEnv \<Rightarrow> string \<Rightarrow> (openError, backend) res" where
  "Open G env raw =
     (case url_Parse G raw of
        None \<Rightarrow> Inl InvalidURL
      | Some u \<Rightarrow>
          if u_Scheme u = ''posix'' then
            (let base = u_Host u @ u_Path u in
             if base = [] then Inl MissingPath
             else case expandTilde env base of None \<Rightarrow> Inl NoHome | Some expanded \<Rightarrow> Inr (PosixBackend expanded))
          else if u_Scheme u = ''s3'' then newS3Storage u
          else Inl (UnsupportedScheme (u_Scheme u)))"

subsection \<open>What an accepted configuration promises\<close>

definition saneAddr :: "string list \<Rightarrow> listenAddr \<Rightarrow> bool" where
  "saneAddr schemes a \<longleftrightarrow> la_Scheme a \<in> set schemes \<and> 0 \<le> la_Port a \<and> la_Port a \<le> 65535"

definition wfConfig :: "Config \<Rightarrow> bool" where
  "wfConfig c \<longleftrightarrow>
     minClusterKeyBytes \<le> length (cg_ClusterKey c) \<and>
     \<not> (cg_HTTPProxy c = None \<and> cg_HTTPSProxy c = None \<and> cg_HTTPTProxy c = None \<and> cg_HTTPRedirect c = None) \<and>
     pred_option (saneAddr [''tcp'', ''unix'']) (cg_HTTPProxy c) \<and>
     pred_option (\<lambda>h. saneAddr [''tcp''] (hp_Addr h) \<and> hp_Names h \<noteq> []) (cg_HTTPSProxy c) \<and>
     pred_option (saneAddr [''tcp'']) (cg_HTTPTProxy c) \<and> pred_option (saneAddr [''tcp'']) (cg_HTTPRedirect c) \<and>
     saneAddr [''tcp'', ''unix''] (cg_Control c) \<and>
     0 < cg_HTTPHeaderLimit c \<and> 0 \<le> cg_HTTPBodyWindow c \<and> 0 < cg_OtelSpoolMaxSize c \<and> 0 < cg_OtelSpoolMaxAge c \<and>
     0 < cg_HTTPConnectTries c \<and> 0 < cg_HTTP2ConnectTries c \<and> 0 < cg_OutcallMaxInflight c \<and>
     cg_LogLevel c \<in> {LevelDebug, LevelInfo, LevelWarn, LevelError, LevelCritical} \<and> cg_LogFormat c \<in> set logFormats"

text \<open>The seven timeouts, as flags in seconds and as durations.\<close>

definition timeoutFlags :: "cliFlags \<Rightarrow> int list" where
  "timeoutFlags cli =
     [cf_HTTPTimeoutConnect cli, cf_HTTPTimeoutRead cli, cf_HTTPTimeoutClientRead cli, cf_HTTP2TimeoutConnect cli,
      cf_HTTP2TimeoutRead cli, cf_OutcallTimeoutConnect cli, cf_OutcallTimeoutRead cli]"

definition timeouts :: "Config \<Rightarrow> int list" where
  "timeouts c =
     [cg_HTTPConnectTimeout c, cg_HTTPReadTimeout c, cg_HTTPClientReadTimeout c, cg_HTTP2ConnectTimeout c,
      cg_HTTP2ReadTimeout c, cg_OutcallConnectTimeout c, cg_OutcallReadTimeout c]"

text \<open>An environment and flags as the documentation starts the proxy, for concrete evaluations.\<close>

definition labProc :: procEnv where
  "labProc =
     \<lparr>pe_Getenv = (\<lambda>v. if v = ''XDG_RUNTIME_DIR'' then ''/run/user/1000'' else []), pe_HomeDir = Some ''/home/op''\<rparr>"

definition labFlags :: cliFlags where
  "labFlags =
     \<lparr>cf_Storage = [], cf_ListenHTTPProxy = ''tcp://*:3128'', cf_ListenHTTPSProxy = [], cf_ListenHTTPTProxy = [],
      cf_ListenHTTPRedirect = ''tcp://[::1]:3130'', cf_Control = [], cf_ClusterKey = replicate 43 CHR ''A'' @ ''='', cf_RulesCacheTTL = 1,
      cf_HTTPHeaderLimit = ''64k'', cf_HTTPBodyWindow = ''64k'', cf_HTTPTimeoutConnect = 2, cf_HTTPTimeoutRead = 60, cf_HTTPConnectTries = 3,
      cf_HTTPTimeoutClientRead = 30, cf_HTTP2TimeoutConnect = 2, cf_HTTP2TimeoutRead = 60, cf_HTTP2ConnectTries = 3,
      cf_OutcallTimeoutConnect = 1, cf_OutcallTimeoutRead = 2, cf_OutcallMaxInflight = 64, cf_LogLevel = ''info'', cf_LogFormat = ''plain'',
      cf_NoAccessLogs = False, cf_OtelMetrics = [], cf_OtelTraces = [], cf_OtelResource = [],
      cf_OtelSampleRatio = Finite (1 / 10), cf_OtelPropagateUpstream = False, cf_OtelContinueClient = False, cf_OtelSpoolMaxSize = ''128m'',
      cf_OtelSpoolMaxAge = 3600000000000, cf_TrustedProxies = ''10.0.0.0/8,192.0.2.1''\<rparr>"

subsection \<open>Lemmas\<close>

lemma parsePort_bounds: "parsePort str = Some port \<Longrightarrow> 0 \<le> port \<and> port \<le> 65535"
  by (auto simp: parsePort_def split: option.splits if_splits)

lemma config_ParseAddr_wf:
  "config_ParseAddr G s = Inr a \<Longrightarrow> la_Scheme a \<in> {''tcp'', ''udp'', ''unix''} \<and> 0 \<le> la_Port a \<and> la_Port a \<le> 65535 \<and>
     (la_Scheme a = ''unix'' \<longrightarrow> la_Path a \<noteq> [])"
  by (auto simp: config_ParseAddr_def Let_def split: option.splits if_splits dest: parsePort_bounds)

lemma parseListener_wf:
  "parseListener G flag schemes s = Inr a \<Longrightarrow> la_Scheme a \<in> set schemes \<and> 0 \<le> la_Port a \<and> la_Port a \<le> 65535"
  by (auto simp: parseListener_def split: if_splits dest: config_ParseAddr_wf)

lemma ParseHTTPSProxyAddr_wf:
  "ParseHTTPSProxyAddr G s = Inr h \<Longrightarrow> la_Scheme (hp_Addr h) = ''tcp'' \<and> 0 \<le> la_Port (hp_Addr h) \<and> la_Port (hp_Addr h) \<le> 65535 \<and> hp_Names h \<noteq> []"
  by (auto simp: ParseHTTPSProxyAddr_def Let_def defaultHTTPSProxyPort_def split: option.splits if_splits dest: parsePort_bounds)

lemma optional_Inr: "optional f s = Inr x \<Longrightarrow> x = None \<or> (\<exists>a. f s = Inr a \<and> x = Some a)"
  by (auto simp: optional_def split: if_splits)

lemma ParseLogLevel_named: "ParseLogLevel G s = Inr l \<Longrightarrow> l \<in> {LevelDebug, LevelInfo, LevelWarn, LevelError, LevelCritical}"
  by (auto simp: ParseLogLevel_def logLevels_def split: option.splits if_splits)

lemma saneAddr_Inr: "parseListener G flag schemes s = Inr a \<Longrightarrow> saneAddr schemes a"
  by (simp add: saneAddr_def parseListener_wf)

lemma optional_listener:
  "optional (parseListener G flag schemes) s = Inr x \<Longrightarrow> pred_option (saneAddr schemes) x"
  by (auto dest!: optional_Inr simp: saneAddr_Inr)

lemma optional_https:
  "optional (ParseHTTPSProxyAddr G) s = Inr x \<Longrightarrow> pred_option (\<lambda>h. saneAddr [''tcp''] (hp_Addr h) \<and> hp_Names h \<noteq> []) x"
  by (auto dest!: optional_Inr simp: saneAddr_def ParseHTTPSProxyAddr_wf)

lemma parseClusterKey_length: "parseClusterKey s = Inr key \<Longrightarrow> minClusterKeyBytes \<le> length key"
  by (auto simp: parseClusterKey_def split: if_splits option.splits)

lemma parseSizeFlag_least: "parseSizeFlag flag least s = Inr n \<Longrightarrow> least \<le> n"
  by (auto simp: parseSizeFlag_def split: if_splits)

lemma parsePositiveInt_Inr: "parsePositiveInt flag n = Inr m \<Longrightarrow> 0 < m"
  by (auto simp: parsePositiveInt_def split: if_splits)

lemma ParseLogFormat_Inr: "ParseLogFormat s = Inr f \<Longrightarrow> f \<in> set logFormats"
  by (auto simp: ParseLogFormat_def split: if_splits)

lemma parsePositiveSeconds_Inr: "parsePositiveSeconds flag n = Inr d \<Longrightarrow> 0 < n \<and> d = seconds n"
  by (auto simp: parsePositiveSeconds_def split: if_splits)

lemma seconds_exact: "0 \<le> n \<Longrightarrow> n \<le> 9223372036 \<Longrightarrow> seconds n = n * 1000000000"
  by (simp add: seconds_def wrap64_id)

lemmas flag_facts = saneAddr_Inr optional_listener optional_https parseClusterKey_length parseSizeFlag_least parsePositiveInt_Inr
  ParseLogFormat_Inr ParseLogLevel_named parsePositiveSeconds_Inr

lemma guard_Inr_iff: "(if refused then Inl e else r) = Inr b \<longleftrightarrow> \<not> refused \<and> r = Inr b"
  by simp

lemma config_Parse_accepted:
  "config_Parse G env cli = Inr c \<Longrightarrow>
     wfConfig c \<and> list_all (\<lambda>n. 0 < n) (timeoutFlags cli) \<and> timeouts c = map seconds (timeoutFlags cli) \<and>
     \<not> float_less (cg_OtelSampleRatio c) (Finite 0) \<and> \<not> float_less (Finite 1) (cg_OtelSampleRatio c)"
  unfolding config_Parse_def bindR_Inr_iff guard_Inr_iff
  apply (elim exE conjE)
  apply (drule flag_facts)+
  apply (simp only: sum.inject)
  apply hypsubst
  apply (simp add: wfConfig_def timeouts_def timeoutFlags_def)
  done

lemma map_seconds_exact:
  "list_all (\<lambda>n. 0 < n \<and> n \<le> 9223372036) ns \<Longrightarrow> map seconds ns = map (\<lambda>n. n * 1000000000) ns"
  by (auto simp: list_all_iff intro!: seconds_exact)

lemma ratio_in_range:
  "\<not> float_less (Finite q) (Finite 0) \<Longrightarrow> \<not> float_less (Finite 1) (Finite q) \<Longrightarrow> 0 \<le> q \<and> q \<le> 1"
  by (simp add: float_less_def)

text \<open>A positive number of seconds above that bound is accepted and becomes a negative timeout; a size wraps to nothing.\<close>

lemma parsePositiveSeconds_wraps: "parsePositiveSeconds flag 9223372037 = Inr (- 9223372036709551616)"
  by (simp add: parsePositiveSeconds_def seconds_def wrap64_def)

lemma ParseSize_wraps: "ParseSize ''17179869184g'' = Inr 0"
  by code_simp

lemma NaN_accepted: "\<not> float_less NaN (Finite 0) \<and> \<not> float_less (Finite 1) NaN"
  by (simp add: float_less_def)

lemma labFlags_accepted:
  "case config_Parse plainLib labProc labFlags of
     Inr cfg \<Rightarrow>
       cg_Storage cfg = ''posix:///home/op/.cache/mitmania'' \<and> cg_HTTPSProxy cfg = None \<and> cg_ClusterKey cfg = replicate 32 (CHR 0x00) \<and>
       cg_OtelMetrics cfg = [] \<and> cg_OtelTraces cfg = [] \<and> cg_OtelResource cfg = []
   | Inl _ \<Rightarrow> False"
  by code_simp

text \<open>
  C29.
  A configuration that \<^const>\<open>config_Parse\<close> accepts is in range: the cluster key has its 32 bytes, there is a data
  listener, every address has a scheme its listener supports and a port of 16 bits, the limits and counts are
  positive, level and format are known ones, a finite sample ratio lies between 0 and 1; and each of the seven
  timeouts is a positive duration of exactly the seconds of its flag, when the flag is at most 9223372036.
\<close>

theorem accepted_config_in_range:
  assumes "config_Parse G env cli = Inr c" "list_all (\<lambda>n. n \<le> 9223372036) (timeoutFlags cli)"
  shows "wfConfig c \<and> timeouts c = map (\<lambda>n. n * 1000000000) (timeoutFlags cli) \<and> list_all (\<lambda>d. 0 < d) (timeouts c) \<and>
    (cg_OtelSampleRatio c = Finite q \<longrightarrow> 0 \<le> q \<and> q \<le> 1)"
proof -
  note ok = config_Parse_accepted [OF assms(1)]
  have "list_all (\<lambda>n. 0 < n \<and> n \<le> 9223372036) (timeoutFlags cli)"
    using ok assms(2) by (simp add: list_all_iff)
  note exact = map_seconds_exact [OF this]
  show ?thesis using ok ratio_in_range by (auto simp: exact list_all_iff)
qed

theorem accepted_config_in_range_witness:
  "\<exists>c. config_Parse plainLib labProc labFlags = Inr c \<and> wfConfig c \<and> hd (timeouts c) = 2000000000"
proof -
  obtain c where c: "config_Parse plainLib labProc labFlags = Inr c" using labFlags_accepted by (auto split: sum.splits)
  have "list_all (\<lambda>n. n \<le> 9223372036) (timeoutFlags labFlags)" by code_simp
  from accepted_config_in_range [OF c this, of 0] c show ?thesis
    by (auto simp: timeoutFlags_def labFlags_def)
qed

end
