(* ===== verification/Telemetry.thy ===== *)
theory Telemetry
  imports Config
begin

text \<open>
  Telemetry, \<open>src/internal/telemetry/\<close>: the resource, the choice of sinks with what fails on the way, the instruments
  with the labels they record, the conversion of spans to the export format, and the rotating spool of the file
  sink. The OpenTelemetry SDK and the system calls are parameters. The properties: no acknowledged batch is lost from
  the spool and no spool file outgrows its limit by more than a line; a batch keeps every span, grouped by scope.
\<close>

subsection \<open>The resource\<close>

datatype telemetryError =
    InvalidAttribute string | BadSink string | NeedsHost | NeedsPath | StaleSocket | ExporterFailed | ListenFailed | ChmodFailed
  | InstrumentFailed string | SpoolDir | SpoolOpen | SpoolWrite | MarshalFailed

definition splitNonEmpty :: "string \<Rightarrow> char \<Rightarrow> string list" where
  "splitNonEmpty s sep = (if s = [] then [] else filter (\<lambda>part. part \<noteq> []) (Split s sep))"

definition defaultServiceName :: string where "defaultServiceName = ''mitmania''"

fun resourcePairs :: "string list \<Rightarrow> (string \<rightharpoonup> string) \<Rightarrow> (telemetryError, string \<rightharpoonup> string) res" where
  "resourcePairs [] attrs = Inr attrs"
| "resourcePairs (pair # pairs) attrs =
     (if CHR ''='' \<notin> set pair then Inl (InvalidAttribute pair)
      else
        let (k0, v0) = cutOr pair CHR ''=''; k = TrimSpace k0; v = TrimSpace v0 in
        if k = [] then Inl (InvalidAttribute pair) else resourcePairs pairs (attrs(k \<mapsto> v)))"

definition buildResource :: "string \<Rightarrow> string \<Rightarrow> (telemetryError, string \<rightharpoonup> string) res" where
  "buildResource nodeID raw =
     bindR (resourcePairs (splitNonEmpty raw CHR '','') [''service.name'' \<mapsto> defaultServiceName])
       (\<lambda>attrs. Inr (attrs(''service.instance.id'' \<mapsto> nodeID)))"

subsection \<open>Metrics\<close>

definition defaultScrapePath :: string where "defaultScrapePath = ''/metrics''"

text \<open>
  What the scrape endpoint asks of the system: whether a stale socket file can be cleared (or is absent), whether the
  exporter can be built, the address a listener is bound to, and whether the socket's mode can be set.
\<close>

record metricsSys =
  ms_Remove :: "string \<Rightarrow> bool"
  ms_Exporter :: bool
  ms_Listen :: "string \<Rightarrow> string \<Rightarrow> string option"
  ms_Chmod :: "string \<Rightarrow> bool"

record MetricsProvider =
  mp_Addr :: string
  mp_Path :: string
  mp_serving :: bool

definition setupMetrics :: "golib \<Rightarrow> metricsSys \<Rightarrow> string \<Rightarrow> (telemetryError, MetricsProvider) res" where
  "setupMetrics G ms raw =
     (if raw = [] then Inr \<lparr>mp_Addr = [], mp_Path = [], mp_serving = False\<rparr>
      else
        bindR (case url_Parse G raw of
                 Some u \<Rightarrow> if u_Scheme u = ''http'' \<or> u_Scheme u = ''unix'' then Inr u else Inl (BadSink raw)
               | None \<Rightarrow> Inl (BadSink raw)) (\<lambda>u.
        bindR (if u_Scheme u = ''http'' then
                 (if u_Host u = [] then Inl NeedsHost else Inr (''tcp'', u_Host u, u_Path u))
               else if u_Path u = [] then Inl NeedsPath
               else if \<not> ms_Remove ms (u_Path u) then Inl StaleSocket
               else Inr (''unix'', u_Path u, [])) (\<lambda>(network, addr, path0).
        let path = (if path0 = [] then defaultScrapePath else path0) in
        if \<not> ms_Exporter ms then Inl ExporterFailed
        else case ms_Listen ms network addr of
          None \<Rightarrow> Inl ListenFailed
        | Some bound \<Rightarrow>
            if network = ''unix'' \<and> \<not> ms_Chmod ms addr then Inl ChmodFailed
            else Inr \<lparr>mp_Addr = bound, mp_Path = path, mp_serving = True\<rparr>)))"

definition instrumentNames :: "string list" where
  "instrumentNames = map ((@) ''mitmania.'')
     [''connections.active'', ''connections.total'', ''requests.total'', ''request.duration'', ''bytes.streamed'',
      ''upstream.dials.total'', ''upstream.dial.duration'', ''upstream.ttfb'', ''upstream.reconnects.total'',
      ''tls.handshake.duration'', ''cert.mints.total'', ''cert.cache.total'', ''cert.duration'',
      ''rules.compiles.total'', ''rules.active_clients'', ''rules.compile.duration'',
      ''outcall.total'', ''outcall.inflight'', ''outcall.duration'', ''outcall.cache.total'', ''storage.op.duration'']"

text \<open>
  \<open>NewMetrics\<close>: each creation assigns its error to \<open>err\<close> itself before \<open>reg\<close> looks at it, so \<open>reg\<close> never has an
  empty \<open>err\<close> to fill. \<open>create\<close> is the meter: the error of creating an instrument.
\<close>

definition reg :: "telemetryError option \<Rightarrow> telemetryError option \<Rightarrow> telemetryError option" where
  "reg e err = (if e \<noteq> None \<and> err = None then e else err)"

definition NewMetrics :: "(string \<Rightarrow> telemetryError option) \<Rightarrow> (telemetryError, unit) res" where
  "NewMetrics create =
     (case fold (\<lambda>name err. let err = create name in reg err err) instrumentNames None of Some e \<Rightarrow> Inl e | None \<Rightarrow> Inr ())"

text \<open>The instruments: what a call records, with its labels; \<open>None\<close> is the nil receiver.\<close>

datatype measurement = CounterAdd string int "(string \<times> string) list" | HistogramRecord string int "(string \<times> string) list"

definition whenOn :: "unit option \<Rightarrow> measurement list \<Rightarrow> measurement list" where
  "whenOn m ms = (case m of None \<Rightarrow> [] | Some _ \<Rightarrow> ms)"

definition ConnectionOpened :: "unit option \<Rightarrow> string \<Rightarrow> string \<Rightarrow> measurement list" where
  "ConnectionOpened m listener transport =
     (let attrs = [(''listener'', listener), (''transport'', transport)] in
      whenOn m [CounterAdd ''connections.active'' 1 attrs, CounterAdd ''connections.total'' 1 attrs])"

definition ConnectionClosed :: "unit option \<Rightarrow> string \<Rightarrow> string \<Rightarrow> measurement list" where
  "ConnectionClosed m listener transport =
     whenOn m [CounterAdd ''connections.active'' (- 1) [(''listener'', listener), (''transport'', transport)]]"

definition metrics_Request :: "unit option \<Rightarrow> string \<Rightarrow> string \<Rightarrow> string \<Rightarrow> string \<Rightarrow> string \<Rightarrow> int \<Rightarrow> measurement list" where
  "metrics_Request m proto outcome statusClass verdict mitm d =
     whenOn m
       [CounterAdd ''requests.total'' 1
          [(''proto'', proto), (''outcome'', outcome), (''status_class'', statusClass), (''verdict'', verdict), (''mitm'', mitm)],
        HistogramRecord ''request.duration'' d [(''proto'', proto)]]"

definition BytesStreamed :: "unit option \<Rightarrow> string \<Rightarrow> int \<Rightarrow> measurement list" where
  "BytesStreamed m direction n = (if n = 0 then [] else whenOn m [CounterAdd ''bytes.streamed'' n [(''direction'', direction)]])"

definition UpstreamDial :: "unit option \<Rightarrow> string \<Rightarrow> string \<Rightarrow> int \<Rightarrow> measurement list" where
  "UpstreamDial m proto result d =
     whenOn m
       [CounterAdd ''upstream.dials.total'' 1 [(''result'', result)],
        HistogramRecord ''upstream.dial.duration'' d [(''proto'', proto), (''result'', result)]]"

definition UpstreamTTFB :: "unit option \<Rightarrow> string \<Rightarrow> int \<Rightarrow> measurement list" where
  "UpstreamTTFB m proto d = whenOn m [HistogramRecord ''upstream.ttfb'' d [(''proto'', proto)]]"

definition UpstreamReconnect :: "unit option \<Rightarrow> string \<Rightarrow> measurement list" where
  "UpstreamReconnect m reason = whenOn m [CounterAdd ''upstream.reconnects.total'' 1 [(''reason'', reason)]]"

definition TLSHandshake :: "unit option \<Rightarrow> string \<Rightarrow> string \<Rightarrow> int \<Rightarrow> measurement list" where
  "TLSHandshake m leg result d = whenOn m [HistogramRecord ''tls.handshake.duration'' d [(''leg'', leg), (''result'', result)]]"

definition CertMint :: "unit option \<Rightarrow> string \<Rightarrow> measurement list" where
  "CertMint m kind = whenOn m [CounterAdd ''cert.mints.total'' 1 [(''kind'', kind)]]"

definition metrics_CertCache :: "unit option \<Rightarrow> string \<Rightarrow> measurement list" where
  "metrics_CertCache m result = whenOn m [CounterAdd ''cert.cache.total'' 1 [(''result'', result)]]"

definition CertDuration :: "unit option \<Rightarrow> string \<Rightarrow> string \<Rightarrow> int \<Rightarrow> measurement list" where
  "CertDuration m op cacheResult d = whenOn m [HistogramRecord ''cert.duration'' d [(''op'', op), (''cache_result'', cacheResult)]]"

definition RuleCompile :: "unit option \<Rightarrow> string \<Rightarrow> int \<Rightarrow> measurement list" where
  "RuleCompile m result d =
     whenOn m [CounterAdd ''rules.compiles.total'' 1 [(''result'', result)], HistogramRecord ''rules.compile.duration'' d [(''result'', result)]]"

definition RulesActiveClients :: "unit option \<Rightarrow> int \<Rightarrow> measurement list" where
  "RulesActiveClients m delta = whenOn m [CounterAdd ''rules.active_clients'' delta []]"

definition OutcallResult :: "unit option \<Rightarrow> string \<Rightarrow> string \<Rightarrow> measurement list" where
  "OutcallResult m action result = whenOn m [CounterAdd ''outcall.total'' 1 [(''action'', action), (''result'', result)]]"

definition OutcallInflight :: "unit option \<Rightarrow> int \<Rightarrow> measurement list" where
  "OutcallInflight m delta = whenOn m [CounterAdd ''outcall.inflight'' delta []]"

definition OutcallDuration :: "unit option \<Rightarrow> string \<Rightarrow> string \<Rightarrow> int \<Rightarrow> measurement list" where
  "OutcallDuration m action cacheResult d =
     whenOn m [HistogramRecord ''outcall.duration'' d [(''action'', action), (''cache_result'', cacheResult)]]"

definition OutcallCache :: "unit option \<Rightarrow> string \<Rightarrow> measurement list" where
  "OutcallCache m result = whenOn m [CounterAdd ''outcall.cache.total'' 1 [(''result'', result)]]"

definition StorageOp :: "unit option \<Rightarrow> string \<Rightarrow> string \<Rightarrow> string \<Rightarrow> int \<Rightarrow> measurement list" where
  "StorageOp m op backend result d =
     whenOn m [HistogramRecord ''storage.op.duration'' d [(''op'', op), (''backend'', backend), (''result'', result)]]"

subsection \<open>Spans in the export format\<close>

datatype attrValue =
    BOOL bool | INT64 int | FLOAT64 float64 | STRING string
  | BOOLSLICE "bool list" | INT64SLICE "int list" | FLOAT64SLICE "float64 list" | STRINGSLICE "string list" | OTHER string

datatype AnyValue = BoolValue bool | IntValue int | DoubleValue float64 | StringValue string | ArrayValue "AnyValue list"

fun valueToOTLP :: "attrValue \<Rightarrow> AnyValue" where
  "valueToOTLP (BOOL b) = BoolValue b"
| "valueToOTLP (INT64 n) = IntValue n"
| "valueToOTLP (FLOAT64 f) = DoubleValue f"
| "valueToOTLP (STRING s) = StringValue s"
| "valueToOTLP (BOOLSLICE bs) = ArrayValue (map BoolValue bs)"
| "valueToOTLP (INT64SLICE ns) = ArrayValue (map IntValue ns)"
| "valueToOTLP (FLOAT64SLICE fs) = ArrayValue (map DoubleValue fs)"
| "valueToOTLP (STRINGSLICE ss) = ArrayValue (map StringValue ss)"
| "valueToOTLP (OTHER rendered) = StringValue rendered"

definition attrsToOTLP :: "(string \<times> attrValue) list \<Rightarrow> (string \<times> AnyValue) list" where
  "attrsToOTLP attrs = map (\<lambda>(k, v). (k, valueToOTLP v)) attrs"

datatype spanCode = CodeUnset | CodeError | CodeOk

datatype otlpStatus = STATUS_CODE_UNSET | STATUS_CODE_OK | STATUS_CODE_ERROR

definition statusCodeToOTLP :: "spanCode \<Rightarrow> otlpStatus" where
  "statusCodeToOTLP c = (case c of CodeOk \<Rightarrow> STATUS_CODE_OK | CodeError \<Rightarrow> STATUS_CODE_ERROR | _ \<Rightarrow> STATUS_CODE_UNSET)"

definition spanKindToOTLP :: "int \<Rightarrow> 32 word" where
  "spanKindToOTLP k = word_of_int k"

record SpanContext =
  sc_TraceID :: "byte list"
  sc_SpanID :: "byte list"
  sc_TraceState :: string

definition HasSpanID :: "SpanContext \<Rightarrow> bool" where
  "HasSpanID sc \<longleftrightarrow> list_ex (\<lambda>b. b \<noteq> 0) (sc_SpanID sc)"

record spanEvent =
  ev_Time :: int
  ev_Name :: string
  ev_Attributes :: "(string \<times> attrValue) list"
  ev_Dropped :: int

record spanLink =
  ln_SpanContext :: SpanContext
  ln_Attributes :: "(string \<times> attrValue) list"
  ln_Dropped :: int

record ReadOnlySpan =
  ro_Scope :: "string \<times> string"
  ro_SpanContext :: SpanContext
  ro_Parent :: SpanContext
  ro_Name :: string
  ro_SpanKind :: int
  ro_StartTime :: int
  ro_EndTime :: int
  ro_Attributes :: "(string \<times> attrValue) list"
  ro_DroppedAttributes :: int
  ro_DroppedEvents :: int
  ro_DroppedLinks :: int
  ro_Description :: string
  ro_Code :: spanCode
  ro_Events :: "spanEvent list"
  ro_Links :: "spanLink list"
  ro_Resource :: "(string \<times> attrValue) list"

record otlpEvent =
  oe_TimeUnixNano :: "64 word"
  oe_Name :: string
  oe_Attributes :: "(string \<times> AnyValue) list"
  oe_Dropped :: "32 word"

record otlpLink =
  ol_TraceId :: "byte list"
  ol_SpanId :: "byte list"
  ol_TraceState :: string
  ol_Attributes :: "(string \<times> AnyValue) list"
  ol_Dropped :: "32 word"

record otlpSpan =
  os_TraceId :: "byte list"
  os_SpanId :: "byte list"
  os_TraceState :: string
  os_ParentSpanId :: "byte list"
  os_Name :: string
  os_Kind :: "32 word"
  os_StartTimeUnixNano :: "64 word"
  os_EndTimeUnixNano :: "64 word"
  os_Attributes :: "(string \<times> AnyValue) list"
  os_DroppedAttributesCount :: "32 word"
  os_DroppedEventsCount :: "32 word"
  os_DroppedLinksCount :: "32 word"
  os_Status :: "string \<times> otlpStatus"
  os_Events :: "otlpEvent list"
  os_Links :: "otlpLink list"

definition spanToOTLP :: "ReadOnlySpan \<Rightarrow> otlpSpan" where
  "spanToOTLP s =
     \<lparr>os_TraceId = sc_TraceID (ro_SpanContext s), os_SpanId = sc_SpanID (ro_SpanContext s), os_TraceState = sc_TraceState (ro_SpanContext s),
      os_ParentSpanId = (if HasSpanID (ro_Parent s) then sc_SpanID (ro_Parent s) else []),
      os_Name = ro_Name s, os_Kind = spanKindToOTLP (ro_SpanKind s),
      os_StartTimeUnixNano = word_of_int (ro_StartTime s), os_EndTimeUnixNano = word_of_int (ro_EndTime s),
      os_Attributes = attrsToOTLP (ro_Attributes s), os_DroppedAttributesCount = word_of_int (ro_DroppedAttributes s),
      os_DroppedEventsCount = word_of_int (ro_DroppedEvents s), os_DroppedLinksCount = word_of_int (ro_DroppedLinks s),
      os_Status = (ro_Description s, statusCodeToOTLP (ro_Code s)),
      os_Events = map (\<lambda>e. \<lparr>oe_TimeUnixNano = word_of_int (ev_Time e), oe_Name = ev_Name e, oe_Attributes = attrsToOTLP (ev_Attributes e),
        oe_Dropped = word_of_int (ev_Dropped e)\<rparr>) (ro_Events s),
      os_Links = map (\<lambda>l. \<lparr>ol_TraceId = sc_TraceID (ln_SpanContext l), ol_SpanId = sc_SpanID (ln_SpanContext l),
        ol_TraceState = sc_TraceState (ln_SpanContext l), ol_Attributes = attrsToOTLP (ln_Attributes l),
        ol_Dropped = word_of_int (ln_Dropped l)\<rparr>) (ro_Links s)\<rparr>"

text \<open>An export request: the resource with its spans by scope; the request for no span is empty.\<close>

type_synonym exportRequest = "((string \<times> AnyValue) list \<times> ((string \<times> string) \<times> otlpSpan list) list) option"

definition groupSpan :: "ReadOnlySpan \<Rightarrow> (string \<times> string) list \<times> (string \<times> string \<Rightarrow> otlpSpan list option) \<Rightarrow>
    (string \<times> string) list \<times> (string \<times> string \<Rightarrow> otlpSpan list option)" where
  "groupSpan s acc =
     (let (order, byScope) = acc; key = ro_Scope s in
      case byScope key of
        None \<Rightarrow> (order @ [key], byScope(key \<mapsto> [spanToOTLP s]))
      | Some spans \<Rightarrow> (order, byScope(key \<mapsto> spans @ [spanToOTLP s])))"

definition spansToOTLP :: "ReadOnlySpan list \<Rightarrow> exportRequest" where
  "spansToOTLP spans =
     (case spans of
        [] \<Rightarrow> None
      | first # _ \<Rightarrow>
          let (order, byScope) = fold groupSpan spans ([], \<lambda>_. None) in
          Some (attrsToOTLP (ro_Resource first), map (\<lambda>key. (key, case byScope key of Some ss \<Rightarrow> ss | None \<Rightarrow> [])) order))"

subsection \<open>The spool\<close>

text \<open>
  The spool directory: its files in the order of their creation. A file handle is its path and whether it is still
  open. The clock and the outcomes of the system calls of one call are its input: the time the age is taken at, the
  time stamp of a new name, the time noted for it, whether a file can be opened, and how many bytes a failing write
  puts into the file (\<open>None\<close> for a write that completes).
\<close>

type_synonym spool = "(string \<times> string) list"

record rotatingFile =
  rf_dir :: string
  rf_maxSize :: int
  rf_maxAge :: int
  rf_f :: "(string \<times> bool) option"
  rf_size :: int
  rf_opened :: int

record spoolCall =
  sp_now :: int
  sp_stamp :: string
  sp_opened :: int
  sp_open_ok :: bool
  sp_short :: "nat option"

definition spoolPath :: "string \<Rightarrow> string \<Rightarrow> string" where
  "spoolPath dir stamp = filepath_Join dir (''otel-traces-'' @ stamp @ ''.jsonl'')"

definition openAppend :: "string \<Rightarrow> spool \<Rightarrow> spool" where
  "openAppend path sp = (if path \<in> fst ` set sp then sp else sp @ [(path, [])])"

definition appendTo :: "string \<Rightarrow> string \<Rightarrow> spool \<Rightarrow> spool" where
  "appendTo path data sp = map (\<lambda>(p, content). (p, if p = path then content @ data else content)) sp"

definition rotate_spool :: "rotatingFile \<Rightarrow> spoolCall \<Rightarrow> spool \<Rightarrow> telemetryError option \<times> rotatingFile \<times> spool" where
  "rotate_spool rf call sp =
     (let closed = rf\<lparr>rf_f := map_option (\<lambda>(path, _). (path, False)) (rf_f rf)\<rparr>; path = spoolPath (rf_dir rf) (sp_stamp call) in
      if \<not> sp_open_ok call then (Some SpoolOpen, closed, sp)
      else (None, rf\<lparr>rf_f := Some (path, True), rf_size := 0, rf_opened := sp_opened call\<rparr>, openAppend path sp))"

definition newRotatingFile :: "string \<Rightarrow> int \<Rightarrow> int \<Rightarrow> bool \<Rightarrow> spoolCall \<Rightarrow> spool \<Rightarrow> (telemetryError, rotatingFile) res \<times> spool" where
  "newRotatingFile dir maxSize maxAge mkdir_ok call sp =
     (if \<not> mkdir_ok then (Inl SpoolDir, sp)
      else
        case rotate_spool \<lparr>rf_dir = dir, rf_maxSize = maxSize, rf_maxAge = maxAge, rf_f = None, rf_size = 0, rf_opened = 0\<rparr> call sp of
          (Some e, _, sp') \<Rightarrow> (Inl e, sp')
        | (None, rf, sp') \<Rightarrow> (Inr rf, sp'))"

definition writeFile :: "rotatingFile \<Rightarrow> string \<Rightarrow> spoolCall \<Rightarrow> spool \<Rightarrow> (telemetryError option \<times> nat) \<times> spool" where
  "writeFile rf data call sp =
     (case rf_f rf of
        Some (path, True) \<Rightarrow>
          (case sp_short call of
             None \<Rightarrow> ((None, length data), appendTo path data sp)
           | Some n \<Rightarrow> ((Some SpoolWrite, length (take n data)), appendTo path (take n data) sp))
      | _ \<Rightarrow> ((Some SpoolWrite, 0), sp))"

definition WriteLine :: "rotatingFile \<Rightarrow> string \<Rightarrow> spoolCall \<Rightarrow> spool \<Rightarrow> telemetryError option \<times> rotatingFile \<times> spool" where
  "WriteLine rf line call sp =
     (case (if rf_maxSize rf \<le> rf_size rf \<or> rf_maxAge rf \<le> sp_now call - rf_opened rf then rotate_spool rf call sp else (None, rf, sp)) of
        (Some e, rf', sp') \<Rightarrow> (Some e, rf', sp')
      | (None, rf', sp') \<Rightarrow>
          (case writeFile rf' (line @ ''\<newline>'') call sp' of
             ((e, n), sp'') \<Rightarrow> (e, rf'\<lparr>rf_size := rf_size rf' + int n\<rparr>, sp'')))"

definition spool_Close :: "rotatingFile \<Rightarrow> rotatingFile" where
  "spool_Close rf = rf\<lparr>rf_f := None\<rparr>"

definition ExportSpans :: "(exportRequest \<Rightarrow> string option) \<Rightarrow> rotatingFile \<Rightarrow> ReadOnlySpan list \<Rightarrow> spoolCall \<Rightarrow> spool \<Rightarrow>
    telemetryError option \<times> rotatingFile \<times> spool" where
  "ExportSpans marshal rf spans call sp =
     (if spans = [] then (None, rf, sp)
      else case marshal (spansToOTLP spans) of
        None \<Rightarrow> (Some MarshalFailed, rf, sp)
      | Some line \<Rightarrow> WriteLine rf line call sp)"

text \<open>A sequence of exports, with the lines acknowledged so far.\<close>

fun exportAll :: "(exportRequest \<Rightarrow> string option) \<Rightarrow> (ReadOnlySpan list \<times> spoolCall) list \<Rightarrow> rotatingFile \<times> spool \<times> string list \<Rightarrow>
    rotatingFile \<times> spool \<times> string list" where
  "exportAll marshal [] st = st"
| "exportAll marshal ((spans, call) # rest) (rf, sp, acked) =
     (case ExportSpans marshal rf spans call sp of
        (e, rf', sp') \<Rightarrow>
          exportAll marshal rest
            (rf', sp', if e = None \<and> spans \<noteq> [] then acked @ (case marshal (spansToOTLP spans) of Some line \<Rightarrow> [line] | None \<Rightarrow> []) else acked))"

subsection \<open>Sinks\<close>

datatype traceSink = NoSink | OtlpGRPC string bool | OtlpHTTP string bool | StdoutSink | FileSink rotatingFile

definition insecureParam :: "goURL \<Rightarrow> bool" where
  "insecureParam u \<longleftrightarrow> ParseBool (query_Get u ''insecure'') = Some True"

text \<open>\<open>mk\<close> tells whether the SDK's own exporter for a sink can be built.\<close>

definition setupTraces :: "golib \<Rightarrow> (traceSink \<Rightarrow> bool) \<Rightarrow> string \<Rightarrow> int \<Rightarrow> int \<Rightarrow> bool \<Rightarrow> spoolCall \<Rightarrow> spool \<Rightarrow>
    (telemetryError, traceSink) res \<times> spool" where
  "setupTraces G mk raw spoolMaxSize spoolMaxAge mkdir_ok call sp =
     (let built = (\<lambda>sink. if mk sink then Inr sink else Inl ExporterFailed) in
      if raw = [] then (Inr NoSink, sp)
      else case url_Parse G raw of
        None \<Rightarrow> (Inl (BadSink raw), sp)
      | Some u \<Rightarrow>
          if u_Scheme u = ''otlp+grpc'' then (built (OtlpGRPC (u_Host u) (insecureParam u)), sp)
          else if u_Scheme u = ''otlp+http'' then (built (OtlpHTTP (u_Host u) (insecureParam u)), sp)
          else if u_Scheme u = ''stdout'' then (built StdoutSink, sp)
          else if u_Scheme u = ''file'' then
            (if u_Path u = [] then (Inl NeedsPath, sp)
             else case newRotatingFile (u_Path u) spoolMaxSize spoolMaxAge mkdir_ok call sp of
               (Inl e, sp') \<Rightarrow> (Inl e, sp')
             | (Inr rf, sp') \<Rightarrow> (Inr (FileSink rf), sp'))
          else (Inl (BadSink raw), sp))"

record Providers =
  pr_Resource :: "string \<rightharpoonup> string"
  pr_Metrics :: MetricsProvider
  pr_Traces :: traceSink

text \<open>What start-up asks of its surroundings for telemetry.\<close>

record telemetryEnv =
  te_nodeID :: string
  te_metrics :: metricsSys
  te_create :: "string \<Rightarrow> telemetryError option"
  te_make :: "traceSink \<Rightarrow> bool"
  te_mkdir :: bool
  te_call :: spoolCall

text \<open>\<open>Setup\<close>, with whether a scrape endpoint is left serving.\<close>

definition Setup :: "golib \<Rightarrow> telemetryEnv \<Rightarrow> Config \<Rightarrow> spool \<Rightarrow> (telemetryError, Providers) res \<times> bool \<times> spool" where
  "Setup G te cfg sp =
     (case buildResource (te_nodeID te) (cg_OtelResource cfg) of
        Inl e \<Rightarrow> (Inl e, False, sp)
      | Inr attrs \<Rightarrow>
          (case setupMetrics G (te_metrics te) (cg_OtelMetrics cfg) of
             Inl e \<Rightarrow> (Inl e, False, sp)
           | Inr mp \<Rightarrow>
               (case NewMetrics (te_create te) of
                  Inl e \<Rightarrow> (Inl e, False, sp)
                | Inr _ \<Rightarrow>
                    (case setupTraces G (te_make te) (cg_OtelTraces cfg) (cg_OtelSpoolMaxSize cfg) (cg_OtelSpoolMaxAge cfg) (te_mkdir te) (te_call te) sp of
                       (Inl e, sp') \<Rightarrow> (Inl e, False, sp')
                     | (Inr sink, sp') \<Rightarrow> (Inr \<lparr>pr_Resource = attrs, pr_Metrics = mp, pr_Traces = sink\<rparr>, mp_serving mp, sp')))))"

subsection \<open>Trace context\<close>

text \<open>\<open>inject\<close> and \<open>extract\<close> are the SDK's propagator.\<close>

definition InjectAlways :: "('c \<Rightarrow> header \<Rightarrow> header) \<Rightarrow> 'c \<Rightarrow> header \<Rightarrow> header" where
  "InjectAlways inject ctx h = inject ctx h"

definition InjectUpstream :: "('c \<Rightarrow> header \<Rightarrow> header) \<Rightarrow> 'c \<Rightarrow> header \<Rightarrow> bool \<Rightarrow> header" where
  "InjectUpstream inject ctx h enabled = (if \<not> enabled then h else InjectAlways inject ctx h)"

definition ExtractClient :: "('c \<Rightarrow> header \<Rightarrow> 'c) \<Rightarrow> 'c \<Rightarrow> header \<Rightarrow> bool \<Rightarrow> 'c" where
  "ExtractClient extract ctx h enabled = (if \<not> enabled then ctx else extract ctx h)"

subsection \<open>Lemmas\<close>

lemma resourcePairs_keep: "resourcePairs pairs attrs = Inr attrs' \<Longrightarrow> attrs k \<noteq> None \<Longrightarrow> attrs' k \<noteq> None"
  by (induction pairs attrs arbitrary: attrs' rule: resourcePairs.induct) (auto simp: Let_def split: if_splits prod.splits)

lemma buildResource_identity:
  "buildResource nodeID raw = Inr attrs \<Longrightarrow> attrs ''service.instance.id'' = Some nodeID \<and> attrs ''service.name'' \<noteq> None"
  by (auto simp: buildResource_def dest: resourcePairs_keep [where k = "''service.name''"])

text \<open>Only the last instrument's error is seen: \<open>NewMetrics\<close> answers with instruments that were never created.\<close>

lemma reg_same: "reg e e = e"
  by (simp add: reg_def)

lemma NewMetrics_last: "NewMetrics create = (case create ''mitmania.storage.op.duration'' of Some e \<Rightarrow> Inl e | None \<Rightarrow> Inr ())"
  by (simp add: NewMetrics_def instrumentNames_def reg_same Let_def)

lemma Setup_no_leak: "Setup G te cfg sp = (Inl e, serving, sp') \<Longrightarrow> \<not> serving"
  by (auto simp: Setup_def split: sum.splits prod.splits)

text \<open>The host part of a socket URL is dropped, unlike in \<^const>\<open>config_ParseAddr\<close>.\<close>

lemma metrics_socket_at_root:
  "setupMetrics plainLib \<lparr>ms_Remove = (\<lambda>_. True), ms_Exporter = True, ms_Listen = (\<lambda>network addr. Some addr), ms_Chmod = (\<lambda>_. True)\<rparr>
     ''unix://./m.sock'' = Inr \<lparr>mp_Addr = ''/m.sock'', mp_Path = ''/metrics'', mp_serving = True\<rparr> \<and>
   config_ParseAddr plainLib ''unix://./m.sock'' = Inr \<lparr>la_Scheme = ''unix'', la_Host = [], la_Port = 0, la_Path = ''./m.sock''\<rparr>"
  by (intro conjI; code_simp)

text \<open>The scopes of a batch in the order of their first spans.\<close>

definition scopeOrder :: "ReadOnlySpan list \<Rightarrow> (string \<times> string) list" where
  "scopeOrder spans = rev (remdups (rev (map ro_Scope spans)))"

lemma fold_groupSpan:
  "fold groupSpan spans ([], \<lambda>_. None) =
     (scopeOrder spans, \<lambda>k. if k \<in> ro_Scope ` set spans then Some (map spanToOTLP (filter (\<lambda>s. ro_Scope s = k) spans)) else None)"
proof (induction spans rule: rev_induct)
  case Nil
  then show ?case by (simp add: scopeOrder_def)
next
  case (snoc s spans)
  have none: "filter (\<lambda>x. ro_Scope x = ro_Scope s) spans = []" if "ro_Scope s \<notin> ro_Scope ` set spans"
    using that by (auto simp only: filter_empty_conv intro: image_eqI [OF sym])
  have step: "fold groupSpan (spans @ [s]) ([], \<lambda>_. None) = groupSpan s (scopeOrder spans,
      \<lambda>k. if k \<in> ro_Scope ` set spans then Some (map spanToOTLP (filter (\<lambda>s. ro_Scope s = k) spans)) else None)"
    using snoc.IH by simp
  show ?case unfolding step
    by (auto simp: groupSpan_def Let_def scopeOrder_def none fun_eq_iff)
qed

lemma scopeOrder_set: "set (scopeOrder spans) = ro_Scope ` set spans"
  by (simp add: scopeOrder_def)

text \<open>
  A batch is exported as a grouping of exactly its spans: one group per scope, in the order of first appearance and
  without repetition, each holding the converted spans of that scope in their order, under the resource of the
  batch.
\<close>

theorem export_keeps_every_span:
  "spansToOTLP (s # spans) =
     Some (attrsToOTLP (ro_Resource s),
       map (\<lambda>key. (key, map spanToOTLP (filter (\<lambda>x. ro_Scope x = key) (s # spans)))) (scopeOrder (s # spans))) \<and>
   distinct (scopeOrder (s # spans)) \<and> set (scopeOrder (s # spans)) = ro_Scope ` set (s # spans)"
proof -
  have "spansToOTLP (s # spans) = Some (attrsToOTLP (ro_Resource s),
      map (\<lambda>key. (key, map spanToOTLP (filter (\<lambda>x. ro_Scope x = key) (s # spans)))) (scopeOrder (s # spans)))"
    unfolding spansToOTLP_def list.case fold_groupSpan by (auto simp: scopeOrder_set)
  then show ?thesis by (simp only: scopeOrder_set) (simp add: scopeOrder_def)
qed

subsection \<open>Nothing acknowledged is lost\<close>

definition spoolText :: "string list \<Rightarrow> string" where
  "spoolText acked = concat (map (\<lambda>line. line @ ''\<newline>'') acked)"

text \<open>A file is empty or was below the limit before its last line.\<close>

definition boundedFile :: "int \<Rightarrow> string list \<Rightarrow> string \<Rightarrow> bool" where
  "boundedFile maxSize acked content \<longleftrightarrow>
     content = [] \<or> (\<exists>pre line. content = pre @ line @ ''\<newline>'' \<and> int (length pre) < maxSize \<and> line \<in> set acked)"

definition spoolInv :: "spool \<Rightarrow> string set \<Rightarrow> rotatingFile \<Rightarrow> spool \<Rightarrow> string list \<Rightarrow> bool" where
  "spoolInv old future rf sp acked \<longleftrightarrow>
     (\<exists>news. sp = old @ news \<and> concat (map snd news) = spoolText acked \<and>
        list_all (boundedFile (rf_maxSize rf) acked) (map snd news) \<and>
        distinct (map fst sp) \<and> fst ` set sp \<inter> future = {} \<and>
        (case rf_f rf of
           Some (path, True) \<Rightarrow> (\<exists>body content. news = body @ [(path, content)] \<and> rf_size rf = int (length content))
         | _ \<Rightarrow> True))"

lemma appendTo_last:
  assumes "distinct (map fst (sp @ [(path, content)]))"
  shows "appendTo path data (sp @ [(path, content)]) = sp @ [(path, content @ data)]"
proof -
  have "map (\<lambda>(p, c). (p, if p = path then c @ data else c)) sp = sp"
    using assms by (intro map_idI) force
  then show ?thesis by (simp add: appendTo_def)
qed

lemma boundedFile_more: "boundedFile maxSize acked content \<Longrightarrow> boundedFile maxSize (acked @ later) content"
  by (auto simp: boundedFile_def)

lemma spoolInv_future: "spoolInv old future rf sp acked \<Longrightarrow> future' \<subseteq> future \<Longrightarrow> spoolInv old future' rf sp acked"
  unfolding spoolInv_def by blast

lemma spoolInv_closed:
  assumes "spoolInv old future rf sp acked" "rf_maxSize rf' = rf_maxSize rf" "\<nexists>path. rf_f rf' = Some (path, True)"
  shows "spoolInv old future rf' sp acked"
proof -
  obtain news where "sp = old @ news" "concat (map snd news) = spoolText acked"
      "list_all (boundedFile (rf_maxSize rf) acked) (map snd news)" "distinct (map fst sp)" "fst ` set sp \<inter> future = {}"
    using assms(1) unfolding spoolInv_def by blast
  moreover have "case rf_f rf' of Some (path, True) \<Rightarrow> Q path | _ \<Rightarrow> True" for Q
    using assms(3) by (auto split: option.splits bool.splits)
  ultimately show ?thesis unfolding spoolInv_def assms(2) by (intro exI [of _ news]) simp
qed

lemma rotate_inv:
  assumes "spoolInv old (insert (spoolPath (rf_dir rf) (sp_stamp call)) future) rf sp acked"
    and "rotate_spool rf call sp = (e, rf', sp')" and "spoolPath (rf_dir rf) (sp_stamp call) \<notin> future"
  shows "spoolInv old future rf' sp' acked \<and> rf_maxSize rf' = rf_maxSize rf \<and> rf_dir rf' = rf_dir rf \<and> (e = None \<longrightarrow> rf_size rf' = 0)"
proof (cases "sp_open_ok call")
  case False
  then have rot: "e = Some SpoolOpen" "sp' = sp" "rf' = rf\<lparr>rf_f := map_option (\<lambda>(path, _). (path, False)) (rf_f rf)\<rparr>"
    using assms(2) by (auto simp: rotate_spool_def Let_def)
  have "spoolInv old future rf' sp acked"
    by (rule spoolInv_closed [OF spoolInv_future [OF assms(1) subset_insertI]]) (auto simp: rot)
  then show ?thesis by (simp add: rot)
next
  case True
  let ?path = "spoolPath (rf_dir rf) (sp_stamp call)"
  have rot: "e = None" "sp' = openAppend ?path sp" "rf' = rf\<lparr>rf_f := Some (?path, True), rf_size := 0, rf_opened := sp_opened call\<rparr>"
    using assms(2) True by (auto simp: rotate_spool_def Let_def)
  obtain news where news: "sp = old @ news" "concat (map snd news) = spoolText acked"
      "list_all (boundedFile (rf_maxSize rf) acked) (map snd news)" "distinct (map fst sp)" "fst ` set sp \<inter> insert ?path future = {}"
    using assms(1) by (auto simp: spoolInv_def)
  then have fresh: "openAppend ?path sp = old @ news @ [(?path, [])]" by (auto simp: openAppend_def)
  have "spoolInv old future rf' sp' acked"
    unfolding spoolInv_def rot fresh using news assms(3)
    by (intro exI [of _ "news @ [(?path, [])]"]) (auto simp: boundedFile_def)
  then show ?thesis by (simp add: rot)
qed

lemma write_inv:
  assumes "spoolInv old future rf sp acked" "rf_size rf < rf_maxSize rf" "sp_short call = None"
    and "writeFile rf (line @ ''\<newline>'') call sp = ((e, n), sp')"
  shows "spoolInv old future (rf\<lparr>rf_size := rf_size rf + int n\<rparr>) sp' (if e = None then acked @ [line] else acked)"
proof (cases "\<exists>path. rf_f rf = Some (path, True)")
  case False
  then have "e = Some SpoolWrite" "n = 0" "sp' = sp"
    using assms(4) by (auto simp: writeFile_def split: option.splits bool.splits)
  then show ?thesis using spoolInv_closed [OF assms(1), of rf] False by simp
next
  case True
  then obtain path where f: "rf_f rf = Some (path, True)" by blast
  obtain body content where b: "sp = (old @ body) @ [(path, content)]" "concat (map snd body) @ content = spoolText acked"
      "list_all (boundedFile (rf_maxSize rf) acked) (map snd body)" "distinct (map fst sp)" "fst ` set sp \<inter> future = {}"
      "rf_size rf = int (length content)"
    using assms(1) by (auto simp: spoolInv_def f)
  have w: "e = None" "n = length line + 1" "sp' = (old @ body) @ [(path, content @ line @ ''\<newline>'')]"
    using assms(3,4) appendTo_last [OF b(4) [unfolded b(1)], of "line @ ''\<newline>''"]
    by (auto simp: writeFile_def f b(1))
  have "boundedFile (rf_maxSize rf) (acked @ [line]) (content @ line @ ''\<newline>'')"
    unfolding boundedFile_def using assms(2) b(6) by (intro disjI2 exI [of _ content] exI [of _ line]) simp
  then show ?thesis
    unfolding spoolInv_def w using b
    by (intro exI [of _ "body @ [(path, content @ line @ ''\<newline>'')]"])
      (auto simp: f spoolText_def list_all_iff boundedFile_more)
qed

lemma WriteLine_inv:
  assumes "spoolInv old (insert (spoolPath (rf_dir rf) (sp_stamp call)) future) rf sp acked"
    and "spoolPath (rf_dir rf) (sp_stamp call) \<notin> future" "0 < rf_maxSize rf" "sp_short call = None"
    and "WriteLine rf line call sp = (e, rf', sp')"
  shows "spoolInv old future rf' sp' (if e = None then acked @ [line] else acked) \<and> rf_maxSize rf' = rf_maxSize rf \<and> rf_dir rf' = rf_dir rf"
proof -
  obtain e1 rf1 sp1 where r: "(if rf_maxSize rf \<le> rf_size rf \<or> rf_maxAge rf \<le> sp_now call - rf_opened rf
      then rotate_spool rf call sp else (None, rf, sp)) = (e1, rf1, sp1)"
    by (rule prod_cases3)
  have one: "spoolInv old future rf1 sp1 acked \<and> rf_maxSize rf1 = rf_maxSize rf \<and> rf_dir rf1 = rf_dir rf \<and> (e1 = None \<longrightarrow> rf_size rf1 < rf_maxSize rf1)"
  proof (cases "rf_maxSize rf \<le> rf_size rf \<or> rf_maxAge rf \<le> sp_now call - rf_opened rf")
    case True
    then have "rotate_spool rf call sp = (e1, rf1, sp1)" using r by simp
    from rotate_inv [OF assms(1) this assms(2)] assms(3) show ?thesis by simp
  next
    case False
    then have "rf1 = rf" "sp1 = sp" "rf_size rf < rf_maxSize rf" using r by auto
    then show ?thesis using spoolInv_future [OF assms(1) subset_insertI] by simp
  qed
  show ?thesis
  proof (cases e1)
    case (Some err)
    then show ?thesis using assms(5) one unfolding WriteLine_def r by (cases e) simp_all
  next
    case None
    obtain e2 n sp2 where w: "writeFile rf1 (line @ ''\<newline>'') call sp1 = ((e2, n), sp2)" by (metis prod.exhaust)
    have "e = e2" "rf' = rf1\<lparr>rf_size := rf_size rf1 + int n\<rparr>" "sp' = sp2"
      using assms(5) None w unfolding WriteLine_def r by auto
    then show ?thesis using write_inv [OF _ _ assms(4) w] one None by simp
  qed
qed

lemma exportAll_inv:
  assumes "spoolInv old (set (map (\<lambda>(_, call). spoolPath dir (sp_stamp call)) exports)) rf sp acked"
    and "distinct (map (\<lambda>(_, call). spoolPath dir (sp_stamp call)) exports)" "rf_dir rf = dir" "0 < rf_maxSize rf"
    and "list_all (\<lambda>(_, call). sp_short call = None) exports"
    and "exportAll marshal exports (rf, sp, acked) = (rf', sp', acked')"
  shows "spoolInv old {} rf' sp' acked' \<and> rf_maxSize rf' = rf_maxSize rf"
  using assms
proof (induction exports arbitrary: rf sp acked)
  case Nil
  then show ?case by simp
next
  case (Cons x exports)
  obtain spans call where x: "x = (spans, call)" by force
  let ?future = "set (map (\<lambda>(_, call). spoolPath dir (sp_stamp call)) exports)"
  obtain e rf1 sp1 where ex: "ExportSpans marshal rf spans call sp = (e, rf1, sp1)" by (metis prod_cases3)
  let ?acked = "if e = None \<and> spans \<noteq> [] then acked @ (case marshal (spansToOTLP spans) of Some line \<Rightarrow> [line] | None \<Rightarrow> []) else acked"
  have inv: "spoolInv old (insert (spoolPath (rf_dir rf) (sp_stamp call)) ?future) rf sp acked"
    and fresh: "spoolPath (rf_dir rf) (sp_stamp call) \<notin> ?future"
    using Cons.prems by (auto simp: x)
  have "spoolInv old ?future rf1 sp1 ?acked \<and> rf_maxSize rf1 = rf_maxSize rf \<and> rf_dir rf1 = rf_dir rf"
  proof (cases "spans = [] \<or> marshal (spansToOTLP spans) = None")
    case True
    then have "rf1 = rf" "sp1 = sp" "?acked = acked" using ex by (auto simp: ExportSpans_def split: if_splits)
    then show ?thesis using spoolInv_future [OF inv subset_insertI] by simp
  next
    case False
    then obtain line where l: "marshal (spansToOTLP spans) = Some line" "spans \<noteq> []" by auto
    then have "WriteLine rf line call sp = (e, rf1, sp1)" using ex by (simp add: ExportSpans_def)
    from WriteLine_inv [OF inv fresh Cons.prems(4) _ this] Cons.prems(5) show ?thesis by (cases e) (simp_all add: l x)
  qed
  note step = this
  have "exportAll marshal exports (rf1, sp1, ?acked) = (rf', sp', acked')"
    using Cons.prems(6) ex by (simp add: x)
  from Cons.IH [OF _ _ _ _ _ this] step Cons.prems(2-5) show ?case by (simp add: x)
qed

lemma newRotatingFile_inv:
  assumes "newRotatingFile dir maxSize maxAge mkdir_ok call old = (Inr rf, sp)"
    and "distinct (map fst old)" "spoolPath dir (sp_stamp call) \<notin> fst ` set old \<union> future" "fst ` set old \<inter> future = {}"
  shows "spoolInv old future rf sp [] \<and> rf_maxSize rf = maxSize \<and> rf_dir rf = dir"
proof -
  let ?rf = "\<lparr>rf_dir = dir, rf_maxSize = maxSize, rf_maxAge = maxAge, rf_f = None, rf_size = 0, rf_opened = 0\<rparr>"
  have rot: "rotate_spool ?rf call old = (None, rf, sp)"
    using assms(1) by (auto simp: newRotatingFile_def split: prod.splits option.splits if_splits)
  have "spoolInv old (insert (spoolPath dir (sp_stamp call)) future) ?rf old []"
    unfolding spoolInv_def using assms(2-4) by (intro exI [of _ "[]"]) (simp add: spoolText_def)
  from rotate_inv [of old ?rf call future old "[]", OF _ rot] this assms(3) show ?thesis by simp
qed

text \<open>
  C40.
  The file sink loses nothing it acknowledged: whatever rotations happen and whichever of them fail, the files the
  process adds to the spool directory hold exactly the acknowledged batches, one line each, in their order; the files
  that were there are untouched; and each new file was below its limit before its last line. It is assumed that the
  directory has no file of the same name, that time stamps differ, and that no write stops halfway.
\<close>

theorem spool_complete:
  assumes "newRotatingFile dir maxSize maxAge mkdir_ok call old = (Inr rf, sp)" and "0 < maxSize"
    and "distinct (map fst old @ map (\<lambda>c. spoolPath dir (sp_stamp c)) (call # map snd exports))"
    and "list_all (\<lambda>(_, c). sp_short c = None) exports"
    and "exportAll marshal exports (rf, sp, []) = (rf', sp', acked)"
  shows "\<exists>news. sp' = old @ news \<and> concat (map snd news) = spoolText acked \<and>
    list_all (boundedFile maxSize acked) (map snd news)"
proof -
  let ?stamps = "map (\<lambda>(_, c). spoolPath dir (sp_stamp c)) exports"
  have eq: "map (\<lambda>c. spoolPath dir (sp_stamp c)) (map snd exports) = ?stamps" by (simp add: case_prod_beta)
  have apart: "distinct (map fst old)" "distinct ?stamps" "spoolPath dir (sp_stamp call) \<notin> fst ` set old \<union> set ?stamps"
      "fst ` set old \<inter> set ?stamps = {}"
    using assms(3) unfolding list.map eq by auto
  from newRotatingFile_inv [OF assms(1) apart(1,3,4)]
  have inv: "spoolInv old (set ?stamps) rf sp []" "rf_maxSize rf = maxSize" "rf_dir rf = dir" by auto
  from exportAll_inv [OF inv(1) apart(2) inv(3) _ assms(4,5)] assms(2) inv(2)
  show ?thesis by (auto simp: spoolInv_def)
qed

text \<open>Three batches into a spool of at most ten bytes per file; the second rotation fails.\<close>

definition labSpan :: ReadOnlySpan where
  "labSpan =
     \<lparr>ro_Scope = (''mitmania'', []), ro_SpanContext = \<lparr>sc_TraceID = [1], sc_SpanID = [2], sc_TraceState = []\<rparr>,
      ro_Parent = \<lparr>sc_TraceID = [], sc_SpanID = [], sc_TraceState = []\<rparr>, ro_Name = ''request'', ro_SpanKind = 2, ro_StartTime = 1, ro_EndTime = 2,
      ro_Attributes = [], ro_DroppedAttributes = 0, ro_DroppedEvents = 0, ro_DroppedLinks = 0, ro_Description = [], ro_Code = CodeOk,
      ro_Events = [], ro_Links = [], ro_Resource = []\<rparr>"

definition labCall :: "string \<Rightarrow> bool \<Rightarrow> spoolCall" where
  "labCall stamp ok = \<lparr>sp_now = 5, sp_stamp = stamp, sp_opened = 5, sp_open_ok = ok, sp_short = None\<rparr>"

definition labExports :: "(ReadOnlySpan list \<times> spoolCall) list" where
  "labExports = [([labSpan], labCall ''b'' True), ([labSpan], labCall ''c'' False), ([labSpan], labCall ''d'' True)]"

definition labRotating :: rotatingFile where
  "labRotating = \<lparr>rf_dir = ''/s'', rf_maxSize = 10, rf_maxAge = 100, rf_f = Some (''/s/otel-traces-a.jsonl'', True), rf_size = 0, rf_opened = 5\<rparr>"

theorem spool_complete_witness:
  "\<exists>rf' sp' acked (news :: spool).
     exportAll (\<lambda>_. Some ''{resource}'') labExports (labRotating, [(''/s/otel-traces-a.jsonl'', [])], []) = (rf', sp', acked) \<and>
     length acked = 2 \<and> length news = 2 \<and> concat (map snd news) = spoolText acked"
proof -
  let ?run = "exportAll (\<lambda>_. Some ''{resource}'') labExports (labRotating, [(''/s/otel-traces-a.jsonl'', [])], [])"
  have start: "newRotatingFile ''/s'' 10 100 True (labCall ''a'' True) [] = (Inr labRotating, [(''/s/otel-traces-a.jsonl'', [])])"
    by code_simp
  have apart: "distinct (map fst ([] :: spool) @ map (\<lambda>c. spoolPath ''/s'' (sp_stamp c)) (labCall ''a'' True # map snd labExports))"
    by code_simp
  have whole: "list_all (\<lambda>(_, c). sp_short c = None) labExports" by code_simp
  have ends: "length (snd (snd ?run)) = 2 \<and> length (fst (snd ?run)) = 2" by code_simp
  obtain rf' sp' acked where r: "?run = (rf', sp', acked)" by (metis prod_cases3)
  from spool_complete [OF start _ apart whole r] obtain news
    where n: "sp' = [] @ news" "concat (map snd news) = spoolText acked" by auto
  moreover have "length acked = 2" "length news = 2" using ends r n(1) by auto
  ultimately have "?run = (rf', sp', acked) \<and> length acked = 2 \<and> length news = 2 \<and> concat (map snd news) = spoolText acked"
    using r by simp
  then show ?thesis by (intro exI)
qed

end
