(* ===== verification/Acceptors.thy ===== *)
theory Acceptors
  imports Authority
begin

text \<open>
  The acceptors of \<open>src/internal/session/\<close>: what a listener makes of a connection the kernel hands it. The session
  record itself is in \<open>Authority\<close>. A connection is what the acceptors ask of it: the two ends, whether it is a
  TCP connection, and the answers of the kernel to the destination options. The lemmas: ports survive the change of
  byte order; no session names an IPv4 peer by its IPv6 form. The property: a listener that is bound for both families
  makes the same session of an IPv4 connection as one bound for IPv4 alone.
\<close>

unbundle bit_operations_syntax

subsection \<open>Connections\<close>

datatype netAddr = TCPAddr "byte list" int | OtherAddr

text \<open>\<open>unix.RawSockaddrInet4\<close> and \<open>6\<close>: the port in network byte order and the address.\<close>

record rawSockaddr =
  raw_Port :: "16 word"
  raw_Addr :: "byte list"

record netConn =
  nc_Local :: netAddr
  nc_Remote :: netAddr
  nc_isTCP :: bool
  nc_SyscallConn :: bool
  nc_Control :: bool
  nc_originalDst4 :: "rawSockaddr option"
  nc_originalDst6 :: "rawSockaddr option"

datatype acceptError = ListenerClosed | ListenerError | NotTCP | NoSyscallConn | LocalNotTCP | NoControl | Getsockopt

subsection \<open>The destination before redirection\<close>

definition ntohs :: "16 word \<Rightarrow> 16 word" where
  "ntohs p = (drop_bit 8 p OR push_bit 8 p)"

text \<open>\<open>net.IP.To4\<close>: the four bytes of an IPv4 address in either form.\<close>

definition To4 :: "byte list \<Rightarrow> byte list option" where
  "To4 ip =
     (if length ip = 4 then Some ip
      else if length ip = 16 \<and> take 12 ip = replicate 10 0 @ [0xFF, 0xFF] then Some (drop 12 ip)
      else None)"

definition getOriginalDst4 :: "netConn \<Rightarrow> (acceptError, AddrPort) res" where
  "getOriginalDst4 c =
     (case nc_originalDst4 c of None \<Rightarrow> Inl Getsockopt | Some raw \<Rightarrow> Inr (v4Addr (raw_Addr raw), ntohs (raw_Port raw)))"

definition getOriginalDst6 :: "netConn \<Rightarrow> (acceptError, AddrPort) res" where
  "getOriginalDst6 c =
     (case nc_originalDst6 c of None \<Rightarrow> Inl Getsockopt | Some raw \<Rightarrow> Inr (v6Addr (raw_Addr raw) [], ntohs (raw_Port raw)))"

definition originalDst :: "netConn \<Rightarrow> (acceptError, AddrPort) res" where
  "originalDst c =
     (if \<not> nc_isTCP c then Inl NotTCP
      else if \<not> nc_SyscallConn c then Inl NoSyscallConn
      else case nc_Local c of
        OtherAddr \<Rightarrow> Inl LocalNotTCP
      | TCPAddr ip _ \<Rightarrow>
          if \<not> nc_Control c then Inl NoControl
          else if To4 ip \<noteq> None then getOriginalDst4 c else getOriginalDst6 c)"

subsection \<open>Accepting\<close>

definition peerAddr :: "netAddr \<Rightarrow> AddrPort option" where
  "peerAddr a = (case a of TCPAddr ip port \<Rightarrow> tcpAddrPort ip port | OtherAddr \<Rightarrow> None)"

datatype acceptor = HTTPProxyAcceptor string | RedirectAcceptor string | TProxyAcceptor string

text \<open>
  One call of \<open>Accept\<close> on what the listener returns: the session or the error, and whether the acceptor closed the
  connection itself.
\<close>

fun Accept :: "acceptor \<Rightarrow> (acceptError, netConn) res \<Rightarrow> (acceptError, Session) res \<times> bool" where
  "Accept a (Inl err) = (Inl err, False)"
| "Accept (HTTPProxyAcceptor name) (Inr c) =
     (Inr \<lparr>se_Client = peerAddr (nc_Remote c), se_Dst = None, se_Transport = TransportExplicit, se_Acceptor = name\<rparr>, False)"
| "Accept (RedirectAcceptor name) (Inr c) =
     (case originalDst c of
        Inl err \<Rightarrow> (Inl err, True)
      | Inr dst \<Rightarrow>
          (Inr \<lparr>se_Client = peerAddr (nc_Remote c), se_Dst = Some dst, se_Transport = TransportRedirect, se_Acceptor = name\<rparr>, False))"
| "Accept (TProxyAcceptor name) (Inr c) =
     (case nc_Local c of
        OtherAddr \<Rightarrow> (Inl LocalNotTCP, True)
      | TCPAddr ip port \<Rightarrow>
          (Inr \<lparr>se_Client = peerAddr (nc_Remote c), se_Dst = tcpAddrPort ip port, se_Transport = TransportTProxy, se_Acceptor = name\<rparr>, False))"

text \<open>
  The accept loop of \<open>src/cmd/mitmania/main.go\<close> on what the listener returns, each time with whether the process is
  being stopped: the sessions handed to the dispatcher in their order, and what is left when the loop returns.
\<close>

fun acceptLoop :: "acceptor \<Rightarrow> (bool \<times> (acceptError, netConn) res) list \<Rightarrow> Session list \<times> (bool \<times> (acceptError, netConn) res) list option" where
  "acceptLoop a [] = ([], None)"
| "acceptLoop a ((stopped, got) # rest) =
     (case fst (Accept a got) of
        Inl err \<Rightarrow> if stopped \<or> err = ListenerClosed then ([], Some rest) else acceptLoop a rest
      | Inr sess \<Rightarrow> (case acceptLoop a rest of (served, left) \<Rightarrow> (sess # served, left)))"

subsection \<open>Both families\<close>

text \<open>A connection as a listener bound for both families sees it: every IPv4 address in its IPv6 form.\<close>

definition mappedIP :: "byte list \<Rightarrow> byte list" where
  "mappedIP ip = (if length ip = 4 then replicate 10 0 @ [0xFF, 0xFF] @ ip else ip)"

fun mappedAddr :: "netAddr \<Rightarrow> netAddr" where
  "mappedAddr (TCPAddr ip port) = TCPAddr (mappedIP ip) port"
| "mappedAddr OtherAddr = OtherAddr"

definition dualStack :: "netConn \<Rightarrow> netConn" where
  "dualStack c = c\<lparr>nc_Local := mappedAddr (nc_Local c), nc_Remote := mappedAddr (nc_Remote c)\<rparr>"

lemma ntohs_ntohs: "ntohs (ntohs p) = p"
proof (rule bit_word_eqI)
  fix n assume "n < LENGTH(16)"
  then show "bit (ntohs (ntohs p)) n = bit p n"
    by (cases "n < 8") (auto simp: ntohs_def bit_simps)
qed

text \<open>The two bytes of a port in memory, read as a little-endian word, give the port back.\<close>

lemma ntohs_network: "ntohs (word_of_int (uint lo * 256 + uint hi)) = word_of_int (uint hi * 256 + uint lo)"
  for hi lo :: byte
proof -
  have w: "word_of_int (uint a * 256 + uint b) = (push_bit 8 (ucast a) OR ucast b :: 16 word)" for a b :: byte
  proof -
    have "word_of_int (uint a * 256 + uint b) = push_bit 8 (ucast a) + (ucast b :: 16 word)"
      by (simp add: push_bit_eq_mult mult.commute flip: ucast_eq)
    also have "\<dots> = push_bit 8 (ucast a) OR ucast b"
      by (rule disjunctive_add) (auto simp: bit_simps dest: bit_imp_le_length)
    finally show ?thesis .
  qed
  show ?thesis unfolding w
  proof (rule bit_word_eqI)
    fix n assume "n < LENGTH(16)"
    moreover have "\<not> bit x n" if "8 \<le> n" for x :: byte and n
      using that bit_imp_le_length [of x n] by auto
    ultimately show "bit (ntohs (push_bit 8 (ucast lo) OR ucast hi)) n = bit (push_bit 8 (ucast hi) OR ucast lo :: 16 word) n"
      by (cases "n < 8") (simp_all add: ntohs_def bit_simps)
  qed
qed

lemma Unmap_plain: "length (addr_bytes a) = (if addr_is4 a then 4 else 16) \<Longrightarrow> \<not> Is4In6 (Unmap a)"
  by (simp add: Unmap_def Is4In6_def v4Addr_def)

lemma tcpAddrPort_plain: "tcpAddrPort ip port = Some (addr, p) \<Longrightarrow> \<not> Is4In6 addr \<and> wfAddr addr"
  by (auto simp: tcpAddrPort_def AddrFromSlice_def Unmap_def Is4In6_def v4Addr_def v6Addr_def wfAddr_def split: if_splits)

lemma tcpAddrPort_mapped: "tcpAddrPort (mappedIP ip) port = tcpAddrPort ip port"
  by (simp add: tcpAddrPort_def mappedIP_def AddrFromSlice_def Unmap_def Is4In6_def v4Addr_def v6Addr_def)

lemma To4_mapped: "To4 (mappedIP ip) = To4 ip"
  by (simp add: To4_def mappedIP_def)

lemma peerAddr_mapped: "peerAddr (mappedAddr a) = peerAddr a"
  by (cases a) (simp_all add: peerAddr_def tcpAddrPort_mapped)

lemma peerAddr_dualStack: "peerAddr (nc_Remote (dualStack c)) = peerAddr (nc_Remote c)"
  by (simp add: dualStack_def peerAddr_mapped)

lemma originalDst_dualStack: "originalDst (dualStack c) = originalDst c"
  by (cases "nc_Local c") (simp_all add: originalDst_def dualStack_def To4_mapped getOriginalDst4_def getOriginalDst6_def)

lemma Accept_dualStack: "Accept a (Inr (dualStack c)) = Accept a (Inr c)"
proof (cases a)
  case (TProxyAcceptor name)
  then show ?thesis by (cases "nc_Local c") (simp_all add: dualStack_def peerAddr_mapped tcpAddrPort_mapped)
qed (simp_all add: originalDst_dualStack peerAddr_dualStack split: sum.splits)

lemma peerAddr_plain: "peerAddr a = Some (addr, p) \<Longrightarrow> \<not> Is4In6 addr \<and> wfAddr addr"
  by (auto simp: peerAddr_def tcpAddrPort_plain split: netAddr.splits)

lemma ClientKey_plain:
  assumes "fst (Accept a got) = Inr s"
  shows "\<not> Is4In6 (ClientKey s) \<and> wfAddr (ClientKey s)"
proof -
  obtain c where c: "got = Inr c" using assms by (cases got) auto
  have "se_Client s = peerAddr (nc_Remote c)"
    using assms by (cases a) (auto simp: c split: sum.splits netAddr.splits)
  then show ?thesis
    by (auto simp: ClientKey_def loopback_def Is4In6_def wfAddr_def v4Addr_def dest!: peerAddr_plain split: option.splits)
qed


text \<open>A connection that is not handed on as a session has been closed, unless there was none.\<close>

lemma Accept_closes: "fst (Accept a (Inr c)) = Inl err \<Longrightarrow> snd (Accept a (Inr c))"
  by (cases a) (auto split: sum.splits netAddr.splits)

text \<open>The loop serves every session up to the error it stops at and none of the connections after it.\<close>

definition accepted :: "acceptor \<Rightarrow> (bool \<times> (acceptError, netConn) res) list \<Rightarrow> Session list" where
  "accepted a evs = List.map_filter (\<lambda>(_, got). case fst (Accept a got) of Inr s \<Rightarrow> Some s | Inl _ \<Rightarrow> None) evs"

lemma acceptLoop_serves:
  "acceptLoop a evs = (served, left) \<Longrightarrow>
     (\<exists>seen. served = accepted a seen \<and>
        (case left of None \<Rightarrow> seen = evs | Some rest \<Rightarrow> \<exists>stopped err. evs = seen @ (stopped, err) # rest \<and> accepted a [(stopped, err)] = []))"
proof (induction evs arbitrary: served left)
  case Nil
  then show ?case by (simp add: accepted_def)
next
  case (Cons ev evs)
  obtain stopped got where ev: "ev = (stopped, got)" by force
  show ?case
  proof (cases "fst (Accept a got)")
    case (Inl err)
    show ?thesis
    proof (cases "stopped \<or> err = ListenerClosed")
      case True
      then show ?thesis using Cons.prems Inl by (auto simp: ev accepted_def intro!: exI [of _ "[]"])
    next
      case False
      then have "acceptLoop a evs = (served, left)" using Cons.prems Inl by (auto simp: ev)
      from Cons.IH [OF this] obtain seen where "served = accepted a seen" and
        "case left of None \<Rightarrow> seen = evs | Some rest \<Rightarrow> \<exists>stopped err. evs = seen @ (stopped, err) # rest \<and> accepted a [(stopped, err)] = []"
        by blast
      then show ?thesis
        by (intro exI [of _ "ev # seen"]) (auto simp: ev accepted_def Inl split: option.splits)
    qed
  next
    case (Inr s)
    obtain served' where l: "acceptLoop a evs = (served', left)" "served = s # served'"
      using Cons.prems Inr by (auto simp: ev split: prod.splits)
    from Cons.IH [OF l(1)] obtain seen where "served' = accepted a seen" and
      "case left of None \<Rightarrow> seen = evs | Some rest \<Rightarrow> \<exists>stopped err. evs = seen @ (stopped, err) # rest \<and> accepted a [(stopped, err)] = []"
      by blast
    then show ?thesis
      by (intro exI [of _ "ev # seen"]) (auto simp: ev l(2) accepted_def Inr split: option.splits)
  qed
qed

end
