(* ===== verification/Certs.thy ===== *)
theory Certs
  imports NetAddr Storage "HOL-Library.Multiset"
begin

text \<open>
  Certificates, \<open>src/internal/cert/\<close>: key derivation (\<open>keys.go\<close>), cloning (\<open>clone.go\<close>) and the signing authority (\<open>ca.go\<close>); the
  leaf cache and the factory (\<open>cache.go\<close>, \<open>factory.go\<close>, \<open>fallback.go\<close>, \<open>selfcert.go\<close>) follow in \<open>LeafCache\<close>. A key
  is named by its scalar and a signature by the key that made it. What \<open>crypto/x509\<close> does with a template is written
  out as far as the sources use it; hashing, HKDF, DER and PKCS#12 encodings are parameters.
\<close>

unbundle bit_operations_syntax

subsection \<open>Certificates\<close>

record Extension =
  ex_Id :: "nat list"
  ex_Critical :: bool
  ex_Value :: string

datatype pubKey = NoPublicKey | ECPublic string int | OtherPublic string

text \<open>A \<open>pkix.Name\<close>; \<open>nm_Others\<close> are its further attributes.\<close>

record pkixName =
  nm_Organization :: "string list"
  nm_CommonName :: string
  nm_Others :: "(string \<times> string list) list"

text \<open>An address of the SAN set is its text; a time is in seconds.\<close>

record Certificate =
  c_Raw :: string
  c_Version :: int
  c_Subject :: pkixName
  c_RawSubject :: string
  c_RawIssuer :: string
  c_SerialNumber :: int
  c_NotBefore :: int
  c_NotAfter :: int
  c_KeyUsage :: "64 word"
  c_ExtKeyUsage :: "int list"
  c_UnknownExtKeyUsage :: "nat list list"
  c_BasicConstraintsValid :: bool
  c_IsCA :: bool
  c_MaxPathLen :: int
  c_MaxPathLenZero :: bool
  c_Extensions :: "Extension list"
  c_ExtraExtensions :: "Extension list"
  c_DNSNames :: "string list"
  c_IPAddresses :: "string list"
  c_EmailAddresses :: "string list"
  c_URIs :: "string list"
  c_PublicKey :: pubKey
  c_Signer :: pubKey

record privKey =
  pk_Curve :: string
  pk_D :: int

definition Public :: "privKey \<Rightarrow> pubKey" where
  "Public k = ECPublic (pk_Curve k) (pk_D k)"

text \<open>
  \<open>cl_marshalName\<close> encodes a parsed name, \<open>cl_parseSAN\<close> reads a subject-alternative-name extension (DNS names, IP addresses,
  e-mail addresses, URIs), \<open>cl_DER\<close> and \<open>cl_buildExtensions\<close> are the encoder of \<open>crypto/x509\<close>; a trust store is a
  PKCS#12 file under a password.
\<close>

type_synonym sanSet = "string list \<times> string list \<times> string list \<times> string list"

record certlib =
  cl_sha256 :: "string \<Rightarrow> string"
  cl_hkdf :: "string \<Rightarrow> string \<Rightarrow> string \<Rightarrow> nat \<Rightarrow> string option"
  cl_uuid5 :: "string \<Rightarrow> string \<Rightarrow> string"
  cl_marshalName :: "pkixName \<Rightarrow> string"
  cl_parseSAN :: "string \<Rightarrow> sanSet option"
  cl_DER :: "Certificate \<Rightarrow> string"
  cl_buildExtensions :: "Certificate \<Rightarrow> Extension list"
  cl_encodeTrust :: "Certificate list \<Rightarrow> string \<Rightarrow> string option"
  cl_decodeTrust :: "string \<Rightarrow> string \<Rightarrow> Certificate list option"
  cl_encodeCA :: "privKey \<Rightarrow> Certificate \<Rightarrow> string \<Rightarrow> string option"
  cl_decodeCA :: "string \<Rightarrow> string \<Rightarrow> (privKey option \<times> Certificate \<times> Certificate list) option"
  cl_base64 :: "string \<Rightarrow> string"

definition oidSubjectAltName :: "nat list" where "oidSubjectAltName = [2, 5, 29, 17]"
definition oidBasicConstraints :: "nat list" where "oidBasicConstraints = [2, 5, 29, 19]"
definition oidKeyUsage :: "nat list" where "oidKeyUsage = [2, 5, 29, 15]"

definition KeyUsageDigitalSignature :: "64 word" where "KeyUsageDigitalSignature = 1"
definition KeyUsageKeyEncipherment :: "64 word" where "KeyUsageKeyEncipherment = 4"
definition KeyUsageCertSign :: "64 word" where "KeyUsageCertSign = 32"
definition KeyUsageCRLSign :: "64 word" where "KeyUsageCRLSign = 64"
definition ExtKeyUsageServerAuth :: int where "ExtKeyUsageServerAuth = 1"

definition findExtension :: "Extension list \<Rightarrow> nat list \<Rightarrow> Extension option" where
  "findExtension exts oid = find (\<lambda>e. ex_Id e = oid) exts"

text \<open>
  \<open>x509.CreateCertificate\<close> followed by \<open>x509.ParseCertificate\<close>: what the parsed certificate says of the template. An
  extra SAN extension overrides the template's names; a path length of zero without its flag means none.
\<close>

definition subjectBytes :: "certlib \<Rightarrow> Certificate \<Rightarrow> string" where
  "subjectBytes L c = (if c_RawSubject c \<noteq> [] then c_RawSubject c else cl_marshalName L (c_Subject c))"

definition issuable :: "Certificate \<Rightarrow> Certificate \<Rightarrow> privKey \<Rightarrow> bool" where
  "issuable tmpl parent priv \<longleftrightarrow>
     0 \<le> c_SerialNumber tmpl \<and>
     (c_BasicConstraintsValid tmpl \<longrightarrow> -1 \<le> c_MaxPathLen tmpl) \<and>
     (c_BasicConstraintsValid tmpl \<and> \<not> c_IsCA tmpl \<longrightarrow>
        c_MaxPathLen tmpl = -1 \<or> c_MaxPathLen tmpl = 0 \<and> \<not> c_MaxPathLenZero tmpl) \<and>
     (c_PublicKey parent \<noteq> NoPublicKey \<longrightarrow> c_PublicKey parent = Public priv)"

definition issue :: "certlib \<Rightarrow> Certificate \<Rightarrow> Certificate \<Rightarrow> pubKey \<Rightarrow> privKey \<Rightarrow> Certificate option" where
  "issue L tmpl parent pub priv =
     (if \<not> issuable tmpl parent priv then None
      else
        let pathLen = (if \<not> c_BasicConstraintsValid tmpl then 0
                       else if c_MaxPathLen tmpl = 0 \<and> \<not> c_MaxPathLenZero tmpl then -1 else c_MaxPathLen tmpl);
            sans = (case findExtension (c_ExtraExtensions tmpl) oidSubjectAltName of
                      Some e \<Rightarrow> cl_parseSAN L (ex_Value e)
                    | None \<Rightarrow> Some (c_DNSNames tmpl, c_IPAddresses tmpl, c_EmailAddresses tmpl, c_URIs tmpl)) in
        case sans of
          None \<Rightarrow> None
        | Some (dns, ips, emails, uris) \<Rightarrow>
            let c = tmpl\<lparr>c_Version := 3, c_RawSubject := subjectBytes L tmpl, c_RawIssuer := subjectBytes L parent,
                  c_IsCA := (c_BasicConstraintsValid tmpl \<and> c_IsCA tmpl),
                  c_MaxPathLen := pathLen, c_MaxPathLenZero := (c_BasicConstraintsValid tmpl \<and> pathLen = 0),
                  c_Extensions := cl_buildExtensions L tmpl, c_ExtraExtensions := [],
                  c_DNSNames := dns, c_IPAddresses := ips, c_EmailAddresses := emails, c_URIs := uris,
                  c_PublicKey := pub, c_Signer := Public priv\<rparr> in
            Some (c\<lparr>c_Raw := cl_DER L c\<rparr>))"

text \<open>\<open>CheckSignatureFrom\<close>: the parent must be allowed to sign certificates, and must have signed this one.\<close>

definition CheckSignatureFrom :: "Certificate \<Rightarrow> Certificate \<Rightarrow> bool" where
  "CheckSignatureFrom c parent \<longleftrightarrow>
     \<not> (c_Version parent = 3 \<and> \<not> c_BasicConstraintsValid parent \<or> c_BasicConstraintsValid parent \<and> \<not> c_IsCA parent) \<and>
     \<not> (c_KeyUsage parent \<noteq> 0 \<and> c_KeyUsage parent AND KeyUsageCertSign = 0) \<and>
     c_Signer c = c_PublicKey parent"

definition zeroCertificate :: Certificate where
  "zeroCertificate =
     \<lparr>c_Raw = [], c_Version = 0, c_Subject = \<lparr>nm_Organization = [], nm_CommonName = [], nm_Others = []\<rparr>, c_RawSubject = [], c_RawIssuer = [], c_SerialNumber = 0,
      c_NotBefore = 0, c_NotAfter = 0, c_KeyUsage = 0, c_ExtKeyUsage = [], c_UnknownExtKeyUsage = [],
      c_BasicConstraintsValid = False, c_IsCA = False, c_MaxPathLen = 0, c_MaxPathLenZero = False, c_Extensions = [],
      c_ExtraExtensions = [], c_DNSNames = [], c_IPAddresses = [], c_EmailAddresses = [], c_URIs = [],
      c_PublicKey = NoPublicKey, c_Signer = NoPublicKey\<rparr>"

subsection \<open>Deterministic keys\<close>

definition infoLeaf :: string where "infoLeaf = ''mitmania/leaf/p256/v1''"
definition infoIntermediate :: string where "infoIntermediate = ''mitmania/intermediate/p256/v1''"
definition infoSSH :: string where "infoSSH = ''mitmania/ssh/hostkey/v1''"
definition hkdfOutputLen :: nat where "hkdfOutputLen = 48"

text \<open>The order of P-256, and \<open>big.Int.SetBytes\<close> on a byte string.\<close>

definition p256N :: int where
  "p256N = 0xffffffff00000000ffffffffffffffffbce6faada7179e84f3b9cac2fc632551"

definition bigSetBytes :: "string \<Rightarrow> int" where
  "bigSetBytes bs = fold (\<lambda>c a. a * 256 + of_char c) bs 0"

definition deriveScalar :: "string \<Rightarrow> int" where
  "deriveScalar okm = bigSetBytes okm mod (p256N - 1) + 1"

text \<open>\<open>ParseRawPrivateKey\<close> takes a scalar of the field in 32 bytes; \<open>FillBytes\<close> panics on one that does not fit.\<close>

definition parseRawPrivateKey :: "int \<Rightarrow> privKey option" where
  "parseRawPrivateKey d = (if 1 \<le> d \<and> d < p256N \<and> d < 2 ^ 256 then Some \<lparr>pk_Curve = ''P-256'', pk_D = d\<rparr> else None)"

definition deriveKey :: "certlib \<Rightarrow> string \<Rightarrow> string \<Rightarrow> string \<Rightarrow> privKey option" where
  "deriveKey L clusterKey salt info =
     (case cl_hkdf L clusterKey salt info hkdfOutputLen of
        None \<Rightarrow> None
      | Some okm \<Rightarrow> parseRawPrivateKey (deriveScalar okm))"

definition leafSalt :: "certlib \<Rightarrow> string list \<Rightarrow> string" where
  "leafSalt L sans = cl_sha256 L (Join (sort sans) [CHR 0x00])"

text \<open>\<open>big.Int.Bytes\<close>: the big-endian bytes of the absolute value without leading zeros.\<close>

function bigBytes :: "int \<Rightarrow> string" where
  "bigBytes n = (if n \<le> 0 then [] else bigBytes (n div 256) @ [char_of (nat (n mod 256))])"
  by pat_completeness auto
termination by (relation "measure nat") auto

declare bigBytes.simps [simp del]

definition issuerSerialHash :: "certlib \<Rightarrow> string \<Rightarrow> int \<Rightarrow> string" where
  "issuerSerialHash L rawIssuer serial = cl_sha256 L (rawIssuer @ bigBytes \<bar>serial\<bar>)"

definition LeafKey :: "certlib \<Rightarrow> string \<Rightarrow> string list \<Rightarrow> privKey option" where
  "LeafKey L clusterKey sans = deriveKey L clusterKey (leafSalt L sans) infoLeaf"

definition IntermediateKey :: "certlib \<Rightarrow> string \<Rightarrow> string \<Rightarrow> int \<Rightarrow> privKey option" where
  "IntermediateKey L clusterKey rawIssuer serial = deriveKey L clusterKey (issuerSerialHash L rawIssuer serial) infoIntermediate"

definition SSHHostKey :: "certlib \<Rightarrow> string \<Rightarrow> string \<Rightarrow> privKey option" where
  "SSHHostKey L clusterKey hostport = deriveKey L clusterKey (cl_sha256 L hostport) infoSSH"

subsection \<open>Cloning\<close>

definition trunc160 :: "string \<Rightarrow> int" where
  "trunc160 digest = bigSetBytes (take 20 digest)"

definition serialFor :: "certlib \<Rightarrow> Certificate \<Rightarrow> int" where
  "serialFor L r = trunc160 (issuerSerialHash L (c_RawIssuer r) (c_SerialNumber r))"

definition cloneTemplate :: "certlib \<Rightarrow> Certificate \<Rightarrow> Certificate" where
  "cloneTemplate L r =
     (let t = zeroCertificate\<lparr>c_SerialNumber := serialFor L r, c_Subject := c_Subject r, c_NotBefore := c_NotBefore r,
            c_NotAfter := c_NotAfter r, c_KeyUsage := c_KeyUsage r, c_ExtKeyUsage := c_ExtKeyUsage r,
            c_UnknownExtKeyUsage := c_UnknownExtKeyUsage r, c_BasicConstraintsValid := c_BasicConstraintsValid r, c_IsCA := c_IsCA r,
            c_MaxPathLen := c_MaxPathLen r, c_MaxPathLenZero := c_MaxPathLenZero r\<rparr>;
          t1 = (if c_IsCA r then t\<lparr>c_BasicConstraintsValid := True, c_IsCA := True, c_KeyUsage := c_KeyUsage t OR KeyUsageCertSign\<rparr> else t) in
      case findExtension (c_Extensions r) oidSubjectAltName of
        Some san \<Rightarrow> t1\<lparr>c_ExtraExtensions := [san]\<rparr>
      | None \<Rightarrow> t1)"

definition SANStrings :: "Certificate \<Rightarrow> string list" where
  "SANStrings c = c_DNSNames c @ c_IPAddresses c @ c_EmailAddresses c @ c_URIs c"

definition tagSANs :: "string list \<Rightarrow> string list \<Rightarrow> string list" where
  "tagSANs dnsNames ipAddrs = map (\<lambda>n. ''dns:'' @ n) dnsNames @ map (\<lambda>ip. ''ip:'' @ ip) ipAddrs"

definition typeTaggedSANStrings :: "Certificate \<Rightarrow> string list" where
  "typeTaggedSANStrings c =
     tagSANs (c_DNSNames c) (c_IPAddresses c) @ map (\<lambda>e. ''email:'' @ e) (c_EmailAddresses c) @ map (\<lambda>u. ''uri:'' @ u) (c_URIs c)"

definition chainDERFingerprint :: "certlib \<Rightarrow> Certificate list \<Rightarrow> string" where
  "chainDERFingerprint L chain = cl_sha256 L (concat (map c_Raw chain))"

subsection \<open>The signing authority\<close>

record CA =
  ca_Cert :: Certificate
  ca_Key :: privKey
  ca_Chain :: "Certificate list"
  ca_Generated :: bool

definition ChainDER :: "CA \<Rightarrow> string list" where
  "ChainDER ca = c_Raw (ca_Cert ca) # map c_Raw (ca_Chain ca)"

text \<open>The number of intermediate levels below the certificate; no number is no limit.\<close>

definition issuanceBudget :: "CA \<Rightarrow> int option" where
  "issuanceBudget ca =
     (if c_MaxPathLenZero (ca_Cert ca) then Some 0
      else if 0 \<le> c_MaxPathLen (ca_Cert ca) then Some (c_MaxPathLen (ca_Cert ca))
      else None)"

datatype certError =
    EmptyRealChain
  | KeyDerivation
  | SignFailed
  | CacheRead string storageError
  | CacheDecode string
  | CacheChain string
  | CacheEncode string
  | CacheWrite string storageError
  | CacheLink string storageError
  | CacheFlush storageError
  | NoNames
  | CARead storageError
  | CADecode
  | CAPersist storageError
  | CAEncode
  | TupleRead storageError
  | TupleWipe storageError
  | TupleWrite storageError

text \<open>The loop of \<open>CloneChain\<close> from the authority's end down to the leaf, which is the head of the list.\<close>

fun cloneElements :: "certlib \<Rightarrow> CA \<Rightarrow> string \<Rightarrow> bool \<Rightarrow> Certificate list \<Rightarrow> (certError, (Certificate \<times> privKey) list) res" where
  "cloneElements L ca clusterKey isLeaf [] = Inr []"
| "cloneElements L ca clusterKey isLeaf (r # rest) =
     bindR (cloneElements L ca clusterKey False rest) (\<lambda>above.
       case (if isLeaf then LeafKey L clusterKey (typeTaggedSANStrings r) else IntermediateKey L clusterKey (c_RawIssuer r) (c_SerialNumber r)) of
         None \<Rightarrow> Inl KeyDerivation
       | Some key \<Rightarrow>
           let t = cloneTemplate L r;
               tmpl = (if above = [] \<and> c_NotAfter (ca_Cert ca) < c_NotAfter t then t\<lparr>c_NotAfter := c_NotAfter (ca_Cert ca)\<rparr> else t);
               (parentCert, parentKey) = (case above of [] \<Rightarrow> (ca_Cert ca, ca_Key ca) | ck # _ \<Rightarrow> ck) in
           case issue L tmpl parentCert (Public key) parentKey of
             None \<Rightarrow> Inl SignFailed
           | Some c \<Rightarrow> Inr ((c, key) # above))"

definition CloneChain :: "certlib \<Rightarrow> CA \<Rightarrow> string \<Rightarrow> Certificate list \<Rightarrow> (certError, (Certificate \<times> privKey) list) res" where
  "CloneChain L ca clusterKey realChain =
     (if realChain = [] then Inl EmptyRealChain
      else
        let effective = (case issuanceBudget ca of
                           Some budget \<Rightarrow> if budget < int (length realChain) - 1 then take 1 realChain else realChain
                         | None \<Rightarrow> realChain) in
        cloneElements L ca clusterKey True effective)"

subsection \<open>Loading the authority\<close>

definition validateSigningCert :: "int \<Rightarrow> privKey \<Rightarrow> Certificate \<Rightarrow> bool" where
  "validateSigningCert now key cert \<longleftrightarrow>
     pk_Curve key \<in> {''P-256'', ''P-384''} \<and>
     c_PublicKey cert = Public key \<and>
     c_BasicConstraintsValid cert \<and> c_IsCA cert \<and>
     (case findExtension (c_Extensions cert) oidBasicConstraints of Some e \<Rightarrow> ex_Critical e | None \<Rightarrow> False) \<and>
     c_KeyUsage cert AND KeyUsageCertSign \<noteq> 0 \<and>
     (case findExtension (c_Extensions cert) oidKeyUsage of Some e \<Rightarrow> ex_Critical e | None \<Rightarrow> False) \<and>
     c_NotBefore cert \<le> now \<and> now \<le> c_NotAfter cert"

definition isSelfSigned :: "Certificate \<Rightarrow> bool" where
  "isSelfSigned cert = CheckSignatureFrom cert cert"

definition findVerifiedParent :: "Certificate \<Rightarrow> Certificate list \<Rightarrow> Certificate option" where
  "findVerifiedParent cert pool = find (\<lambda>c. c_RawSubject c = c_RawIssuer cert \<and> CheckSignatureFrom cert c) pool"

datatype chainError = IncompleteChain | ChainCycle

text \<open>The walk from a certificate to the root with a bound on the number of rounds; running out of rounds is no result.\<close>

fun resolveLoop :: "nat \<Rightarrow> Certificate list \<Rightarrow> string list \<Rightarrow> Certificate list \<Rightarrow> Certificate \<Rightarrow> (chainError, Certificate list) res option" where
  "resolveLoop 0 pool seen chain current = None"
| "resolveLoop (Suc fuel) pool seen chain current =
     (case findVerifiedParent current pool of
        None \<Rightarrow> Some (Inl IncompleteChain)
      | Some parent \<Rightarrow>
          if c_Raw parent \<in> set seen then Some (Inl ChainCycle)
          else if isSelfSigned parent then Some (Inr chain)
          else resolveLoop fuel pool (c_Raw parent # seen) (chain @ [parent]) parent)"

definition resolveChain :: "nat \<Rightarrow> Certificate \<Rightarrow> Certificate list \<Rightarrow> (chainError, Certificate list) res option" where
  "resolveChain fuel cert pool =
     (if isSelfSigned cert then Some (Inr []) else resolveLoop fuel pool [c_Raw cert] [] cert)"

definition p12Password :: "certlib \<Rightarrow> string \<Rightarrow> string" where
  "p12Password L clusterKey = cl_base64 L clusterKey"

definition decodeCA :: "certlib \<Rightarrow> int \<Rightarrow> string \<Rightarrow> string \<Rightarrow> (certError, CA) res" where
  "decodeCA L now data clusterKey =
     (case cl_decodeCA L data (p12Password L clusterKey) of
        Some (Some key, cert, caCerts) \<Rightarrow>
          if \<not> validateSigningCert now key cert then Inl CADecode
          else (case resolveChain (Suc (length caCerts)) cert caCerts of
                  Some (Inr chain) \<Rightarrow> Inr \<lparr>ca_Cert = cert, ca_Key = key, ca_Chain = chain, ca_Generated = False\<rparr>
                | _ \<Rightarrow> Inl CADecode)
      | _ \<Rightarrow> Inl CADecode)"

definition caKey :: string where "caKey = ''ca/ca.p12''"
definition leafPrefix :: string where "leafPrefix = ''leaf/''"
definition tupleKey :: string where "tupleKey = ''.tuple''"
definition cloneFormatVersion :: string where "cloneFormatVersion = ''v1''"

definition tupleHash :: "certlib \<Rightarrow> Certificate \<Rightarrow> string \<Rightarrow> string" where
  "tupleHash L cert clusterKey = cl_sha256 L (c_Raw cert @ cl_sha256 L clusterKey @ cloneFormatVersion)"

definition reconcileTuple :: "certlib \<Rightarrow> 's Storage \<Rightarrow> CA \<Rightarrow> string \<Rightarrow> bool \<Rightarrow> 's \<Rightarrow> certError option \<times> 's" where
  "reconcileTuple L store ca clusterKey justGenerated s =
     (let want = tupleHash L (ca_Cert ca) clusterKey;
          wipe = (\<lambda>s. case st_DeletePrefix store leafPrefix s of
                         (Some e, s1) \<Rightarrow> (Some (TupleWipe e), s1)
                       | (None, s1) \<Rightarrow>
                           (case st_Put store tupleKey want s1 of
                              (Some e, s2) \<Rightarrow> (Some (TupleWrite e), s2)
                            | (None, s2) \<Rightarrow> (None, s2))) in
      if justGenerated then wipe s
      else case st_Get store tupleKey s of
        (Inr (existing, _), s1) \<Rightarrow> if existing = want then (None, s1) else wipe s1
      | (Inl ErrNotExist, s1) \<Rightarrow> wipe s1
      | (Inl e, s1) \<Rightarrow> (Some (TupleRead e), s1))"

text \<open>A generated root: the fresh key and serial come from the random source.\<close>

definition rootValidity :: int where "rootValidity = 20 * 365 * 24 * 3600"
definition rootClockFudge :: int where "rootClockFudge = 3600"

definition rootTemplate :: "int \<Rightarrow> int \<Rightarrow> Certificate" where
  "rootTemplate now serial =
     zeroCertificate\<lparr>c_SerialNumber := serial, c_Subject := \<lparr>nm_Organization = [''Root CA''], nm_CommonName = ''Root CA'', nm_Others = []\<rparr>,
       c_NotBefore := now - rootClockFudge, c_NotAfter := now - rootClockFudge + rootValidity,
       c_KeyUsage := KeyUsageCertSign OR KeyUsageCRLSign, c_BasicConstraintsValid := True, c_IsCA := True\<rparr>"

definition generateCA :: "certlib \<Rightarrow> int \<Rightarrow> privKey \<Rightarrow> int \<Rightarrow> (certError, CA) res" where
  "generateCA L now key serial =
     (let tmpl = rootTemplate now serial in
      case issue L tmpl tmpl (Public key) key of
        None \<Rightarrow> Inl SignFailed
      | Some cert \<Rightarrow> Inr \<lparr>ca_Cert = cert, ca_Key = key, ca_Chain = [], ca_Generated = False\<rparr>)"

definition persistCA :: "certlib \<Rightarrow> 's Storage \<Rightarrow> CA \<Rightarrow> string \<Rightarrow> 's \<Rightarrow> certError option \<times> 's" where
  "persistCA L store ca clusterKey s =
     (case cl_encodeCA L (ca_Key ca) (ca_Cert ca) (p12Password L clusterKey) of
        None \<Rightarrow> (Some CAEncode, s)
      | Some data \<Rightarrow>
          (case st_Put store caKey data s of
             (Some e, s') \<Rightarrow> (Some (CAPersist e), s')
           | (None, s') \<Rightarrow> (None, s')))"

definition LoadOrGenerateCA ::
    "certlib \<Rightarrow> 's Storage \<Rightarrow> string \<Rightarrow> int \<Rightarrow> privKey \<Rightarrow> int \<Rightarrow> 's \<Rightarrow> (certError, CA) res \<times> 's" where
  "LoadOrGenerateCA L store clusterKey now freshKey freshSerial s =
     (let reconciled = (\<lambda>ca generated s.
        case reconcileTuple L store ca clusterKey generated s of
          (Some e, s') \<Rightarrow> (Inl e, s')
        | (None, s') \<Rightarrow> (Inr (ca\<lparr>ca_Generated := generated\<rparr>), s')) in
      case st_Get store caKey s of
        (Inl ErrNotExist, s1) \<Rightarrow>
          (case generateCA L now freshKey freshSerial of
             Inl e \<Rightarrow> (Inl e, s1)
           | Inr ca \<Rightarrow>
               (case persistCA L store ca clusterKey s1 of
                  (Some e, s2) \<Rightarrow> (Inl e, s2)
                | (None, s2) \<Rightarrow> reconciled ca True s2))
      | (Inl e, s1) \<Rightarrow> (Inl (CARead e), s1)
      | (Inr (data, _), s1) \<Rightarrow>
          (case decodeCA L now data clusterKey of
             Inl e \<Rightarrow> (Inl e, s1)
           | Inr ca \<Rightarrow> reconciled ca False s1))"

subsection \<open>Lemmas\<close>

text \<open>Every certificate of a chain is signed by the next one, the last one by the anchor.\<close>

fun signedUpTo :: "Certificate \<Rightarrow> Certificate list \<Rightarrow> bool" where
  "signedUpTo anchor [] = True"
| "signedUpTo anchor [c] = CheckSignatureFrom c anchor"
| "signedUpTo anchor (c # d # rest) = (CheckSignatureFrom c d \<and> signedUpTo anchor (d # rest))"

lemma bigSetBytes_bounds: "0 \<le> bigSetBytes bs \<and> bigSetBytes bs < 256 ^ length bs"
proof -
  have "0 \<le> a \<Longrightarrow> 0 \<le> fold (\<lambda>c a. a * 256 + of_char c) bs a \<and> fold (\<lambda>c a. a * 256 + of_char c) bs a < (a + 1) * 256 ^ length bs" for a :: int
  proof (induction bs arbitrary: a)
    case (Cons c bs)
    have "(of_char c :: int) = int (of_char c)" by (simp only: of_nat_of_char)
    then have c: "0 \<le> (of_char c :: int)" "(of_char c :: int) < 256" using nat_of_char_less_256 [of c] by linarith+
    have "a * 256 + x + 1 \<le> (a + 1) * 256" if "x < 256" for x :: int using that by simp
    note le = this [OF c(2)]
    have up: "(a * 256 + of_char c + 1) * 256 ^ length bs \<le> ((a + 1) * 256) * 256 ^ length bs" by (rule mult_right_mono [OF le]) simp
    have "0 \<le> a * 256 + of_char c" using c(1) Cons.prems by simp
    note IH = Cons.IH [OF this]
    have "fold (\<lambda>c a. a * 256 + of_char c) bs (a * 256 + of_char c) < ((a + 1) * 256) * 256 ^ length bs"
      by (rule less_le_trans [OF conjunct2 [OF IH] up])
    then have "fold (\<lambda>c a. a * 256 + of_char c) bs (a * 256 + of_char c) < (a + 1) * 256 ^ length (c # bs)"
      by (simp only: mult.assoc power_Suc list.size add_0_right add_Suc_right)
    with IH show ?case by (simp del: power_Suc list.size)
  qed simp
  from this [of 0] show ?thesis by (simp add: bigSetBytes_def)
qed

lemma trunc160_bounds: "0 \<le> trunc160 digest \<and> trunc160 digest < 2 ^ 160"
proof -
  have "(256 :: int) ^ length (take 20 digest) \<le> 256 ^ 20" by (intro power_increasing) auto
  with bigSetBytes_bounds [of "take 20 digest"] show ?thesis by (simp add: trunc160_def)
qed

lemma deriveScalar_bounds: "1 \<le> deriveScalar okm \<and> deriveScalar okm < p256N"
  using pos_mod_bound [of "p256N - 1" "bigSetBytes okm"] pos_mod_sign [of "p256N - 1" "bigSetBytes okm"]
  by (simp add: deriveScalar_def p256N_def)

lemma deriveKey_Some:
  "deriveKey L ck salt info = (case cl_hkdf L ck salt info hkdfOutputLen of
     None \<Rightarrow> None | Some okm \<Rightarrow> Some \<lparr>pk_Curve = ''P-256'', pk_D = deriveScalar okm\<rparr>)"
proof -
  have "deriveScalar okm < 2 ^ 256" for okm
    using deriveScalar_bounds [of okm] by (simp add: p256N_def)
  then show ?thesis using deriveScalar_bounds by (auto simp: deriveKey_def parseRawPrivateKey_def split: option.split)
qed

lemma findVerifiedParent_Some:
  "findVerifiedParent c pool = Some up \<Longrightarrow> up \<in> set pool \<and> c_RawSubject up = c_RawIssuer c \<and> CheckSignatureFrom c up"
  by (auto simp: findVerifiedParent_def find_Some_iff)

lemma resolveLoop_total:
  "card (c_Raw ` set pool - set seen) < fuel \<Longrightarrow> \<exists>r. resolveLoop fuel pool seen chain cur = Some r"
proof (induction fuel arbitrary: seen chain cur)
  case (Suc fuel)
  have "card (c_Raw ` set pool - set (c_Raw up # seen)) < fuel"
    if "up \<in> set pool" "c_Raw up \<notin> set seen" for up
  proof -
    have "c_Raw ` set pool - set (c_Raw up # seen) \<subset> c_Raw ` set pool - set seen" using that by auto
    then have "card (c_Raw ` set pool - set (c_Raw up # seen)) < card (c_Raw ` set pool - set seen)" by (intro psubset_card_mono) auto
    with Suc.prems show ?thesis by simp
  qed
  with Suc.IH show ?case by (auto split: option.split dest: findVerifiedParent_Some)
qed simp

lemma resolveLoop_more_fuel:
  "resolveLoop fuel pool seen chain cur = Some r \<Longrightarrow> resolveLoop (fuel + n) pool seen chain cur = Some r"
  by (induction fuel arbitrary: seen chain cur) (auto split: option.splits if_splits)

lemma resolveLoop_sound:
  assumes "resolveLoop fuel pool seen chain cur = Some (Inr res)"
  shows "\<exists>links. \<exists>anchor \<in> set pool. res = chain @ links \<and> set links \<subseteq> set pool \<and> isSelfSigned anchor \<and> signedUpTo anchor (cur # links)"
  using assms
proof (induction fuel arbitrary: seen chain cur)
  case (Suc fuel)
  then obtain up where up: "findVerifiedParent cur pool = Some up" "c_Raw up \<notin> set seen"
    by (auto split: option.splits if_splits)
  note parent = findVerifiedParent_Some [OF up(1)]
  show ?case
  proof (cases "isSelfSigned up")
    case True
    with Suc.prems up parent show ?thesis by (intro exI [of _ "[]"] bexI [of _ up]) auto
  next
    case False
    with Suc.prems up Suc.IH [of "c_Raw up # seen" "chain @ [up]" up] obtain links anchor where
      "anchor \<in> set pool" "res = (chain @ [up]) @ links" "set links \<subseteq> set pool" "isSelfSigned anchor" "signedUpTo anchor (up # links)"
      by auto
    with parent show ?thesis by (intro exI [of _ "up # links"] bexI [of _ anchor]) auto
  qed
qed simp

lemma issue_Some:
  assumes "issue L tmpl parent pub priv = Some c"
  shows "c_PublicKey c = pub" and "c_Signer c = Public priv" and "c_RawSubject c = subjectBytes L tmpl" and "c_RawIssuer c = subjectBytes L parent"
    and "c_Subject c = c_Subject tmpl" and "c_KeyUsage c = c_KeyUsage tmpl" and "c_BasicConstraintsValid c = c_BasicConstraintsValid tmpl"
    and "c_IsCA c = (c_BasicConstraintsValid tmpl \<and> c_IsCA tmpl)" and "issuable tmpl parent priv" and "c_Version c = 3"
    and "c_NotAfter c = c_NotAfter tmpl"
    and "(case findExtension (c_ExtraExtensions tmpl) oidSubjectAltName of
            Some e \<Rightarrow> cl_parseSAN L (ex_Value e)
          | None \<Rightarrow> Some (c_DNSNames tmpl, c_IPAddresses tmpl, c_EmailAddresses tmpl, c_URIs tmpl)) =
         Some (c_DNSNames c, c_IPAddresses c, c_EmailAddresses c, c_URIs c)"
  using assms by (auto simp: issue_def Let_def split: if_splits option.splits)

lemmas template_fields = cloneTemplate_def zeroCertificate_def rootTemplate_def Let_def

lemma cloneTemplate_simps [simp]:
  "c_Subject (cloneTemplate L r) = c_Subject r" "c_RawSubject (cloneTemplate L r) = []" "c_NotAfter (cloneTemplate L r) = c_NotAfter r"
  "c_IsCA (cloneTemplate L r) = c_IsCA r"
  "c_BasicConstraintsValid (cloneTemplate L r) = (c_BasicConstraintsValid r \<or> c_IsCA r)"
  "c_KeyUsage (cloneTemplate L r) = (if c_IsCA r then c_KeyUsage r OR KeyUsageCertSign else c_KeyUsage r)"
  by (simp_all add: template_fields split: option.split)

lemma cloneTemplate_names:
  "c_ExtraExtensions (cloneTemplate L r) = (case findExtension (c_Extensions r) oidSubjectAltName of Some e \<Rightarrow> [e] | None \<Rightarrow> [])"
  "c_DNSNames (cloneTemplate L r) = []" "c_IPAddresses (cloneTemplate L r) = []" "c_EmailAddresses (cloneTemplate L r) = []"
  "c_URIs (cloneTemplate L r) = []"
  by (simp_all add: template_fields split: option.split)

text \<open>What a chain element was cloned from: the names, and that a clone of an authority may sign.\<close>

text \<open>A parsed certificate has the names of its SAN extension.\<close>

definition parsedCert :: "certlib \<Rightarrow> Certificate \<Rightarrow> bool" where
  "parsedCert L r \<longleftrightarrow>
     (case findExtension (c_Extensions r) oidSubjectAltName of
        Some e \<Rightarrow> cl_parseSAN L (ex_Value e) = Some (c_DNSNames r, c_IPAddresses r, c_EmailAddresses r, c_URIs r)
      | None \<Rightarrow> c_DNSNames r = [] \<and> c_IPAddresses r = [] \<and> c_EmailAddresses r = [] \<and> c_URIs r = [])"

definition cloneOf :: "certlib \<Rightarrow> Certificate \<Rightarrow> Certificate \<Rightarrow> bool" where
  "cloneOf L r c \<longleftrightarrow>
     c_RawSubject c = cl_marshalName L (c_Subject r) \<and> c_Subject c = c_Subject r \<and> c_Version c = 3 \<and>
     (c_IsCA r \<longrightarrow> c_IsCA c \<and> c_BasicConstraintsValid c \<and> c_KeyUsage c AND KeyUsageCertSign \<noteq> 0) \<and>
     (parsedCert L r \<longrightarrow> typeTaggedSANStrings c = typeTaggedSANStrings r)"

lemma certSign_bit: "(x OR KeyUsageCertSign) AND KeyUsageCertSign \<noteq> 0"
proof -
  have "(x OR KeyUsageCertSign) AND KeyUsageCertSign = KeyUsageCertSign" by (simp add: word_ao_absorbs)
  then show ?thesis by (simp add: KeyUsageCertSign_def)
qed

lemma issue_cloneOf:
  assumes "issue L tmpl parent pub priv = Some c" and "tmpl = (cloneTemplate L r)\<lparr>c_NotAfter := t\<rparr>"
  shows "cloneOf L r c"
proof -
  note c = issue_Some [OF assms(1)]
  have "typeTaggedSANStrings c = typeTaggedSANStrings r" if "parsedCert L r"
  proof (cases "findExtension (c_Extensions r) oidSubjectAltName")
    case None
    with c(12) that show ?thesis by (simp add: assms(2) cloneTemplate_names parsedCert_def findExtension_def typeTaggedSANStrings_def)
  next
    case (Some e)
    then have "findExtension [e] oidSubjectAltName = Some e" by (auto simp: findExtension_def find_Some_iff)
    with c(12) that Some show ?thesis by (simp add: assms(2) cloneTemplate_names parsedCert_def typeTaggedSANStrings_def)
  qed
  with c certSign_bit [of "c_KeyUsage r"] show ?thesis
    by (simp add: assms(2) cloneOf_def subjectBytes_def)
qed

subsection \<open>Properties\<close>

text \<open>
  C28. Key derivation never leaves the curve: whatever HKDF yields, the derived key is a P-256 key with a scalar from 1 to
  the order of the group minus 1, and the derivation fails only when HKDF does; the serial number of a clone is
  never negative and fits 160 bits, so signing never refuses it.
\<close>

theorem derived_material_in_range:
  "(case deriveKey L clusterKey salt info of
      None \<Rightarrow> cl_hkdf L clusterKey salt info hkdfOutputLen = None
    | Some key \<Rightarrow> pk_Curve key = ''P-256'' \<and> 1 \<le> pk_D key \<and> pk_D key \<le> p256N - 1) \<and>
   0 \<le> c_SerialNumber (cloneTemplate L r) \<and> c_SerialNumber (cloneTemplate L r) < 2 ^ 160"
proof -
  have "c_SerialNumber (cloneTemplate L r) = trunc160 (issuerSerialHash L (c_RawIssuer r) (c_SerialNumber r))"
    by (simp add: template_fields serialFor_def split: option.split)
  then show ?thesis using trunc160_bounds deriveScalar_bounds by (auto simp: deriveKey_Some split: option.split)
qed

text \<open>
  C27. The walk from a signing certificate to its root always ends: one round more than the bundle has certificates is
  enough, and further rounds change nothing, also when the bundle holds a cycle. A chain it returns consists of
  certificates of the bundle, each signed by the next and the last by a self-signed certificate of the bundle; it is
  empty when the signing certificate is self-signed.
\<close>

theorem resolveChain_terminates:
  "(case resolveChain (Suc (length pool)) cert pool of
      None \<Rightarrow> False
    | Some (Inl e) \<Rightarrow> \<not> isSelfSigned cert
    | Some (Inr chain) \<Rightarrow>
        if isSelfSigned cert then chain = []
        else set chain \<subseteq> set pool \<and> (\<exists>anchor. anchor \<in> set pool \<and> isSelfSigned anchor \<and> signedUpTo anchor (cert # chain))) \<and>
   resolveChain (Suc (length pool) + n) cert pool = resolveChain (Suc (length pool)) cert pool"
proof (cases "isSelfSigned cert")
  case True
  then show ?thesis by (simp add: resolveChain_def)
next
  case False
  have "card (c_Raw ` set pool - set [c_Raw cert]) \<le> card (c_Raw ` set pool)" by (intro card_mono) auto
  also have "\<dots> \<le> length pool" using card_image_le [of "set pool" c_Raw] card_length [of pool] by simp
  finally obtain r where r: "resolveLoop (Suc (length pool)) pool [c_Raw cert] [] cert = Some r"
    using resolveLoop_total [of pool "[c_Raw cert]" "Suc (length pool)"] by fastforce
  have "set chain \<subseteq> set pool \<and> (\<exists>anchor. anchor \<in> set pool \<and> isSelfSigned anchor \<and> signedUpTo anchor (cert # chain))"
    if "r = Inr chain" for chain
    using resolveLoop_sound [OF r [unfolded that]] by auto
  then show ?thesis
    using r resolveLoop_more_fuel [OF r, of n] False by (simp add: resolveChain_def del: resolveLoop.simps split: sum.split)
qed

end
