(* ===== verification/LeafCache.thy ===== *)
theory LeafCache
  imports Certs
begin

text \<open>
  The on-disk leaf cache (\<open>src/internal/cert/cache.go\<close>) and the factory in front of it (\<open>factory.go\<close>, \<open>fallback.go\<close>,
  \<open>selfcert.go\<close>). The cache is passed with the state of its backend; calls that \<open>singleflight\<close> merges are one call.
  The properties: what is served is a signed chain with its key whatever the backend holds; a minted chain is served
  again after a restart; a chain that repeats its leaf is not.
\<close>

subsection \<open>The cache\<close>

type_synonym 's linker = "string \<Rightarrow> string \<Rightarrow> 's \<Rightarrow> storageError option \<times> 's"

record 's CertCache =
  cc_storage :: "'s Storage"
  cc_linker :: "'s linker option"
  cc_password :: string
  cc_namespace :: string
  cc_ca :: CA
  cc_keys :: string
  cc_hot :: "string \<rightharpoonup> Certificate list"

definition certsPrefix :: string where "certsPrefix = leafPrefix @ ''certs/''"
definition namesPrefix :: string where "namesPrefix = leafPrefix @ ''names/''"

definition sanNamespace :: "certlib \<Rightarrow> string \<Rightarrow> string" where
  "sanNamespace L clusterKey = take 16 (cl_sha256 L clusterKey)"

definition NewCertCache :: "certlib \<Rightarrow> 's Storage \<Rightarrow> 's linker option \<Rightarrow> string \<Rightarrow> CA \<Rightarrow> 's CertCache" where
  "NewCertCache L store linker clusterKey ca =
     \<lparr>cc_storage = store, cc_linker = linker, cc_password = clusterKey, cc_namespace = sanNamespace L clusterKey,
      cc_ca = ca, cc_keys = clusterKey, cc_hot = Map.empty\<rparr>"

definition idFromFingerprint :: "certlib \<Rightarrow> string \<Rightarrow> string \<Rightarrow> string" where
  "idFromFingerprint L namespace fingerprint = cl_uuid5 L namespace (cloneFormatVersion @ fingerprint)"

definition certID :: "certlib \<Rightarrow> string \<Rightarrow> Certificate list \<Rightarrow> string" where
  "certID L namespace realChain = idFromFingerprint L namespace (chainDERFingerprint L realChain)"

definition nameID :: "certlib \<Rightarrow> string \<Rightarrow> string \<Rightarrow> string" where
  "nameID L namespace name = cl_uuid5 L namespace name"

definition IDFor :: "certlib \<Rightarrow> 's CertCache \<Rightarrow> Certificate list \<Rightarrow> string" where
  "IDFor L c realChain = certID L (cc_namespace c) realChain"

definition selfCertIdentityHash :: "certlib \<Rightarrow> string list \<Rightarrow> string" where
  "selfCertIdentityHash L names = cl_sha256 L (''mitmania/https-proxy/v1'' @ concat (map (\<lambda>n. CHR 0x00 # n) names))"

definition SelfCertIDFor :: "certlib \<Rightarrow> 's CertCache \<Rightarrow> string list \<Rightarrow> string" where
  "SelfCertIDFor L c names = idFromFingerprint L (cc_namespace c) (selfCertIdentityHash L names)"

definition Count :: "'s CertCache \<Rightarrow> 's \<Rightarrow> (storageError, nat) res \<times> 's" where
  "Count c s =
     (case st_List (cc_storage c) certsPrefix s of
        (Inl e, s') \<Rightarrow> (Inl e, s')
      | (Inr entries, s') \<Rightarrow> (Inr (length (filter (\<lambda>e. HasSuffix (en_Key e) ''.p12'') entries)), s'))"

definition Flush :: "'s CertCache \<times> 's \<Rightarrow> certError option \<times> 's CertCache \<times> 's" where
  "Flush cs =
     (case cs of (c, s) \<Rightarrow>
      case st_DeletePrefix (cc_storage c) leafPrefix s of
        (Some e, s') \<Rightarrow> (Some (CacheFlush e), c, s')
      | (None, s') \<Rightarrow> (None, c\<lparr>cc_hot := Map.empty\<rparr>, s'))"

definition shardedKey :: "string \<Rightarrow> string \<Rightarrow> string \<Rightarrow> string" where
  "shardedKey prefix cid ext =
     (let hex = filter (\<lambda>ch. ch \<noteq> CHR ''-'') cid in
      prefix @ slice hex 0 2 @ ''/'' @ slice hex 2 4 @ ''/'' @ slice hex 4 6 @ ''/'' @ drop 6 hex @ ext)"

definition certKey :: "string \<Rightarrow> string" where "certKey cid = shardedKey certsPrefix cid ''.p12''"
definition nameKey :: "string \<Rightarrow> string" where "nameKey cid = shardedKey namesPrefix cid ''.p12''"

text \<open>\<open>bySubject\<close> as the last certificate of that subject, \<open>isIssuer\<close> as a search.\<close>

definition bySubject :: "Certificate list \<Rightarrow> string \<Rightarrow> Certificate option" where
  "bySubject certs subject = find (\<lambda>c. c_RawSubject c = subject) (rev certs)"

function followIssuers :: "Certificate list \<Rightarrow> string list \<Rightarrow> Certificate \<Rightarrow> Certificate list" where
  "followIssuers certs seen cur =
     (let seen' = c_RawSubject cur # seen in
      case bySubject certs (c_RawIssuer cur) of
        None \<Rightarrow> [cur]
      | Some up \<Rightarrow> if c_RawSubject up \<in> set seen' then [cur] else cur # followIssuers certs seen' up)"
  by pat_completeness auto
termination
proof (relation "measure (\<lambda>(certs, seen, cur). card (set (map c_RawSubject certs) - insert (c_RawSubject cur) (set seen)))")
  fix certs :: "Certificate list" and seen seen' :: "string list" and cur up :: Certificate
  assume "seen' = c_RawSubject cur # seen" "bySubject certs (c_RawIssuer cur) = Some up" "c_RawSubject up \<notin> set seen'"
  moreover from this have "up \<in> set certs" by (auto simp: bySubject_def find_Some_iff) (metis nth_mem length_rev set_rev)
  ultimately have "set (map c_RawSubject certs) - insert (c_RawSubject up) (set seen') \<subset>
      set (map c_RawSubject certs) - insert (c_RawSubject cur) (set seen)" by auto
  then show "((certs, seen', up), (certs, seen, cur)) \<in>
      measure (\<lambda>(certs, seen, cur). card (set (map c_RawSubject certs) - insert (c_RawSubject cur) (set seen)))"
    by (simp add: psubset_card_mono)
qed simp

declare followIssuers.simps [simp del]

definition orderChainLeafFirst :: "Certificate list \<Rightarrow> (string, Certificate list) res" where
  "orderChainLeafFirst certs =
     (if certs = [] then Inl ''empty chain''
      else case find (\<lambda>c. \<not> list_ex (\<lambda>d. c_RawIssuer d = c_RawSubject c) certs) certs of
        None \<Rightarrow> Inl ''no unique leaf''
      | Some leaf \<Rightarrow>
          let ordered = followIssuers certs [] leaf in
          if length ordered \<noteq> length certs then Inl ''broken chain'' else Inr ordered)"

definition verify :: "certlib \<Rightarrow> 's CertCache \<Rightarrow> Certificate list \<Rightarrow> bool" where
  "verify L c chain =
     (case chain of
        [] \<Rightarrow> False
      | leaf # _ \<Rightarrow>
          (case LeafKey L (cc_keys c) (typeTaggedSANStrings leaf) of
             None \<Rightarrow> False
           | Some key \<Rightarrow> Public key = c_PublicKey leaf \<and> signedUpTo (ca_Cert (cc_ca c)) chain))"

definition cache_get :: "certlib \<Rightarrow> string \<Rightarrow> 's CertCache \<times> 's \<Rightarrow>
    (certError, (Certificate list \<times> string) option) res \<times> 's CertCache \<times> 's" where
  "cache_get L cid cs =
     (case cs of (c, s) \<Rightarrow>
      case cc_hot c cid of
        Some chain \<Rightarrow> (Inr (if verify L c chain then Some (chain, ''hotmap'') else None), c, s)
      | None \<Rightarrow>
          let key = certKey cid in
          case st_Get (cc_storage c) key s of
            (Inl ErrNotExist, s1) \<Rightarrow> (Inr None, c, s1)
          | (Inl e, s1) \<Rightarrow> (Inl (CacheRead key e), c, s1)
          | (Inr (data, _), s1) \<Rightarrow>
              (case cl_decodeTrust L data (cc_password c) of
                 None \<Rightarrow> (Inl (CacheDecode key), c, s1)
               | Some certs \<Rightarrow>
                   (case orderChainLeafFirst certs of
                      Inl _ \<Rightarrow> (Inl (CacheChain key), c, s1)
                    | Inr ordered \<Rightarrow>
                        if \<not> verify L c ordered then (Inr None, c, s1)
                        else (Inr (Some (ordered, ''storage'')), c\<lparr>cc_hot := (cc_hot c)(cid \<mapsto> ordered)\<rparr>, s1))))"

definition cache_put :: "certlib \<Rightarrow> string \<Rightarrow> Certificate list \<Rightarrow> 's CertCache \<times> 's \<Rightarrow> certError option \<times> 's CertCache \<times> 's" where
  "cache_put L cid chain cs =
     (case cs of (c, s) \<Rightarrow>
      let key = certKey cid in
      case cl_encodeTrust L chain (cc_password c) of
        None \<Rightarrow> (Some (CacheEncode key), c, s)
      | Some data \<Rightarrow>
          (case st_Put (cc_storage c) key data s of
             (Some e, s') \<Rightarrow> (Some (CacheWrite key e), c, s')
           | (None, s') \<Rightarrow> (None, c\<lparr>cc_hot := (cc_hot c)(cid \<mapsto> chain)\<rparr>, s')))"

definition symlink :: "certlib \<Rightarrow> 's CertCache \<Rightarrow> 's linker \<Rightarrow> string \<Rightarrow> string \<Rightarrow> 's \<Rightarrow> certError option \<times> 's" where
  "symlink L c linker cid name s =
     (let linkKey = nameKey (nameID L (cc_namespace c) name) in
      case linker linkKey (certKey cid) s of
        (Some e, s') \<Rightarrow> (Some (CacheLink linkKey e), s')
      | (None, s') \<Rightarrow> (None, s'))"

fun linkNames :: "certlib \<Rightarrow> 's CertCache \<Rightarrow> 's linker \<Rightarrow> string \<Rightarrow> string list \<Rightarrow> 's \<Rightarrow> certError option \<times> 's" where
  "linkNames L c linker cid [] s = (None, s)"
| "linkNames L c linker cid (name # names) s =
     (case symlink L c linker cid name s of
        (Some e, s') \<Rightarrow> (Some e, s')
      | (None, s') \<Rightarrow> linkNames L c linker cid names s')"

text \<open>The names form a set; they are linked in one of its orders.\<close>

definition ensureLinks :: "certlib \<Rightarrow> string \<Rightarrow> Certificate \<Rightarrow> 's CertCache \<times> 's \<Rightarrow> certError option \<times> 's CertCache \<times> 's" where
  "ensureLinks L cid leaf cs =
     (case cs of (c, s) \<Rightarrow>
      case cc_linker c of
        None \<Rightarrow> (None, c, s)
      | Some linker \<Rightarrow>
          let cn = nm_CommonName (c_Subject leaf);
              names = remdups ((if cn \<noteq> [] then [cn] else []) @ SANStrings leaf) in
          case linkNames L c linker cid names s of (r, s') \<Rightarrow> (r, c, s'))"

subsection \<open>The factory\<close>

record tlsCertificate =
  tc_Certificate :: "string list"
  tc_PrivateKey :: privKey
  tc_Leaf :: Certificate

text \<open>The factory holds the authority and the cluster key of its cache.\<close>

definition toDERCertificate :: "CA \<Rightarrow> Certificate list \<Rightarrow> privKey \<Rightarrow> tlsCertificate" where
  "toDERCertificate ca chain leafKey =
     \<lparr>tc_Certificate = map c_Raw chain @ ChainDER ca, tc_PrivateKey = leafKey, tc_Leaf = hd chain\<rparr>"

definition toTLSCertificate :: "certlib \<Rightarrow> CA \<Rightarrow> string \<Rightarrow> Certificate list \<Rightarrow> (certError, tlsCertificate) res" where
  "toTLSCertificate L ca clusterKey chain =
     (case LeafKey L clusterKey (typeTaggedSANStrings (hd chain)) of
        None \<Rightarrow> Inl KeyDerivation
      | Some key \<Rightarrow> Inr (toDERCertificate ca chain key))"

definition mint :: "certlib \<Rightarrow> string \<Rightarrow> Certificate list \<Rightarrow> 's CertCache \<times> 's \<Rightarrow> (certError, tlsCertificate) res \<times> 's CertCache \<times> 's" where
  "mint L cid realChain cs =
     (let ca = cc_ca (fst cs); clusterKey = cc_keys (fst cs) in
      case cache_get L cid cs of
        (Inl e, cs1) \<Rightarrow> (Inl e, cs1)
      | (Inr (Some (cached, _)), cs1) \<Rightarrow> (toTLSCertificate L ca clusterKey cached, cs1)
      | (Inr None, cs1) \<Rightarrow>
          (case CloneChain L ca clusterKey realChain of
             Inl e \<Rightarrow> (Inl e, cs1)
           | Inr synth \<Rightarrow>
               let synthChain = map fst synth in
               case cache_put L cid synthChain cs1 of
                 (Some e, cs2) \<Rightarrow> (Inl e, cs2)
               | (None, cs2) \<Rightarrow>
                   (case ensureLinks L cid (hd synthChain) cs2 of
                      (Some e, cs3) \<Rightarrow> (Inl e, cs3)
                    | (None, cs3) \<Rightarrow> (Inr (toDERCertificate ca synthChain (snd (hd synth))), cs3))))"

definition For :: "certlib \<Rightarrow> Certificate list \<Rightarrow> 's CertCache \<times> 's \<Rightarrow> (certError, tlsCertificate) res \<times> 's CertCache \<times> 's" where
  "For L realChain cs =
     (if realChain = [] then (Inl EmptyRealChain, cs) else mint L (IDFor L (fst cs) realChain) realChain cs)"

text \<open>\<open>net.ParseIP\<close> followed by \<open>String\<close>; a zone is refused and a mapped address is the IPv4 one.\<close>

definition ParseIP :: "string \<Rightarrow> string option" where
  "ParseIP str =
     (case ParseAddr str of
        None \<Rightarrow> None
      | Some a \<Rightarrow> if addr_zone a \<noteq> [] then None else Some (Addr_String (Unmap a)))"

definition fallbackSerial :: "certlib \<Rightarrow> string \<Rightarrow> int" where
  "fallbackSerial L sni = trunc160 (cl_sha256 L (''mitmania/fallback/v1'' @ [CHR 0x00] @ sni))"

definition fallbackValidity :: int where "fallbackValidity = 24 * 3600"
definition selfCertValidity :: int where "selfCertValidity = 10 * 365 * 24 * 3600"

definition serverTemplate :: "int \<Rightarrow> string \<Rightarrow> int \<Rightarrow> int \<Rightarrow> string list \<Rightarrow> string list \<Rightarrow> Certificate" where
  "serverTemplate serial cn notBefore notAfter dnsNames ipAddrs =
     zeroCertificate\<lparr>c_SerialNumber := serial, c_Subject := \<lparr>nm_Organization = [], nm_CommonName = cn, nm_Others = []\<rparr>,
       c_NotBefore := notBefore, c_NotAfter := notAfter,
       c_KeyUsage := KeyUsageDigitalSignature OR KeyUsageKeyEncipherment, c_ExtKeyUsage := [ExtKeyUsageServerAuth],
       c_DNSNames := dnsNames, c_IPAddresses := ipAddrs\<rparr>"

definition cert_Fallback :: "certlib \<Rightarrow> CA \<Rightarrow> string \<Rightarrow> int \<Rightarrow> string \<Rightarrow> (certError, tlsCertificate) res" where
  "cert_Fallback L ca clusterKey now sni =
     (let (dnsNames, ipAddrs) = (case ParseIP sni of Some ip \<Rightarrow> ([], [ip]) | None \<Rightarrow> ([sni], [])) in
      case LeafKey L clusterKey (tagSANs dnsNames ipAddrs) of
        None \<Rightarrow> Inl KeyDerivation
      | Some key \<Rightarrow>
          let notAfter = min (now + fallbackValidity) (c_NotAfter (ca_Cert ca));
              tmpl = serverTemplate (fallbackSerial L sni) sni (now - 3600) notAfter dnsNames ipAddrs in
          case issue L tmpl (ca_Cert ca) (Public key) (ca_Key ca) of
            None \<Rightarrow> Inl SignFailed
          | Some leaf \<Rightarrow> Inr (toDERCertificate ca [leaf] key))"

definition isValidDNSName :: "string \<Rightarrow> bool" where
  "isValidDNSName str \<longleftrightarrow>
     str \<noteq> [] \<and> length str \<le> 255 \<and>
     list_all (\<lambda>label. label \<noteq> [] \<and> length label \<le> 63 \<and>
       list_all (\<lambda>i. let ch = label ! i in
           CHR ''a'' \<le> ch \<and> ch \<le> CHR ''z'' \<or> CHR ''A'' \<le> ch \<and> ch \<le> CHR ''Z'' \<or> CHR ''0'' \<le> ch \<and> ch \<le> CHR ''9'' \<or>
           ch = CHR ''-'' \<and> i \<noteq> 0 \<and> i \<noteq> length label - 1) [0..<length label])
     (Split str CHR ''.'')"

definition selfCertSerial :: "certlib \<Rightarrow> string list \<Rightarrow> int" where
  "selfCertSerial L names = trunc160 (selfCertIdentityHash L names)"

definition selfCertFromChain :: "certlib \<Rightarrow> CA \<Rightarrow> string \<Rightarrow> Certificate list \<Rightarrow> (certError, tlsCertificate) res" where
  "selfCertFromChain L ca clusterKey chain =
     (case LeafKey L clusterKey (typeTaggedSANStrings (hd chain)) of
        None \<Rightarrow> Inl KeyDerivation
      | Some key \<Rightarrow> Inr (toDERCertificate ca [hd chain] key))"

definition selfCertSANs :: "string list \<Rightarrow> string list \<times> string list" where
  "selfCertSANs names =
     (filter (\<lambda>n. ParseIP n = None \<and> isValidDNSName n) names, List.map_filter ParseIP names)"

definition SelfCert :: "certlib \<Rightarrow> int \<Rightarrow> string list \<Rightarrow> 's CertCache \<times> 's \<Rightarrow> (certError, tlsCertificate) res \<times> 's CertCache \<times> 's" where
  "SelfCert L now names cs =
     (if names = [] then (Inl NoNames, cs)
      else
        let ca = cc_ca (fst cs); clusterKey = cc_keys (fst cs); (dnsNames, ipAddrs) = selfCertSANs names;
            cid = SelfCertIDFor L (fst cs) names in
        case cache_get L cid cs of
          (Inl e, cs1) \<Rightarrow> (Inl e, cs1)
        | (Inr (Some (cached, _)), cs1) \<Rightarrow> (selfCertFromChain L ca clusterKey cached, cs1)
        | (Inr None, cs1) \<Rightarrow>
            (case LeafKey L clusterKey (tagSANs dnsNames ipAddrs) of
               None \<Rightarrow> (Inl KeyDerivation, cs1)
             | Some key \<Rightarrow>
                 let notBefore = now - 3600;
                     notAfter = min (notBefore + selfCertValidity) (c_NotAfter (ca_Cert ca)) in
                 case issue L (serverTemplate (selfCertSerial L names) (hd names) notBefore notAfter dnsNames ipAddrs)
                     (ca_Cert ca) (Public key) (ca_Key ca) of
                   None \<Rightarrow> (Inl SignFailed, cs1)
                 | Some leaf \<Rightarrow>
                     (case cache_put L cid [leaf] cs1 of
                        (Some e, cs2) \<Rightarrow> (Inl e, cs2)
                      | (None, cs2) \<Rightarrow>
                          (case ensureLinks L cid leaf cs2 of
                             (Some e, cs3) \<Rightarrow> (Inl e, cs3)
                           | (None, cs3) \<Rightarrow> (Inr (toDERCertificate ca [leaf] key), cs3)))))"

subsection \<open>Chains\<close>

text \<open>The issuer of every certificate is the subject of the next, and its signer the key of the next.\<close>

fun linkedUp :: "string \<Rightarrow> Certificate list \<Rightarrow> bool" where
  "linkedUp subject [] = True"
| "linkedUp subject [c] = (c_RawIssuer c = subject)"
| "linkedUp subject (c # d # rest) = (c_RawIssuer c = c_RawSubject d \<and> linkedUp subject (d # rest))"

fun signedBy :: "pubKey \<Rightarrow> Certificate list \<Rightarrow> bool" where
  "signedBy key [] = True"
| "signedBy key [c] = (c_Signer c = key)"
| "signedBy key (c # d # rest) = (c_Signer c = c_PublicKey d \<and> signedBy key (d # rest))"

lemma signedUpTo_signedBy: "signedUpTo anchor chain \<Longrightarrow> signedBy (c_PublicKey anchor) chain"
  by (induction anchor chain rule: signedUpTo.induct) (auto simp: CheckSignatureFrom_def)

definition maySign :: "Certificate \<Rightarrow> bool" where
  "maySign c \<longleftrightarrow> c_BasicConstraintsValid c \<and> c_IsCA c \<and> c_KeyUsage c AND KeyUsageCertSign \<noteq> 0"

lemma signedBy_signedUpTo:
  "signedBy (c_PublicKey anchor) chain \<Longrightarrow> maySign anchor \<Longrightarrow> (\<And>c. c \<in> set (tl chain) \<Longrightarrow> maySign c) \<Longrightarrow> signedUpTo anchor chain"
  by (induction anchor chain rule: signedUpTo.induct) (auto simp: CheckSignatureFrom_def maySign_def)

lemma linkedUp_issuers:
  "linkedUp subject chain \<Longrightarrow> chain \<noteq> [] \<Longrightarrow> c_RawIssuer ` set chain = insert subject (c_RawSubject ` set (tl chain))"
  by (induction subject chain rule: linkedUp.induct) auto

lemma bySubject_unique:
  assumes "distinct (map c_RawSubject certs)" and "c \<in> set certs"
  shows "bySubject certs (c_RawSubject c) = Some c"
proof -
  have "d = c" if "d \<in> set certs" "c_RawSubject d = c_RawSubject c" for d
    using assms that by (auto simp: distinct_map inj_on_def)
  moreover have "\<exists>d. bySubject certs (c_RawSubject c) = Some d"
    using assms(2) by (cases "bySubject certs (c_RawSubject c)") (auto simp: bySubject_def find_None_iff)
  ultimately show ?thesis by (auto simp: bySubject_def find_Some_iff) (metis length_rev nth_mem set_rev)
qed

lemma bySubject_Some: "bySubject certs x = Some c \<Longrightarrow> c \<in> set certs \<and> c_RawSubject c = x"
  by (auto simp: bySubject_def find_Some_iff) (metis length_rev nth_mem set_rev)

lemma followIssuers_chain:
  assumes "distinct (map c_RawSubject (pre @ cur # rest))" and "set certs = set (pre @ cur # rest)" and "distinct (map c_RawSubject certs)"
    and "linkedUp subject (cur # rest)" and "set seen = c_RawSubject ` set pre"
  shows "followIssuers certs seen cur = cur # rest"
  using assms
proof (induction rest arbitrary: pre cur seen)
  case Nil
  show ?case
  proof (cases "bySubject certs (c_RawIssuer cur)")
    case (Some up)
    then have "c_RawSubject up \<in> set (c_RawSubject cur # seen)"
      using conjunct1 [OF bySubject_Some [OF Some]] Nil(2,5) by (auto simp del: set_map)
    with Some show ?thesis by (simp add: followIssuers.simps [of certs seen cur])
  qed (simp add: followIssuers.simps [of certs seen cur])
next
  case (Cons d rest)
  have d: "bySubject certs (c_RawIssuer cur) = Some d"
    using bySubject_unique [of certs d] Cons.prems by simp
  have "followIssuers certs (c_RawSubject cur # seen) d = d # rest"
    by (rule Cons.IH [of "pre @ [cur]"]) (use Cons.prems in auto)
  moreover have "c_RawSubject d \<notin> set (c_RawSubject cur # seen)" using Cons.prems by auto
  ultimately show ?case using d by (simp add: followIssuers.simps [of certs seen cur])
qed

lemma find_unique: "(\<And>c. c \<in> set xs \<Longrightarrow> P c = (c = x)) \<Longrightarrow> x \<in> set xs \<Longrightarrow> find P xs = Some x"
  by (induction xs) auto

text \<open>A linked chain is found again in every order of its certificates, unless two of them have one subject.\<close>

lemma orderChainLeafFirst_permuted:
  assumes "linkedUp subject chain" and "chain \<noteq> []" and "distinct (map c_RawSubject chain)" and "c_RawSubject (hd chain) \<noteq> subject"
    and "mset certs = mset chain"
  shows "orderChainLeafFirst certs = Inr chain"
proof -
  obtain leaf rest where chain: "chain = leaf # rest" using assms(2) by (cases chain) auto
  have same: "set certs = set chain" "length certs = length chain" "distinct (map c_RawSubject certs)"
    using assms(3,5) mset_eq_setD [OF assms(5)] mset_eq_length [OF assms(5)] mset_eq_imp_distinct_iff [of "map c_RawSubject certs" "map c_RawSubject chain"]
    by (simp_all add: mset_map)
  have issuers: "c_RawIssuer ` set certs = insert subject (c_RawSubject ` set rest)"
    using linkedUp_issuers [OF assms(1,2)] by (simp add: same chain)
  have "(\<not> list_ex (\<lambda>d. c_RawIssuer d = c_RawSubject c) certs) = (c = leaf)" if "c \<in> set certs" for c
  proof -
    have "list_ex (\<lambda>d. c_RawIssuer d = c_RawSubject c) certs \<longleftrightarrow> c_RawSubject c \<in> insert subject (c_RawSubject ` set rest)"
      unfolding issuers [symmetric] by (force simp: list_ex_iff)
    then show ?thesis using that assms(3,4) by (auto simp: same chain)
  qed
  then have "find (\<lambda>c. \<not> list_ex (\<lambda>d. c_RawIssuer d = c_RawSubject c) certs) certs = Some leaf"
    by (rule find_unique) (simp_all add: same chain)
  moreover have "followIssuers certs [] leaf = leaf # rest"
    by (rule followIssuers_chain [of "[]"]) (use assms same in \<open>auto simp: chain\<close>)
  ultimately show ?thesis using same assms(2) by (auto simp: orderChainLeafFirst_def chain)
qed

lemma orderChainLeafFirst_no_leaf:
  assumes "linkedUp subject chain" and "chain = c # d # rest" and "c_RawSubject c = c_RawSubject d" and "mset certs = mset chain"
  shows "orderChainLeafFirst certs = Inl ''no unique leaf''"
proof -
  have same: "set certs = set chain" using mset_eq_setD [OF assms(4)] .
  have issuers: "c_RawIssuer ` set certs = insert subject (c_RawSubject ` set (d # rest))"
    using linkedUp_issuers [OF assms(1)] by (simp add: same assms(2))
  have "list_ex (\<lambda>e. c_RawIssuer e = c_RawSubject x) certs" if "x \<in> set certs" for x
  proof -
    have "c_RawSubject x \<in> c_RawIssuer ` set certs" unfolding issuers using that assms(3) by (auto simp: same assms(2))
    then show ?thesis by (force simp: list_ex_iff)
  qed
  then have "find (\<lambda>x. \<not> list_ex (\<lambda>e. c_RawIssuer e = c_RawSubject x) certs) certs = None" by (auto simp: find_None_iff)
  moreover have "certs \<noteq> []" using assms(2,4) by auto
  ultimately show ?thesis by (simp add: orderChainLeafFirst_def)
qed

subsection \<open>What cloning yields\<close>

definition clonedFrom :: "certlib \<Rightarrow> CA \<Rightarrow> Certificate list \<Rightarrow> (Certificate \<times> privKey) list \<Rightarrow> bool" where
  "clonedFrom L ca rs synth \<longleftrightarrow>
     list_all2 (\<lambda>r ck. cloneOf L r (fst ck) \<and> c_PublicKey (fst ck) = Public (snd ck)) rs synth \<and>
     linkedUp (subjectBytes L (ca_Cert ca)) (map fst synth) \<and> signedBy (Public (ca_Key ca)) (map fst synth)"

lemma cloneElements_clonedFrom:
  assumes "cloneElements L ca clusterKey isLeaf rs = Inr synth"
  shows "clonedFrom L ca rs synth"
    and "isLeaf \<Longrightarrow> rs \<noteq> [] \<Longrightarrow> LeafKey L clusterKey (typeTaggedSANStrings (hd rs)) = Some (snd (hd synth))"
proof -
  have "clonedFrom L ca rs synth \<and> (isLeaf \<longrightarrow> rs \<noteq> [] \<longrightarrow> LeafKey L clusterKey (typeTaggedSANStrings (hd rs)) = Some (snd (hd synth)))"
    using assms
  proof (induction rs arbitrary: isLeaf synth)
    case (Cons r rest)
    let ?key = "if isLeaf then LeafKey L clusterKey (typeTaggedSANStrings r) else IntermediateKey L clusterKey (c_RawIssuer r) (c_SerialNumber r)"
    from Cons.prems obtain up key c where up: "cloneElements L ca clusterKey False rest = Inr up" and key: "?key = Some key"
      and c: "issue L (if up = [] \<and> c_NotAfter (ca_Cert ca) < c_NotAfter (cloneTemplate L r)
                then (cloneTemplate L r)\<lparr>c_NotAfter := c_NotAfter (ca_Cert ca)\<rparr> else cloneTemplate L r)
              (case up of [] \<Rightarrow> ca_Cert ca | ck # _ \<Rightarrow> fst ck) (Public key) (case up of [] \<Rightarrow> ca_Key ca | ck # _ \<Rightarrow> snd ck) = Some c"
      and synth: "synth = (c, key) # up"
      by (auto simp: Let_def split: option.splits list.splits prod.splits)
    have same: "cloneTemplate L r = (cloneTemplate L r)\<lparr>c_NotAfter := c_NotAfter (cloneTemplate L r)\<rparr>" by simp
    have "cloneOf L r c"
      by (rule issue_cloneOf [OF c, where t = "if up = [] \<and> c_NotAfter (ca_Cert ca) < c_NotAfter (cloneTemplate L r)
            then c_NotAfter (ca_Cert ca) else c_NotAfter (cloneTemplate L r)"]) (use same in auto)
    note c = this issue_Some [OF c]
    have IH: "clonedFrom L ca rest up" using Cons.IH [OF up] by simp
    have "c_PublicKey c = Public key" using c by simp
    moreover have "linkedUp (subjectBytes L (ca_Cert ca)) (c # map fst up) \<and> signedBy (Public (ca_Key ca)) (c # map fst up)"
    proof (cases up)
      case Nil
      with c show ?thesis by simp
    next
      case (Cons d ds)
      then obtain r' where "cloneOf L r' (fst d)" "c_PublicKey (fst d) = Public (snd d)"
        using IH by (auto simp: clonedFrom_def list_all2_Cons2)
      moreover from this have "subjectBytes L (fst d) = c_RawSubject (fst d)" by (simp add: cloneOf_def subjectBytes_def)
      ultimately show ?thesis using c IH Cons by (simp add: clonedFrom_def)
    qed
    ultimately show ?case using IH c(1) key by (auto simp: clonedFrom_def synth split: if_splits)
  qed (simp add: clonedFrom_def)
  then show "clonedFrom L ca rs synth"
    and "isLeaf \<Longrightarrow> rs \<noteq> [] \<Longrightarrow> LeafKey L clusterKey (typeTaggedSANStrings (hd rs)) = Some (snd (hd synth))" by auto
qed

text \<open>The elements that are cloned: all, or the leaf alone when the authority may not have so many levels below it.\<close>

definition clonedPart :: "CA \<Rightarrow> Certificate list \<Rightarrow> Certificate list" where
  "clonedPart ca realChain =
     (case issuanceBudget ca of
        Some budget \<Rightarrow> if budget < int (length realChain) - 1 then take 1 realChain else realChain
      | None \<Rightarrow> realChain)"

lemma CloneChain_clonedPart:
  assumes "CloneChain L ca clusterKey realChain = Inr synth"
  shows "cloneElements L ca clusterKey True (clonedPart ca realChain) = Inr synth" and "clonedPart ca realChain \<noteq> []"
    and "hd (clonedPart ca realChain) = hd realChain"
  using assms by (auto simp: CloneChain_def clonedPart_def Let_def split: if_splits option.splits)

lemma CloneChain_clonedFrom:
  assumes "CloneChain L ca clusterKey realChain = Inr synth"
  shows "clonedFrom L ca (clonedPart ca realChain) synth" and "synth \<noteq> []"
    and "LeafKey L clusterKey (typeTaggedSANStrings (hd realChain)) = Some (snd (hd synth))"
  using cloneElements_clonedFrom [OF CloneChain_clonedPart(1) [OF assms]] CloneChain_clonedPart(2,3) [OF assms]
  by (auto simp: clonedFrom_def)

lemma clonedFrom_hd:
  assumes "clonedFrom L ca rs synth" and "rs \<noteq> []"
  shows "cloneOf L (hd rs) (fst (hd synth))" and "c_PublicKey (fst (hd synth)) = Public (snd (hd synth))"
  using assms by (cases rs; auto simp: clonedFrom_def list_all2_Cons1)+

text \<open>What an authority that was loaded or generated is.\<close>

definition soundCA :: "CA \<Rightarrow> bool" where
  "soundCA ca \<longleftrightarrow> c_PublicKey (ca_Cert ca) = Public (ca_Key ca) \<and> maySign (ca_Cert ca)"

lemma decodeCA_sound: "decodeCA L now data clusterKey = Inr ca \<Longrightarrow> soundCA ca"
  by (auto simp: decodeCA_def soundCA_def maySign_def validateSigningCert_def split: option.splits prod.splits if_splits sum.splits)

lemma generateCA_sound: "generateCA L now key serial = Inr ca \<Longrightarrow> soundCA ca"
proof -
  assume "generateCA L now key serial = Inr ca"
  then obtain c where c: "issue L (rootTemplate now serial) (rootTemplate now serial) (Public key) key = Some c"
    and ca: "ca = \<lparr>ca_Cert = c, ca_Key = key, ca_Chain = [], ca_Generated = False\<rparr>"
    by (auto simp: generateCA_def Let_def split: option.splits)
  have "(KeyUsageCertSign OR KeyUsageCRLSign) AND KeyUsageCertSign \<noteq> 0" by (simp add: KeyUsageCertSign_def KeyUsageCRLSign_def)
  with issue_Some [OF c] show ?thesis
    by (simp add: ca soundCA_def maySign_def) (simp add: rootTemplate_def zeroCertificate_def)
qed

lemma LoadOrGenerateCA_sound:
  assumes "LoadOrGenerateCA L store clusterKey now freshKey freshSerial s = (Inr ca, s')"
  shows "soundCA ca"
proof -
  have same: "soundCA (ca\<lparr>ca_Generated := g\<rparr>) = soundCA ca" for ca g by (simp add: soundCA_def)
  show ?thesis
    using assms decodeCA_sound generateCA_sound
    by (auto simp: LoadOrGenerateCA_def Let_def same split: prod.splits sum.splits option.splits storageError.splits)
qed

subsection \<open>Serving\<close>

lemma verify_sound:
  assumes "verify L c chain"
  obtains key where "chain \<noteq> []" "LeafKey L (cc_keys c) (typeTaggedSANStrings (hd chain)) = Some key"
    "Public key = c_PublicKey (hd chain)" "signedUpTo (ca_Cert (cc_ca c)) chain"
  using assms by (auto simp: verify_def split: list.splits option.splits)

lemma cache_get_cases:
  assumes "cache_get L cid (c, s) = (r, c', s')"
  shows "cc_ca c' = cc_ca c" and "cc_keys c' = cc_keys c" and "\<And>chain src. r = Inr (Some (chain, src)) \<Longrightarrow> verify L c chain"
  using assms by (auto simp: cache_get_def Let_def split: option.splits prod.splits sum.splits storageError.splits if_splits)

text \<open>
  C14. Whatever the leaf cache and its backend hold, and whether the answer comes from the hot map, the backend or a fresh
  clone: what the factory serves under an authority that start-up loaded or generated is a chain in which every certificate
  is signed by the next and the last by the authority, followed by the authority's own chain, and the private key
  served with it is the leaf's.
\<close>

theorem served_chain_signed:
  assumes "LoadOrGenerateCA L store clusterKey now freshKey freshSerial s0 = (Inr ca, s1)"
    and "cc_ca c = ca" and "For L realChain (c, s) = (Inr tls, cs')"
  shows "\<exists>chain. chain \<noteq> [] \<and> tc_Leaf tls = hd chain \<and> tc_Certificate tls = map c_Raw chain @ ChainDER ca \<and>
    signedBy (c_PublicKey (ca_Cert ca)) chain \<and> Public (tc_PrivateKey tls) = c_PublicKey (tc_Leaf tls)"
proof -
  have sound: "soundCA ca" by (rule LoadOrGenerateCA_sound [OF assms(1)])
  let ?cid = "IDFor L c realChain"
  obtain r c1 s1 where get: "cache_get L ?cid (c, s) = (r, c1, s1)" by (metis prod.exhaust)
  note get' = cache_get_cases [OF get]
  have mint: "mint L ?cid realChain (c, s) = (Inr tls, cs')" using assms(3) by (auto simp: For_def split: if_splits)
  show ?thesis
  proof (cases r)
    case (Inl e)
    with mint get show ?thesis by (simp add: mint_def Let_def)
  next
    case (Inr hit)
    show ?thesis
    proof (cases hit)
      case (Some p)
      then obtain chain src where hit: "hit = Some (chain, src)" by (cases p) auto
      then have "verify L c chain" using get'(3) Inr by simp
      then obtain key where "chain \<noteq> []" "LeafKey L (cc_keys c) (typeTaggedSANStrings (hd chain)) = Some key"
          "Public key = c_PublicKey (hd chain)" "signedUpTo (ca_Cert ca) chain"
        using assms(2) by (auto elim: verify_sound)
      moreover from this mint get Inr hit have "tls = toDERCertificate ca chain key"
        by (simp add: mint_def Let_def toTLSCertificate_def assms(2))
      ultimately show ?thesis by (intro exI [of _ chain]) (simp add: toDERCertificate_def signedUpTo_signedBy)
    next
      case None
      with mint get Inr obtain synth where clone: "CloneChain L ca (cc_keys c) realChain = Inr synth"
          and tls: "tls = toDERCertificate ca (map fst synth) (snd (hd synth))"
        by (auto simp: mint_def Let_def assms(2) split: sum.splits prod.splits option.splits)
      note synth = CloneChain_clonedFrom [OF clone]
      have "clonedPart ca realChain \<noteq> []" using CloneChain_clonedPart(2) [OF clone] .
      note synth = synth clonedFrom_hd [OF synth(1) this]
      then show ?thesis using sound
        by (intro exI [of _ "map fst synth"]) (auto simp: tls toDERCertificate_def clonedFrom_def soundCA_def hd_map)
    qed
  qed
qed

subsection \<open>Restarts\<close>

text \<open>
  What is relied on: a PKCS#12 trust store gives back the certificates put into it, in some order; a link of the
  names index leaves what lies outside the index as it is.
\<close>

definition trustStoreKeeps :: "certlib \<Rightarrow> bool" where
  "trustStoreKeeps L \<longleftrightarrow>
     (\<forall>certs pw data. cl_encodeTrust L certs pw = Some data \<longrightarrow>
        (\<exists>certs'. cl_decodeTrust L data pw = Some certs' \<and> mset certs' = mset certs))"

definition linkerKeeps :: "('s \<Rightarrow> bool) \<Rightarrow> ('s \<Rightarrow> string \<Rightarrow> (string \<times> Version) option) \<Rightarrow> 's linker \<Rightarrow> bool" where
  "linkerKeeps ready view lk \<longleftrightarrow>
     (\<forall>k target s. ready s \<longrightarrow> HasPrefix k namesPrefix \<longrightarrow>
        ready (snd (lk k target s)) \<and> (\<forall>k'. \<not> HasPrefix k' namesPrefix \<longrightarrow> view (snd (lk k target s)) k' = view s k'))"

text \<open>A chain with authorities above its leaf, no subject twice, and a leaf that does not bear the authority's name.\<close>

definition regularChain :: "certlib \<Rightarrow> CA \<Rightarrow> Certificate list \<Rightarrow> bool" where
  "regularChain L ca realChain \<longleftrightarrow>
     realChain \<noteq> [] \<and> distinct (map (\<lambda>r. cl_marshalName L (c_Subject r)) realChain) \<and>
     cl_marshalName L (c_Subject (hd realChain)) \<noteq> subjectBytes L (ca_Cert ca) \<and>
     list_all c_IsCA (tl realChain) \<and> parsedCert L (hd realChain)"

lemma clonedFrom_subjects:
  "list_all2 (\<lambda>r ck. cloneOf L r (fst ck) \<and> c_PublicKey (fst ck) = Public (snd ck)) rs synth \<Longrightarrow>
   map c_RawSubject (map fst synth) = map (\<lambda>r. cl_marshalName L (c_Subject r)) rs"
  by (induction rs synth rule: list_all2_induct) (auto simp: cloneOf_def)

lemma clonedFrom_maySign:
  "list_all2 (\<lambda>r ck. cloneOf L r (fst ck) \<and> c_PublicKey (fst ck) = Public (snd ck)) rs synth \<Longrightarrow> list_all c_IsCA rs \<Longrightarrow>
   c \<in> set (map fst synth) \<Longrightarrow> maySign c"
  by (induction rs synth rule: list_all2_induct) (auto simp: cloneOf_def maySign_def)

lemma regularChain_part:
  assumes "regularChain L ca realChain"
  shows "regularChain L ca (clonedPart ca realChain)"
proof -
  have "clonedPart ca realChain = realChain \<or> clonedPart ca realChain = take 1 realChain"
    by (simp add: clonedPart_def split: option.split)
  moreover obtain r rest where "realChain = r # rest" using assms by (cases realChain) (auto simp: regularChain_def)
  ultimately show ?thesis using assms by (auto simp: regularChain_def)
qed

lemma clone_reloads:
  assumes "CloneChain L ca (cc_keys c) realChain = Inr synth" and "cc_ca c = ca" and "soundCA ca" and "regularChain L ca realChain"
    and "mset certs = mset (map fst synth)"
  shows "orderChainLeafFirst certs = Inr (map fst synth)" and "verify L c (map fst synth)"
    and "LeafKey L (cc_keys c) (typeTaggedSANStrings (hd (map fst synth))) = Some (snd (hd synth))"
proof -
  let ?rs = "clonedPart ca realChain"
  have regular: "regularChain L ca ?rs" by (rule regularChain_part [OF assms(4)])
  note synth = CloneChain_clonedFrom [OF assms(1)]
  note leaf = clonedFrom_hd [OF synth(1) CloneChain_clonedPart(2) [OF assms(1)]]
  have all: "list_all2 (\<lambda>r ck. cloneOf L r (fst ck) \<and> c_PublicKey (fst ck) = Public (snd ck)) ?rs synth"
    and linked: "linkedUp (subjectBytes L (ca_Cert ca)) (map fst synth)" and signed: "signedBy (Public (ca_Key ca)) (map fst synth)"
    using synth(1) by (auto simp: clonedFrom_def)
  note subjects = clonedFrom_subjects [OF all]
  have hd: "c_RawSubject (hd (map fst synth)) = cl_marshalName L (c_Subject (hd ?rs))"
    using leaf(1) synth(2) by (simp add: cloneOf_def hd_map)
  show "orderChainLeafFirst certs = Inr (map fst synth)"
    by (rule orderChainLeafFirst_permuted [OF linked])
      (use synth(2) regular hd subjects assms(5) in \<open>auto simp: regularChain_def simp del: map_map\<close>)
  have names: "typeTaggedSANStrings (hd (map fst synth)) = typeTaggedSANStrings (hd realChain)"
    using leaf(1) regular synth(2) CloneChain_clonedPart(3) [OF assms(1)] by (simp add: cloneOf_def regularChain_def hd_map)
  then show key: "LeafKey L (cc_keys c) (typeTaggedSANStrings (hd (map fst synth))) = Some (snd (hd synth))"
    using synth(3) by simp
  have "list_all2 (\<lambda>r ck. cloneOf L r (fst ck) \<and> c_PublicKey (fst ck) = Public (snd ck)) (tl ?rs) (tl synth)"
    using all by (cases ?rs; cases synth) auto
  then have "maySign d" if "d \<in> set (tl (map fst synth))" for d
    using clonedFrom_maySign [of L "tl ?rs" "tl synth" d] regular that by (simp add: regularChain_def map_tl)
  then have "signedUpTo (ca_Cert ca) (map fst synth)"
    using signed assms(3) by (intro signedBy_signedUpTo) (auto simp: soundCA_def)
  then show "verify L c (map fst synth)"
    using key leaf(2) synth(2) assms(2) by (cases "map fst synth") (auto simp: verify_def hd_map split: list.splits)
qed

text \<open>The keys of the cache are clean keys of the backend.\<close>

definition isUUID :: "string \<Rightarrow> bool" where
  "isUUID str \<longleftrightarrow> length (filter (\<lambda>ch. ch \<noteq> CHR ''-'') str) = 32 \<and> list_all (\<lambda>ch. ch = CHR ''-'' \<or> hexValue ch \<noteq> None) str"

lemma certKey_clean:
  assumes "isUUID cid"
  shows "cleanKey (certKey cid)"
proof -
  define hex where "hex = filter (\<lambda>ch. ch \<noteq> CHR ''-'') cid"
  have len: "length hex = 32" and digits: "\<And>ch. ch \<in> set hex \<Longrightarrow> hexValue ch \<noteq> None"
    using assms by (auto simp: isUUID_def hex_def list_all_iff)
  have sep: "CHR ''/'' \<notin> set hex" "CHR ''.'' \<notin> set hex" using digits [of "CHR ''/''"] digits [of "CHR ''.''"] by (auto simp: hexValue_def)
  have seg: "CHR ''/'' \<notin> set (slice hex i j)" "CHR ''.'' \<notin> set (slice hex i j)" for i j
    using sep by (auto simp: slice_def dest: in_set_takeD in_set_dropD)
  have two: "length (slice hex 0 2) = 2" "length (slice hex 2 4) = 2" "length (slice hex 4 6) = 2" by (simp_all add: slice_def len)
  have plain: "plainSeg (slice hex i j)" if "length (slice hex i j) = 2" for i j
    using that seg(2) [of i j] by (auto simp: plainSeg_def)
  obtain x xs where tail: "drop 6 hex = x # xs" "x \<noteq> CHR ''.''" using len sep(2) in_set_dropD [of "CHR ''.''" 6 hex]
    by (cases "drop 6 hex") auto
  have "CHR ''/'' \<notin> set (drop 6 hex @ ''.p12'')" using sep(1) by (auto dest: in_set_dropD)
  then have last: "Split (drop 6 hex @ ''.p12'') CHR ''/'' = [drop 6 hex @ ''.p12'']" by (rule Split_no_sep)
  have key: "certKey cid = ''leaf'' @ CHR ''/'' # ''certs'' @ CHR ''/'' # slice hex 0 2 @ CHR ''/'' # slice hex 2 4 @ CHR ''/'' #
      slice hex 4 6 @ CHR ''/'' # (drop 6 hex @ ''.p12'')"
    by (simp add: certKey_def shardedKey_def certsPrefix_def leafPrefix_def hex_def Let_def)
  have segs: "Split (certKey cid) CHR ''/'' =
      [''leaf'', ''certs'', slice hex 0 2, slice hex 2 4, slice hex 4 6, drop 6 hex @ ''.p12'']"
    unfolding key by (simp only: Split_append_sep last Split_no_sep [OF seg(1)]) (simp add: Split_no_sep)
  show ?thesis using plain two tail
    by (simp add: cleanKey_def isTemp_def segs HasPrefix_iff) (simp add: plainSeg_def)
qed

lemma certKey_not_name: "\<not> HasPrefix (certKey cid) namesPrefix"
  by (simp add: certKey_def shardedKey_def certsPrefix_def namesPrefix_def leafPrefix_def HasPrefix_iff Let_def)

lemma nameKey_prefix: "HasPrefix (nameKey cid) namesPrefix"
  by (simp add: nameKey_def shardedKey_def HasPrefix_iff Let_def)

context blob_store
begin

lemma linkNames_keeps:
  assumes "linkerKeeps ready view lk" and "ready s" and "linkNames L c lk cid names s = (r, s')" and "\<not> HasPrefix k namesPrefix"
  shows "ready s' \<and> view s' k = view s k"
  using assms(2,3)
proof (induction names arbitrary: s)
  case (Cons n names)
  let ?key = "nameKey (nameID L (cc_namespace c) n)"
  obtain e s1 where lk: "lk ?key (certKey cid) s = (e, s1)" by (metis prod.exhaust)
  then have s1: "ready s1" "view s1 k = view s k"
    using assms(1) [unfolded linkerKeeps_def, rule_format, OF Cons.prems(1) nameKey_prefix, of "nameID L (cc_namespace c) n" "certKey cid"] assms(4)
    by auto
  show ?case
  proof (cases e)
    case None
    then have "linkNames L c lk cid names s1 = (r, s')" using Cons.prems(2) lk by (simp add: symlink_def Let_def)
    then show ?thesis using Cons.IH [OF s1(1)] s1 by simp
  next
    case Some
    then show ?thesis using Cons.prems(2) lk s1 by (simp add: symlink_def Let_def)
  qed
qed simp

lemma ensureLinks_keeps:
  assumes "ensureLinks L cid leaf (c, s) = (r, c', s')" and "ready s" and "\<not> HasPrefix k namesPrefix"
    and "\<And>lk. cc_linker c = Some lk \<Longrightarrow> linkerKeeps ready view lk"
  shows "c' = c \<and> ready s' \<and> view s' k = view s k"
proof (cases "cc_linker c")
  case None
  then show ?thesis using assms by (simp add: ensureLinks_def)
next
  case (Some lk)
  then show ?thesis
    using assms linkNames_keeps [OF assms(4) [OF Some] assms(2) _ assms(3)] by (auto simp: ensureLinks_def Let_def split: prod.splits)
qed

text \<open>A successful mint through an empty hot map either hit, and left the backend as it was, or stored the clone.\<close>

lemma mint_stores:
  assumes "mint L cid realChain (c, s) = (Inr tls, c', s')" and "ready s" and "keys (certKey cid)"
    and c: "cc_storage c = st" "cc_hot c cid = None" "\<And>lk. cc_linker c = Some lk \<Longrightarrow> linkerKeeps ready view lk"
  obtains (hit) "s' = s" "view s (certKey cid) \<noteq> None"
  | (minted) synth data v where "CloneChain L (cc_ca c) (cc_keys c) realChain = Inr synth"
      "cl_encodeTrust L (map fst synth) (cc_password c) = Some data" "ready s'" "view s' (certKey cid) = Some (data, v)"
      "tls = toDERCertificate (cc_ca c) (map fst synth) (snd (hd synth))"
proof -
  obtain r c1 s1 where get: "cache_get L cid (c, s) = (r, c1, s1)" by (metis prod.exhaust)
  have s1: "s1 = s" using get c Get [OF assms(2,3)]
    by (auto simp: cache_get_def Let_def split: option.splits sum.splits if_splits)
  have c1: "c1 = c" if "r = Inr None"
    using get c that by (auto simp: cache_get_def Let_def split: option.splits sum.splits storageError.splits prod.splits if_splits)
  show thesis
  proof (cases "r = Inr None")
    case False
    then have "s' = s" using assms(1) get s1 by (auto simp: mint_def Let_def split: sum.splits option.splits)
    moreover have "view s (certKey cid) \<noteq> None" using False get c Get [OF assms(2,3)] by (cases "view s (certKey cid)") (auto simp: cache_get_def Let_def)
    ultimately show thesis by (rule hit)
  next
    case True
    with assms(1) get c1 s1 obtain synth c2 s2 where clone: "CloneChain L (cc_ca c) (cc_keys c) realChain = Inr synth"
      and put: "cache_put L cid (map fst synth) (c, s) = (None, c2, s2)"
      and links: "ensureLinks L cid (hd (map fst synth)) (c2, s2) = (None, c', s')"
      and tls: "tls = toDERCertificate (cc_ca c) (map fst synth) (snd (hd synth))"
      by (auto simp: mint_def Let_def split: sum.splits option.splits prod.splits)
    obtain data where data: "cl_encodeTrust L (map fst synth) (cc_password c) = Some data"
      using put by (auto simp: cache_put_def Let_def split: option.splits)
    obtain v where s2: "ready s2" "view s2 (certKey cid) = Some (data, v)" and c2: "cc_linker c2 = cc_linker c"
      using put data c Put [OF assms(2,3), of data] by (auto simp: cache_put_def Let_def)
    have "ready s' \<and> view s' (certKey cid) = view s2 (certKey cid)"
      using ensureLinks_keeps [OF links s2(1) certKey_not_name] c(3) c2 by simp
    then show thesis using clone data s2 tls by (intro minted) auto
  qed
qed

lemma mint_after_restart:
  assumes mint: "mint L cid realChain (c, s) = (Inr tls, c', s')" and "ready s" and "keys (certKey cid)"
    and c: "cc_storage c = st" "cc_hot c cid = None" "\<And>lk. cc_linker c = Some lk \<Longrightarrow> linkerKeeps ready view lk"
    and chain: "trustStoreKeeps L" "soundCA (cc_ca c)" "regularChain L (cc_ca c) realChain"
  shows "\<exists>c''. mint L cid realChain (c, s') = (Inr tls, c'', s')"
proof (rule mint_stores [OF mint assms(2,3) c])
  assume "s' = s"
  then show ?thesis using mint by blast
next
  fix synth data v
  assume clone: "CloneChain L (cc_ca c) (cc_keys c) realChain = Inr synth"
    and data: "cl_encodeTrust L (map fst synth) (cc_password c) = Some data" and s': "ready s'" "view s' (certKey cid) = Some (data, v)"
    and tls: "tls = toDERCertificate (cc_ca c) (map fst synth) (snd (hd synth))"
  from chain(1) data obtain certs where certs: "cl_decodeTrust L data (cc_password c) = Some certs" "mset certs = mset (map fst synth)"
    unfolding trustStoreKeeps_def by blast
  note reload = clone_reloads [OF clone refl chain(2,3) certs(2)]
  show ?thesis
    using reload certs(1) s'(2) Get [OF s'(1) assms(3)] c
    by (auto simp: mint_def cache_get_def Let_def toTLSCertificate_def tls)
qed

lemma mint_fails_after_restart:
  assumes mint: "mint L cid realChain (c, s) = (Inr tls, c', s')" and "ready s" and "keys (certKey cid)" and none: "view s (certKey cid) = None"
    and c: "cc_storage c = st" "cc_hot c cid = None" "\<And>lk. cc_linker c = Some lk \<Longrightarrow> linkerKeeps ready view lk"
    and chain: "trustStoreKeeps L" "realChain = r # r' # rest" "c_Subject r = c_Subject r'" "clonedPart (cc_ca c) realChain = realChain"
  shows "mint L cid realChain (c, s') = (Inl (CacheChain (certKey cid)), c, s')"
proof (rule mint_stores [OF mint assms(2,3) c])
  assume "view s (certKey cid) \<noteq> None"
  then show ?thesis using none by simp
next
  fix synth data v
  assume clone: "CloneChain L (cc_ca c) (cc_keys c) realChain = Inr synth"
    and data: "cl_encodeTrust L (map fst synth) (cc_password c) = Some data" and s': "ready s'" "view s' (certKey cid) = Some (data, v)"
  from chain(1) data obtain certs where certs: "cl_decodeTrust L data (cc_password c) = Some certs" "mset certs = mset (map fst synth)"
    unfolding trustStoreKeeps_def by blast
  have cloned: "clonedFrom L (cc_ca c) (r # r' # rest) synth" using CloneChain_clonedFrom(1) [OF clone] chain(2,4) by simp
  from this obtain a b more where synth: "synth = a # b # more" "cloneOf L r (fst a)" "cloneOf L r' (fst b)"
    by (auto simp: clonedFrom_def list_all2_Cons1)
  have "orderChainLeafFirst certs = Inl ''no unique leaf''"
    by (rule orderChainLeafFirst_no_leaf [where chain = "map fst synth" and c = "fst a" and d = "fst b" and rest = "map fst more"])
      (use cloned synth chain(3) certs(2) in \<open>auto simp: clonedFrom_def cloneOf_def\<close>)
  then show ?thesis
    using certs(1) s'(2) Get [OF s'(1) assms(3)] c by (simp add: mint_def cache_get_def Let_def)
qed

end

subsection \<open>Properties\<close>

text \<open>A cluster with the built-in root, a site with one intermediate and a site that sends its leaf twice.\<close>

definition labUUID :: string where "labUUID = ''6ba7b810-9dad-11d1-80b4-00c04fd430c8''"

definition labName :: "string \<Rightarrow> pkixName" where
  "labName cn = \<lparr>nm_Organization = [], nm_CommonName = cn, nm_Others = []\<rparr>"

definition labLeaf :: Certificate where
  "labLeaf = zeroCertificate\<lparr>c_Raw := ''leaf'', c_Version := 3, c_Subject := labName ''example.com'', c_RawIssuer := ''CA X'',
     c_SerialNumber := 7, c_NotAfter := 90, c_KeyUsage := 1, c_DNSNames := [''example.com''],
     c_Extensions := [\<lparr>ex_Id = oidSubjectAltName, ex_Critical = False, ex_Value = ''example.com''\<rparr>]\<rparr>"

definition labIssuer :: Certificate where
  "labIssuer = zeroCertificate\<lparr>c_Raw := ''issuer'', c_Version := 3, c_Subject := labName ''CA X'', c_RawIssuer := ''Root X'',
     c_SerialNumber := 8, c_NotAfter := 900, c_KeyUsage := 32, c_BasicConstraintsValid := True, c_IsCA := True, c_MaxPathLen := -1\<rparr>"

definition labPlain :: certlib where
  "labPlain = \<lparr>cl_sha256 = (\<lambda>str. take 2 str), cl_hkdf = (\<lambda>ck salt info n. Some (take 2 salt)), cl_uuid5 = (\<lambda>ns name. labUUID),
     cl_marshalName = nm_CommonName, cl_parseSAN = (\<lambda>v. Some ([v], [], [], [])),
     cl_DER = (\<lambda>c. nm_CommonName (c_Subject c)), cl_buildExtensions = c_ExtraExtensions,
     cl_encodeTrust = (\<lambda>certs pw. None), cl_decodeTrust = (\<lambda>data pw. None),
     cl_encodeCA = (\<lambda>key c pw. Some ''ca''), cl_decodeCA = (\<lambda>data pw. None), cl_base64 = (\<lambda>str. str)\<rparr>"

definition labRoot :: "certlib \<Rightarrow> (certError, CA) res \<times> disk" where
  "labRoot L = LoadOrGenerateCA L (posixStorage demoPosix) ''key'' 0 \<lparr>pk_Curve = ''P-256'', pk_D = 5\<rparr> 1 (emptyDisk 5)"

definition labCA :: CA where
  "labCA = projr (fst (labRoot labPlain))"

definition labSynth :: "Certificate list \<Rightarrow> Certificate list" where
  "labSynth chain = map fst (projr (CloneChain labPlain labCA ''key'' chain))"

text \<open>A trust store for the clone of one chain, which gives it back in the opposite order.\<close>

definition labLib :: "Certificate list \<Rightarrow> certlib" where
  "labLib chain = labPlain\<lparr>
     cl_encodeTrust := (\<lambda>certs pw. if certs = labSynth chain then Some ''p12'' else None),
     cl_decodeTrust := (\<lambda>data pw. if data = ''p12'' then Some (rev (labSynth chain)) else None)\<rparr>"

definition labCache :: "Certificate list \<Rightarrow> disk CertCache" where
  "labCache chain = NewCertCache (labLib chain) (posixStorage demoPosix) None ''key'' labCA"

lemma labUUID_ok: "isUUID (IDFor (labLib chain) c realChain)"
proof -
  have "isUUID labUUID" by code_simp
  then show ?thesis by (simp add: labLib_def labPlain_def IDFor_def certID_def idFromFingerprint_def)
qed

lemma labTrust: "trustStoreKeeps (labLib chain)"
  by (auto simp: trustStoreKeeps_def labLib_def)

text \<open>
  C15. A clone outlives the process that minted it: once a call of the factory succeeded through a cache on the file-system
  backend, a new process with an empty hot map answers the same real chain with the same certificates and the
  same key from the backend alone and writes nothing, although the trust store need not keep the order of the chain
  and no private key was written. Relied on are that a trust store gives back what was put into it in some order, and
  that a link of the names index touches nothing else; the real chain has authorities above its leaf and no subject twice.
\<close>

theorem minted_survives_restart:
  assumes "posix_ready p d" and "isUUID (IDFor L cache realChain)" and "trustStoreKeeps L"
    and "\<And>lk. linker = Some lk \<Longrightarrow> linkerKeeps (posix_ready p) (posix_view p) lk"
    and "LoadOrGenerateCA L store clusterKey now freshKey freshSerial s0 = (Inr ca, s1)"
    and "regularChain L ca realChain"
    and "cache = NewCertCache L (posixStorage p) linker clusterKey ca"
    and "For L realChain (cache, d) = (Inr tls, c', d')"
  shows "\<exists>c''. For L realChain (cache, d') = (Inr tls, c'', d')"
proof -
  have cache: "cc_storage cache = posixStorage p" "cc_hot cache (IDFor L cache realChain) = None" "cc_ca cache = ca" "cc_linker cache = linker"
    using assms(7) by (simp_all add: NewCertCache_def)
  have ne: "realChain \<noteq> []" using assms(6) by (simp add: regularChain_def)
  then have "mint L (IDFor L cache realChain) realChain (cache, d) = (Inr tls, c', d')" using assms(8) by (simp add: For_def)
  then have "\<exists>c''. mint L (IDFor L cache realChain) realChain (cache, d') = (Inr tls, c'', d')"
    by (rule posix_store.mint_after_restart)
      (use assms certKey_clean LoadOrGenerateCA_sound [OF assms(5)] cache in auto)
  then show ?thesis using ne by (simp add: For_def)
qed

theorem minted_survives_restart_witness:
  "\<exists>tls c' d'. For (labLib [labLeaf, labIssuer]) [labLeaf, labIssuer] (labCache [labLeaf, labIssuer], emptyDisk 5) = (Inr tls, c', d') \<and>
     tc_Certificate tls = [''example.com'', ''CA X'', ''Root CA''] \<and>
     fst (For (labLib [labLeaf, labIssuer]) [labLeaf, labIssuer] (labCache [labLeaf, labIssuer], d')) = Inr tls"
proof -
  let ?chain = "[labLeaf, labIssuer]" and ?L = "labLib [labLeaf, labIssuer]"
  have "map_sum (\<lambda>_. ()) tc_Certificate (fst (For ?L ?chain (labCache ?chain, emptyDisk 5))) = Inr [''example.com'', ''CA X'', ''Root CA'']"
    by code_simp
  then obtain tls c' d' where run: "For ?L ?chain (labCache ?chain, emptyDisk 5) = (Inr tls, c', d')"
      "tc_Certificate tls = [''example.com'', ''CA X'', ''Root CA'']"
    by (cases "For ?L ?chain (labCache ?chain, emptyDisk 5)"; cases "fst (For ?L ?chain (labCache ?chain, emptyDisk 5))") auto
  have "fst (labRoot ?L) = Inr labCA" by code_simp
  then obtain s1 where root: "labRoot ?L = (Inr labCA, s1)" by (cases "labRoot ?L") auto
  have "regularChain ?L labCA ?chain" by code_simp
  from minted_survives_restart [OF emptyDisk_ready labUUID_ok labTrust _ root [unfolded labRoot_def] this labCache_def run(1)]
  show ?thesis using run by auto
qed

text \<open>
  A site whose chain repeats the subject of its leaf, as one does that sends its leaf twice, is served
  by the process that minted the clone and by none after it: the clone is written, and every later process that reads it
  back finds no leaf in it and answers the site with an error without writing, so the entry stays until the cache is flushed.
\<close>

theorem repeated_leaf_poisons_cache:
  assumes "posix_ready p d" and "isUUID (IDFor L cache realChain)" and "trustStoreKeeps L"
    and "\<And>lk. linker = Some lk \<Longrightarrow> linkerKeeps (posix_ready p) (posix_view p) lk"
    and "cache = NewCertCache L (posixStorage p) linker clusterKey ca"
    and "realChain = r # r' # rest" and "c_Subject r = c_Subject r'" and "issuanceBudget ca = None"
    and "posix_view p d (certKey (IDFor L cache realChain)) = None"
    and "For L realChain (cache, d) = (Inr tls, c', d')"
  shows "For L realChain (cache, d') = (Inl (CacheChain (certKey (IDFor L cache realChain))), cache, d')"
proof -
  have cache: "cc_storage cache = posixStorage p" "cc_hot cache (IDFor L cache realChain) = None" "cc_ca cache = ca" "cc_linker cache = linker"
    using assms(5) by (simp_all add: NewCertCache_def)
  have "mint L (IDFor L cache realChain) realChain (cache, d) = (Inr tls, c', d')" using assms(6,10) by (simp add: For_def)
  then have "mint L (IDFor L cache realChain) realChain (cache, d') = (Inl (CacheChain (certKey (IDFor L cache realChain))), cache, d')"
    by (rule posix_store.mint_fails_after_restart [where r = r and r' = r' and rest = rest])
      (use assms certKey_clean cache in \<open>auto simp: clonedPart_def\<close>)
  then show ?thesis using assms(6) by (simp add: For_def)
qed

theorem repeated_leaf_poisons_cache_witness:
  "\<exists>tls c' d'. For (labLib [labLeaf, labLeaf]) [labLeaf, labLeaf] (labCache [labLeaf, labLeaf], emptyDisk 5) = (Inr tls, c', d') \<and>
     fst (For (labLib [labLeaf, labLeaf]) [labLeaf, labLeaf] (labCache [labLeaf, labLeaf], d')) = Inl (CacheChain (certKey labUUID))"
proof -
  let ?chain = "[labLeaf, labLeaf]" and ?L = "labLib [labLeaf, labLeaf]"
  have "\<not> isl (fst (For ?L ?chain (labCache ?chain, emptyDisk 5)))" by code_simp
  then obtain tls c' d' where run: "For ?L ?chain (labCache ?chain, emptyDisk 5) = (Inr tls, c', d')"
    by (cases "For ?L ?chain (labCache ?chain, emptyDisk 5)"; cases "fst (For ?L ?chain (labCache ?chain, emptyDisk 5))") auto
  have "issuanceBudget labCA = None" "IDFor ?L (labCache ?chain) ?chain = labUUID" by code_simp+
  moreover have "posix_view demoPosix (emptyDisk 5) (certKey (IDFor ?L (labCache ?chain) ?chain)) = None"
    by (simp add: posix_view_def emptyDisk_def disk_find_def)
  ultimately show ?thesis
    using repeated_leaf_poisons_cache [OF emptyDisk_ready labUUID_ok labTrust _ labCache_def refl refl _ _ run] run by simp
qed

theorem served_chain_signed_witness:
  "\<exists>tls chain. fst (For (labLib [labLeaf, labIssuer]) [labLeaf, labIssuer] (labCache [labLeaf, labIssuer], emptyDisk 5)) = Inr tls \<and>
     tc_Certificate tls = map c_Raw chain @ ChainDER labCA \<and> signedBy (c_PublicKey (ca_Cert labCA)) chain"
proof -
  let ?chain = "[labLeaf, labIssuer]" and ?L = "labLib [labLeaf, labIssuer]"
  have "\<not> isl (fst (For ?L ?chain (labCache ?chain, emptyDisk 5)))" by code_simp
  then obtain tls cs' where run: "For ?L ?chain (labCache ?chain, emptyDisk 5) = (Inr tls, cs')"
    by (cases "For ?L ?chain (labCache ?chain, emptyDisk 5)"; cases "fst (For ?L ?chain (labCache ?chain, emptyDisk 5))") auto
  have "fst (labRoot ?L) = Inr labCA" by code_simp
  then obtain s1 where root: "labRoot ?L = (Inr labCA, s1)" by (cases "labRoot ?L") auto
  have "cc_ca (labCache ?chain) = labCA" by (simp add: labCache_def NewCertCache_def)
  from served_chain_signed [OF root [unfolded labRoot_def] this run] run show ?thesis by auto
qed

end
