(* ===== verification/Control.thy ===== *)
theory Control
  imports Actions EngineSpec LeafCache
begin

text \<open>
  The control API (\<open>src/internal/control/\<close>) and the counters it reports (\<open>src/internal/flowsink/\<close>). A handler takes a request
  and the server with the state of its backend and gives the reply and the next state; the text of an error reply is
  the value it is printed from. The decoder of a request body reads the first JSON value of it and is a parameter.
  The properties: a refused request changes nothing; an accepted rule file governs the client's next lookup.
\<close>

subsection \<open>Counters\<close>

record Counters =
  fc_connsAccepted :: "64 word"
  fc_connsActive :: "64 word"
  fc_requests :: "64 word"

definition ConnAccepted :: "Counters \<Rightarrow> Counters" where
  "ConnAccepted c = c\<lparr>fc_connsAccepted := fc_connsAccepted c + 1, fc_connsActive := fc_connsActive c + 1\<rparr>"

definition ConnClosed :: "Counters \<Rightarrow> Counters" where
  "ConnClosed c = c\<lparr>fc_connsActive := fc_connsActive c - 1\<rparr>"

definition RequestServed :: "Counters \<Rightarrow> Counters" where
  "RequestServed c = c\<lparr>fc_requests := fc_requests c + 1\<rparr>"

record Snapshot =
  sn_ConnsAccepted :: int
  sn_ConnsActive :: int
  sn_Requests :: int

definition counters_Snapshot :: "Counters \<Rightarrow> Snapshot" where
  "counters_Snapshot c =
     \<lparr>sn_ConnsAccepted = sint (fc_connsAccepted c), sn_ConnsActive = sint (fc_connsActive c), sn_Requests = sint (fc_requests c)\<rparr>"

definition zeroSnapshot :: Snapshot where
  "zeroSnapshot = \<lparr>sn_ConnsAccepted = 0, sn_ConnsActive = 0, sn_Requests = 0\<rparr>"

subsection \<open>The server\<close>

definition maxRuleFileBytes :: nat where "maxRuleFileBytes = 10 * 2 ^ 20"
definition maxDefaultRulesetBytes :: nat where "maxDefaultRulesetBytes = 64 * 2 ^ 20"

record ctlRequest =
  hr_Method :: string
  hr_Path :: "string list"
  hr_validate :: string
  hr_Body :: "string option"
  hr_RemoteAddr :: string

record logRecord =
  lr_remote :: string
  lr_action :: string
  lr_target :: string
  lr_failed :: bool

record 's Control =
  ct_CA :: CA
  ct_Cache :: "'s CertCache"
  ct_Store :: "'s sys"
  ct_Flow :: "Counters option"
  ct_Outcall :: outcallState
  ct_Logger :: "logRecord list option"

datatype ctlProblem =
    InvalidIP | ReadBody | TooLarge | InvalidJSON
  | InvalidRules compileError | InvalidEgress egressError | InvalidAuth authError | InvalidTable tableError
  | ProbeFailed nat nat string outcallError | BucketProbeFailed string nat nat string outcallError
  | SaveFailed storageError | ReadFailed engineError | CountFailed storageError | FlushFailed certError

datatype ctlReply =
    Refused int ctlProblem
  | Content string string
  | NoContent
  | StatsReply Snapshot nat
  | StaticPage
  | NoRoute

type_synonym 's ctlState = "'s Control \<times> 's"

definition logAction :: "ctlRequest \<Rightarrow> string \<Rightarrow> string \<Rightarrow> bool \<Rightarrow> 's Control \<Rightarrow> 's Control" where
  "logAction r action target failed c =
     (case ct_Logger c of
        None \<Rightarrow> c
      | Some recs \<Rightarrow>
          c\<lparr>ct_Logger := Some (recs @ [\<lparr>lr_remote = hr_RemoteAddr r, lr_action = action, lr_target = target, lr_failed = failed\<rparr>])\<rparr>)"

text \<open>\<open>http.Error\<close> after the log record of a failed action.\<close>

definition refuse :: "ctlRequest \<Rightarrow> string \<Rightarrow> string \<Rightarrow> int \<Rightarrow> ctlProblem \<Rightarrow> 's ctlState \<Rightarrow> ctlReply \<times> 's ctlState" where
  "refuse r action target status p cs = (Refused status p, logAction r action target True (fst cs), snd cs)"

definition succeed :: "ctlRequest \<Rightarrow> string \<Rightarrow> string \<Rightarrow> 's ctlState \<Rightarrow> ctlReply \<times> 's ctlState" where
  "succeed r action target cs = (NoContent, logAction r action target False (fst cs), snd cs)"

subsection \<open>The load-time probe\<close>

definition probeOne :: "golib \<Rightarrow> outcallEnv \<Rightarrow> string \<Rightarrow> string \<Rightarrow> CompiledOutcall \<Rightarrow> Service \<Rightarrow> outcallState \<Rightarrow> result \<times> outcallState" where
  "probeOne G E identity name co sv st =
     callService G E (co_CacheKey co) \<lparr>tg_Socket = co_Socket co, tg_Path = co_Path co, tg_URL = co_URL co\<rparr>
       \<lparr>rq_Version = outcallVersion, rq_Action = name, rq_UUID = [], rq_Client = identity, rq_Proto = ''http'', rq_Dst = [],
        rq_HTTP = Some \<lparr>hq_Method = ''GET'', hq_URL = ''http://'' @ identity @ ''/'', hq_Headers = (\<lambda>_. None)\<rparr>,
        rq_Credential = None\<rparr> sv st"

fun probeActions :: "golib \<Rightarrow> outcallEnv \<Rightarrow> string \<Rightarrow> nat \<Rightarrow> CompiledAction list \<Rightarrow> outcallState \<Rightarrow> (nat \<times> string \<times> outcallError) option \<times> outcallState" where
  "probeActions G E identity j [] st = (None, st)"
| "probeActions G E identity j (a # as) st =
     (case (ca_Outcall a, os_service st) of
        (Some co, Some sv) \<Rightarrow>
          (case probeOne G E identity (ca_Name a) co sv st of
             (Inl e, st') \<Rightarrow> (Some (j, ca_Name a, e), st')
           | (Inr _, st') \<Rightarrow> probeActions G E identity (Suc j) as st')
      | _ \<Rightarrow> probeActions G E identity (Suc j) as st)"

fun probeRules :: "golib \<Rightarrow> outcallEnv \<Rightarrow> string \<Rightarrow> nat \<Rightarrow> CompiledRule list \<Rightarrow> outcallState \<Rightarrow> (nat \<times> nat \<times> string \<times> outcallError) option \<times> outcallState" where
  "probeRules G E identity i [] st = (None, st)"
| "probeRules G E identity i (r # rs) st =
     (case probeActions G E identity 0 (cr_request r) st of
        (Some (j, name, e), st') \<Rightarrow> (Some (i, j, name, e), st')
      | (None, st') \<Rightarrow> probeRules G E identity (Suc i) rs st')"

definition probeOutcalls :: "golib \<Rightarrow> outcallEnv \<Rightarrow> string \<Rightarrow> CompiledRule list \<Rightarrow> 's Control \<Rightarrow> (nat \<times> nat \<times> string \<times> outcallError) option \<times> 's Control" where
  "probeOutcalls G E identity compiled c =
     (case os_service (ct_Outcall c) of
        None \<Rightarrow> (None, c)
      | Some _ \<Rightarrow> (case probeRules G E identity 0 compiled (ct_Outcall c) of (r, st) \<Rightarrow> (r, c\<lparr>ct_Outcall := st\<rparr>)))"

fun probeBuckets :: "golib \<Rightarrow> outcallEnv \<Rightarrow> (string \<times> RuleSet) list \<Rightarrow> 's Control \<Rightarrow> (string \<times> nat \<times> nat \<times> string \<times> outcallError) option \<times> 's Control" where
  "probeBuckets G E [] c = (None, c)"
| "probeBuckets G E ((key, rs) # bs) c =
     (case probeOutcalls G E key (rs_rules rs) c of
        (Some err, c') \<Rightarrow> (Some (key, err), c')
      | (None, c') \<Rightarrow> probeBuckets G E bs c')"

subsection \<open>Handlers\<close>

text \<open>\<open>pem\<close> is the PEM encoder.\<close>

definition handleCAPEM :: "(string \<Rightarrow> string) \<Rightarrow> 's ctlState \<Rightarrow> ctlReply \<times> 's ctlState" where
  "handleCAPEM pem cs = (Content ''application/x-pem-file'' (pem (c_Raw (ca_Cert (ct_CA (fst cs))))), cs)"

definition handleCADER :: "'s ctlState \<Rightarrow> ctlReply \<times> 's ctlState" where
  "handleCADER cs = (Content ''application/pkix-cert'' (c_Raw (ca_Cert (ct_CA (fst cs)))), cs)"

definition handleStats :: "'s ctlState \<Rightarrow> ctlReply \<times> 's ctlState" where
  "handleStats cs =
     (case cs of (c, s) \<Rightarrow>
      let snap = (case ct_Flow c of Some f \<Rightarrow> counters_Snapshot f | None \<Rightarrow> zeroSnapshot) in
      case Count (ct_Cache c) s of
        (Inl e, s') \<Rightarrow> (Refused 500 (CountFailed e), c, s')
      | (Inr n, s') \<Rightarrow> (StatsReply snap n, c, s'))"

definition handleGetRule :: "string \<Rightarrow> 's ctlState \<Rightarrow> ctlReply \<times> 's ctlState" where
  "handleGetRule ip cs =
     (case cs of (c, s) \<Rightarrow>
      case ParseAddr ip of
        None \<Rightarrow> (Refused 400 InvalidIP, c, s)
      | Some addr \<Rightarrow>
          (case LoadRaw (ct_Store c) addr s of
             (Inl e, s') \<Rightarrow> (Refused 500 (ReadFailed e), c, s')
           | (Inr raw, s') \<Rightarrow>
               (Content ''application/json'' (case raw of Some data \<Rightarrow> data | None \<Rightarrow> ''{\"http\":[]}''), c, s')))"

text \<open>What is checked before the probe and the write, in the order of the code; a refusal carries its status.\<close>

definition readBody :: "nat \<Rightarrow> ctlRequest \<Rightarrow> (int \<times> ctlProblem, string) res" where
  "readBody limit r =
     (case map_option (take (limit + 1)) (hr_Body r) of
        None \<Rightarrow> Inl (400, ReadBody)
      | Some body \<Rightarrow> if limit < length body then Inl (413, TooLarge) else Inr body)"

definition validateRuleFile :: "golib \<Rightarrow> RuleFile \<Rightarrow> (int \<times> ctlProblem, CompiledRule list) res" where
  "validateRuleFile G rf =
     (case Compile G (rf_HTTP rf) of
        Inl e \<Rightarrow> Inl (400, InvalidRules e)
      | Inr compiled \<Rightarrow>
          (case (case rf_Egress rf of None \<Rightarrow> Inr [] | Some es \<Rightarrow> CompileEgress G es) of
             Inl e \<Rightarrow> Inl (400, InvalidEgress e)
           | Inr _ \<Rightarrow>
               (case CompileAuth (rf_Auth rf) of
                  Inl e \<Rightarrow> Inl (400, InvalidAuth e)
                | Inr _ \<Rightarrow> Inr compiled)))"

definition acceptRule ::
    "golib \<Rightarrow> (string \<Rightarrow> RuleFile option) \<Rightarrow> ctlRequest \<Rightarrow> string \<Rightarrow> (int \<times> ctlProblem, Addr \<times> string \<times> CompiledRule list) res" where
  "acceptRule G decode r ip =
     bindR (case ParseAddr ip of None \<Rightarrow> Inl (400, InvalidIP) | Some addr \<Rightarrow> Inr addr) (\<lambda>addr.
     bindR (readBody maxRuleFileBytes r) (\<lambda>body.
     bindR (case decode body of None \<Rightarrow> Inl (400, InvalidJSON) | Some rf \<Rightarrow> Inr rf) (\<lambda>rf.
     bindR (validateRuleFile G rf) (\<lambda>compiled. Inr (addr, body, compiled)))))"

definition handlePutRule ::
    "golib \<Rightarrow> outcallEnv \<Rightarrow> (string \<Rightarrow> RuleFile option) \<Rightarrow> ctlRequest \<Rightarrow> string \<Rightarrow> 's ctlState \<Rightarrow> ctlReply \<times> 's ctlState" where
  "handlePutRule G E decode r ip cs =
     (let no = refuse r ''put-rule'' ip in
      case acceptRule G decode r ip of
        Inl (status, p) \<Rightarrow> no status p cs
      | Inr (addr, body, compiled) \<Rightarrow>
          let (probe, c1) = (if hr_validate r \<noteq> ''false'' then probeOutcalls G E ip compiled (fst cs) else (None, fst cs)) in
          case probe of
            Some (i, j, name, e) \<Rightarrow> no 400 (ProbeFailed i j name e) (c1, snd cs)
          | None \<Rightarrow>
              (case Save (ct_Store c1) addr body (snd cs) of
                 (Some e, s') \<Rightarrow> no 500 (SaveFailed e) (c1, s')
               | (None, s') \<Rightarrow> succeed r ''put-rule'' ip (c1, s')))"

definition handleDeleteRule :: "ctlRequest \<Rightarrow> string \<Rightarrow> 's ctlState \<Rightarrow> ctlReply \<times> 's ctlState" where
  "handleDeleteRule r ip cs =
     (case ParseAddr ip of
        None \<Rightarrow> refuse r ''delete-rule'' ip 400 InvalidIP cs
      | Some addr \<Rightarrow>
          (case store_Delete (ct_Store (fst cs)) addr (snd cs) of
             (Some e, s') \<Rightarrow> refuse r ''delete-rule'' ip 500 (SaveFailed e) (fst cs, s')
           | (None, s') \<Rightarrow> succeed r ''delete-rule'' ip (fst cs, s')))"

definition handleGetDefault :: "'s ctlState \<Rightarrow> ctlReply \<times> 's ctlState" where
  "handleGetDefault cs =
     (case cs of (c, s) \<Rightarrow>
      case LoadRawDefault (ct_Store c) s of
        (Inl e, s') \<Rightarrow> (Refused 500 (ReadFailed e), c, s')
      | (Inr raw, s') \<Rightarrow> (Content ''application/json'' (case raw of Some data \<Rightarrow> data | None \<Rightarrow> ''{}''), c, s'))"

definition handlePutDefault :: "golib \<Rightarrow> jsonlib \<Rightarrow> outcallEnv \<Rightarrow> ctlRequest \<Rightarrow> 's ctlState \<Rightarrow> ctlReply \<times> 's ctlState" where
  "handlePutDefault G J E r cs =
     (let no = refuse r ''put-default'' ''default'' in
      case bindR (readBody maxDefaultRulesetBytes r) (\<lambda>body.
             case CompileDefaultRuleset G J body of Inl e \<Rightarrow> Inl (400, InvalidTable e) | Inr x \<Rightarrow> Inr x) of
        Inl (status, p) \<Rightarrow> no status p cs
      | Inr (compiled, canonicalText) \<Rightarrow>
          let (probe, c1) = (if hr_validate r \<noteq> ''false'' then probeBuckets G E (Buckets compiled) (fst cs) else (None, fst cs)) in
          case probe of
            Some (key, i, j, name, e) \<Rightarrow> no 400 (BucketProbeFailed key i j name e) (c1, snd cs)
          | None \<Rightarrow>
              (case SaveDefault (ct_Store c1) canonicalText (snd cs) of
                 (Some e, s') \<Rightarrow> no 500 (SaveFailed e) (c1, s')
               | (None, s') \<Rightarrow> succeed r ''put-default'' ''default'' (c1, s')))"

definition handleFlushCache :: "ctlRequest \<Rightarrow> 's ctlState \<Rightarrow> ctlReply \<times> 's ctlState" where
  "handleFlushCache r cs =
     (case Flush (ct_Cache (fst cs), snd cs) of
        (Some e, cache, s') \<Rightarrow> refuse r ''flush-cache'' [] 500 (FlushFailed e) ((fst cs)\<lparr>ct_Cache := cache\<rparr>, s')
      | (None, cache, s') \<Rightarrow> succeed r ''flush-cache'' [] ((fst cs)\<lparr>ct_Cache := cache\<rparr>, s'))"

text \<open>The routes; the path is split into its segments, and a literal segment is preferred to a variable one.\<close>

definition Handler ::
    "golib \<Rightarrow> jsonlib \<Rightarrow> outcallEnv \<Rightarrow> (string \<Rightarrow> string) \<Rightarrow> (string \<Rightarrow> RuleFile option) \<Rightarrow> ctlRequest \<Rightarrow> 's ctlState \<Rightarrow> ctlReply \<times> 's ctlState" where
  "Handler G J E pem decode r cs =
     (let path = hr_Path r; get = (hr_Method r \<in> {''GET'', ''HEAD''});
          rule = (length path = 2 \<and> path ! 0 = ''rules'' \<and> path ! 1 \<noteq> []); ip = path ! 1 in
      if get \<and> path = [''ca.pem''] then handleCAPEM pem cs
      else if get \<and> path = [''ca.der''] then handleCADER cs
      else if get \<and> path = [''stats''] then handleStats cs
      else if get \<and> path = [''rules'', ''default''] then handleGetDefault cs
      else if hr_Method r = ''PUT'' \<and> path = [''rules'', ''default''] then handlePutDefault G J E r cs
      else if get \<and> rule then handleGetRule ip cs
      else if hr_Method r = ''PUT'' \<and> rule then handlePutRule G E decode r ip cs
      else if hr_Method r = ''DELETE'' \<and> rule then handleDeleteRule r ip cs
      else if hr_Method r = ''DELETE'' \<and> path = [''cache''] then handleFlushCache r cs
      else if get then (StaticPage, cs)
      else (NoRoute, cs))"

subsection \<open>Lemmas\<close>

definition unchanged :: "'s ctlState \<Rightarrow> ctlReply \<times> 's ctlState \<Rightarrow> bool" where
  "unchanged cs out \<longleftrightarrow>
     (case out of
        (Refused status p, c', s') \<Rightarrow> status < 500 \<longrightarrow> s' = snd cs \<and> ct_Cache c' = ct_Cache (fst cs) \<and> ct_CA c' = ct_CA (fst cs)
      | (NoRoute, c', s') \<Rightarrow> c' = fst cs \<and> s' = snd cs
      | _ \<Rightarrow> True)"

lemma logAction_keeps [simp]:
  "ct_Cache (logAction r a t f c) = ct_Cache c" "ct_CA (logAction r a t f c) = ct_CA c" "ct_Store (logAction r a t f c) = ct_Store c"
  by (simp_all add: logAction_def split: option.split)

lemma probeOutcalls_keeps:
  "probeOutcalls G E identity compiled c = (r, c') \<Longrightarrow> ct_Cache c' = ct_Cache c \<and> ct_CA c' = ct_CA c \<and> ct_Store c' = ct_Store c"
  by (auto simp: probeOutcalls_def split: option.splits prod.splits)

lemma probeBuckets_keeps:
  "probeBuckets G E bs c = (r, c') \<Longrightarrow> ct_Cache c' = ct_Cache c \<and> ct_CA c' = ct_CA c \<and> ct_Store c' = ct_Store c"
proof (induction G E bs c rule: probeBuckets.induct)
  case (2 G E key rs bs c)
  obtain e c1 where c1: "probeOutcalls G E key (rs_rules rs) c = (e, c1)" by (metis prod.exhaust)
  with 2 probeOutcalls_keeps [OF c1] show ?case by (cases e) auto
qed simp

lemma unchanged_refuse: "unchanged cs (refuse r a t status p (c, snd cs)) \<longleftrightarrow>
    (status < 500 \<longrightarrow> ct_Cache c = ct_Cache (fst cs) \<and> ct_CA c = ct_CA (fst cs))"
  by (simp add: unchanged_def refuse_def)

lemma unchanged_simps [simp]:
  "unchanged cs (refuse r a t status p cs)" "unchanged cs (succeed r a t cs')" "500 \<le> status \<Longrightarrow> unchanged cs (refuse r a t status p cs')"
  "unchanged cs (Content k d, cs')" "unchanged cs (StaticPage, cs')" "unchanged cs (NoRoute, cs)" "unchanged cs (StatsReply sn n, cs')"
  "unchanged cs (Refused status p, cs)" "500 \<le> status \<Longrightarrow> unchanged cs (Refused status p, cs')"
  by (simp_all add: unchanged_def refuse_def succeed_def split: prod.split)

lemma reads_unchanged:
  "unchanged cs (handleCAPEM pem cs)" "unchanged cs (handleCADER cs)" "unchanged cs (handleStats cs)" "unchanged cs (handleGetRule ip cs)"
  "unchanged cs (handleGetDefault cs)" "unchanged cs (handleDeleteRule r ip cs)" "unchanged cs (handleFlushCache r cs)"
  by (auto simp: handleCAPEM_def handleCADER_def handleStats_def handleGetRule_def handleGetDefault_def handleDeleteRule_def
      handleFlushCache_def Let_def split: prod.split option.split sum.split)

lemma readBody_Inr: "readBody limit r = Inr body \<Longrightarrow> hr_Body r = Some body \<and> length body \<le> limit"
  by (auto simp: readBody_def split: option.splits if_splits)

lemma validateRuleFile_compiles: "validateRuleFile G rf = Inr compiled \<Longrightarrow> \<exists>rs. compileFile G rf = Inr rs"
  by (auto simp: validateRuleFile_def compileFile_def split: sum.splits option.splits)

lemma acceptRule_Inr:
  assumes "acceptRule G decode r ip = Inr (addr, body, compiled)"
  obtains rf rs where "ParseAddr ip = Some addr" "hr_Body r = Some body" "length body \<le> maxRuleFileBytes" "decode body = Some rf"
    "compileFile G rf = Inr rs"
proof -
  from assms obtain rf where "ParseAddr ip = Some addr" "readBody maxRuleFileBytes r = Inr body" "decode body = Some rf"
      "validateRuleFile G rf = Inr compiled"
    by (auto simp: acceptRule_def split: option.splits)
  moreover from validateRuleFile_compiles [OF this(4)] obtain rs where "compileFile G rf = Inr rs" by blast
  ultimately show thesis using that readBody_Inr by blast
qed

text \<open>What stands between the request and the write of a rule file.\<close>

lemma handlePutRule_cases:
  obtains (refused) status p c1 where "handlePutRule G E decode r ip cs = refuse r ''put-rule'' ip status p (c1, snd cs)"
      "ct_Cache c1 = ct_Cache (fst cs)" "ct_CA c1 = ct_CA (fst cs)"
  | (saved) addr body compiled c1 where "acceptRule G decode r ip = Inr (addr, body, compiled)"
      "handlePutRule G E decode r ip cs =
         (case Save (ct_Store (fst cs)) addr body (snd cs) of
            (Some e, s') \<Rightarrow> refuse r ''put-rule'' ip 500 (SaveFailed e) (c1, s')
          | (None, s') \<Rightarrow> succeed r ''put-rule'' ip (c1, s'))"
proof (cases "acceptRule G decode r ip")
  case (Inl e)
  then show thesis by (intro refused [of "fst e" "snd e" "fst cs"]) (simp_all add: handlePutRule_def split: prod.split)
next
  case (Inr x)
  obtain addr body compiled where x: "x = (addr, body, compiled)" by (metis prod.exhaust)
  obtain probe c1 where probe: "(if hr_validate r \<noteq> ''false'' then probeOutcalls G E ip compiled (fst cs) else (None, fst cs)) = (probe, c1)"
    by (metis prod.exhaust)
  then have c1: "ct_Cache c1 = ct_Cache (fst cs) \<and> ct_CA c1 = ct_CA (fst cs) \<and> ct_Store c1 = ct_Store (fst cs)"
    by (cases "hr_validate r \<noteq> ''false''") (auto dest: probeOutcalls_keeps)
  show thesis
  proof (cases probe)
    case None
    with probe Inr x c1 show thesis by (intro saved [of addr body compiled c1]) (simp_all add: handlePutRule_def Let_def)
  next
    case (Some err)
    obtain i j name e where "err = (i, j, name, e)" by (metis prod.exhaust)
    with Some probe Inr x c1 show thesis
      by (intro refused [of 400 "ProbeFailed i j name e" c1]) (simp_all add: handlePutRule_def Let_def)
  qed
qed

lemma handlePutRule_unchanged: "unchanged cs (handlePutRule G E decode r ip cs)"
  by (rule handlePutRule_cases [of G E decode r ip cs]) (auto simp: unchanged_refuse split: prod.split option.split)

lemma handlePutDefault_unchanged: "unchanged cs (handlePutDefault G J E r cs)"
proof (cases "bindR (readBody maxDefaultRulesetBytes r) (\<lambda>body.
    case CompileDefaultRuleset G J body of Inl e \<Rightarrow> Inl (400, InvalidTable e) | Inr x \<Rightarrow> Inr x)")
  case (Inl e)
  then show ?thesis by (simp add: handlePutDefault_def Let_def split: prod.split)
next
  case (Inr x)
  obtain compiled canon where x: "x = (compiled, canon)" by (metis prod.exhaust)
  obtain probe c1 where probe: "(if hr_validate r \<noteq> ''false'' then probeBuckets G E (Buckets compiled) (fst cs) else (None, fst cs)) = (probe, c1)"
    by (metis prod.exhaust)
  then have "ct_Cache c1 = ct_Cache (fst cs) \<and> ct_CA c1 = ct_CA (fst cs)"
    by (cases "hr_validate r \<noteq> ''false''") (auto dest: probeBuckets_keeps)
  with Inr x probe show ?thesis
    by (auto simp: handlePutDefault_def Let_def unchanged_refuse split: option.split prod.split)
qed

subsection \<open>Properties\<close>

text \<open>
  C17. A request the control API refuses changes nothing: whatever the endpoint, when the answer is a client error
  (a malformed address or body, a file that is too large, does not decode, does not compile, leaves a gap or whose
  broker probe fails) the backend is exactly as before, as are the leaf cache and the authority, and a request
  for which there is no route leaves the server as it is.
\<close>

theorem refused_request_changes_nothing:
  "case Handler G J E pem decode r (c, s) of
     (Refused status p, c', s') \<Rightarrow> 500 \<le> status \<or> s' = s \<and> ct_Cache c' = ct_Cache c \<and> ct_CA c' = ct_CA c
   | (NoRoute, c', s') \<Rightarrow> c' = c \<and> s' = s
   | _ \<Rightarrow> True"
proof -
  have "unchanged (c, s) (Handler G J E pem decode r (c, s))"
    by (simp add: Handler_def Let_def reads_unchanged handlePutRule_unchanged handlePutDefault_unchanged)
  then show ?thesis by (auto simp: unchanged_def split: prod.splits ctlReply.splits)
qed

text \<open>After an accepted rule file the engine answers what the engine's own parser makes of it.\<close>

lemma accepted_put_stored:
  assumes run: "engine_run (posixSys p uuid sha1) (posix_view p) (posix_ready p) G J e d hist tr" and docs: "documentsApart G J"
    and c: "ct_Store c = posixSys p uuid sha1"
    and r: "hr_Method r = ''PUT''" "hr_Path r = [''rules'', ip]" "ip \<noteq> ''default''"
    and put: "Handler G J E pem decode r (c, d) = (NoContent, c', d')"
    and vers: "hist \<subseteq>\<^sub>m hist'" "viewIn hist' (posix_view p d')"
  obtains addr body rf rs where "ParseAddr ip = Some addr" "hr_Body r = Some body" "decode body = Some rf" "compileFile G rf = Inr rs"
    "fst (Lookup (posixSys p uuid sha1) G J addr e d') =
       answer (case json_ruleFile J body of None \<Rightarrow> Inl (FileParse (keyFor (posixSys p uuid sha1) addr)) | Some rf' \<Rightarrow> compileFile G rf')"
proof -
  let ?sys = "posixSys p uuid sha1"
  have handled: "handlePutRule G E decode r ip (c, d) = (NoContent, c', d')"
    using put r by (simp add: Handler_def Let_def split: if_splits)
  obtain addr body compiled where ok: "acceptRule G decode r ip = Inr (addr, body, compiled)"
    and save: "Save ?sys addr body d = (None, d')"
  proof (rule handlePutRule_cases [of G E decode r ip "(c, d)"])
    fix status p c1
    assume "handlePutRule G E decode r ip (c, d) = refuse r ''put-rule'' ip status p (c1, snd (c, d))"
    then show thesis using handled by (simp add: refuse_def)
  next
    fix addr body compiled c1
    assume "acceptRule G decode r ip = Inr (addr, body, compiled)"
      "handlePutRule G E decode r ip (c, d) =
         (case Save (ct_Store (fst (c, d))) addr body (snd (c, d)) of
            (Some e, s') \<Rightarrow> refuse r ''put-rule'' ip 500 (SaveFailed e) (c1, s')
          | (None, s') \<Rightarrow> succeed r ''put-rule'' ip (c1, s'))"
    then show thesis using handled c by (intro that) (auto simp: refuse_def succeed_def split: prod.splits option.splits)
  qed
  have ready: "posix_ready p d" using posix_engine.run_stored [OF run docs] by simp
  have "posix_Put p (keyFor ?sys addr) body d = (None, d')"
    using save by (simp add: Save_def posixSys_def posixStorage_def)
  with posix_Put_ready [OF ready keyFor_clean [of ?sys addr], of body]
  obtain v where d': "posix_ready p d'" "posix_view p d' (keyFor ?sys addr) = Some (body, v)" by (auto simp: posix_view_def)
  note run' = engine_run.update [OF run d'(1) vers]
  from posix_engine.run_stored [OF run' docs]
  have "tableCoherent G J hist' e" "clientCoherent G J ?sys hist' e" "re_cacheTTL e = 0" by simp_all
  from posix_engine.lookup_stored [OF docs this(1,2) d'(1) vers(2) this(3), of addr]
  have "fst (Lookup ?sys G J addr e d') = answer (storedPolicy G J ?sys (posix_view p d') addr)" by auto
  then have ask: "fst (Lookup ?sys G J addr e d') =
      answer (case json_ruleFile J body of None \<Rightarrow> Inl (FileParse (keyFor ?sys addr)) | Some rf' \<Rightarrow> compileFile G rf')"
    by (simp add: storedPolicy_def d'(2))
  from acceptRule_Inr [OF ok] obtain rf rs where "ParseAddr ip = Some addr" "hr_Body r = Some body" "decode body = Some rf"
    "compileFile G rf = Inr rs" by blast
  then show thesis using ask by (rule that)
qed


text \<open>
  The decoder of the request stops after the first value; the engine's parser wants the whole text. A body with
  something after its rule file is accepted and stored, and from then on every lookup of the client is an error.
\<close>

lemma trailing_data_locks_out:
  assumes "engine_run (posixSys p uuid sha1) (posix_view p) (posix_ready p) G J e d hist tr" and "documentsApart G J"
    and "ct_Store c = posixSys p uuid sha1"
    and "hr_Method r = ''PUT''" and "hr_Path r = [''rules'', ip]" and "ip \<noteq> ''default''"
    and "Handler G J E pem decode r (c, d) = (NoContent, c', d')"
    and "hist \<subseteq>\<^sub>m hist'" and "viewIn hist' (posix_view p d')"
    and "hr_Body r = Some body" and "json_ruleFile J body = None"
  shows "\<exists>addr. ParseAddr ip = Some addr \<and>
    fst (Lookup (posixSys p uuid sha1) G J addr e d') = Inl (FileParse (keyFor (posixSys p uuid sha1) addr))"
  by (rule accepted_put_stored [OF assms(1-9)]) (use assms(10,11) in auto)

definition labControl :: "disk Control" where
  "labControl = \<lparr>ct_CA = labCA, ct_Cache = labCache [labLeaf], ct_Store = demoSys, ct_Flow = None,
     ct_Outcall = \<lparr>os_service = None, os_step = 0, os_sent = []\<rparr>, ct_Logger = None\<rparr>"

definition labPut :: ctlRequest where
  "labPut = \<lparr>hr_Method = ''PUT'', hr_Path = [''rules'', ''10.0.0.7''], hr_validate = [], hr_Body = Some ''one'', hr_RemoteAddr = ''@''\<rparr>"

definition labAnswer :: "ctlReply \<times> disk ctlState" where
  "labAnswer = Handler plainLib oneFileJSON demoOutcallEnv (\<lambda>d. d) (json_ruleFile oneFileJSON) labPut (labControl, emptyDisk 5)"


end
