(* ===== verification/Startup.thy ===== *)
theory Startup
  imports Telemetry Acceptors Pipeline Control
begin

text \<open>
  The start of the process, \<open>run\<close> of \<open>src/cmd/mitmania/main.go\<close>: configuration, telemetry, backend, authority, default
  rules, engine, listeners, in that order and with the error each step ends the start with; and the \<open>cat\<close> log handler.
  The backend is the one inside the two decorators, which \<open>Storage\<close> shows to be transparent. The contract of a backend is
  extended by the removal of a directory (\<open>prefix_store\<close>). The property: a start never touches the stored rules, except
  that it seeds the default table when there is none, and a cluster without any rules starts with the guarded policy
  for every client.
\<close>

subsection \<open>The log format without framing\<close>

text \<open>
  \<open>catHandler\<close>: the message and its fields, those bound to the handler first; an attribute is its key and its printed
  value, and the zero attribute is \<open>None\<close>.
\<close>

type_synonym logAttr = "(string \<times> string) option"

record catHandler =
  ch_level :: int
  ch_attrs :: "logAttr list"

definition cat_Enabled :: "catHandler \<Rightarrow> int \<Rightarrow> bool" where
  "cat_Enabled h level \<longleftrightarrow> ch_level h \<le> level"

definition writeCatAttr :: "logAttr \<Rightarrow> string" where
  "writeCatAttr a = (case a of None \<Rightarrow> [] | Some (k, v) \<Rightarrow> '' '' @ k @ ''='' @ v)"

definition cat_Handle :: "catHandler \<Rightarrow> string \<Rightarrow> logAttr list \<Rightarrow> string" where
  "cat_Handle h msg attrs = msg @ concat (map writeCatAttr (ch_attrs h)) @ concat (map writeCatAttr attrs) @ ''\<newline>''"

definition cat_WithAttrs :: "catHandler \<Rightarrow> logAttr list \<Rightarrow> catHandler" where
  "cat_WithAttrs h attrs = h\<lparr>ch_attrs := ch_attrs h @ attrs\<rparr>"

lemma cat_WithAttrs_Handle: "cat_Handle (cat_WithAttrs h bound) msg attrs = cat_Handle h msg (bound @ attrs)"
  by (simp add: cat_Handle_def cat_WithAttrs_def)

subsection \<open>Starting\<close>

datatype startError =
    StartConfig configError | StartTelemetry telemetryError | StartStorage openError | StartBackend
  | StartCA certError | StartDefault "engineError + storageError" | StartListen string | StartSelfCert certError

text \<open>
  What a start depends on: the libraries, the process, the backend behind an opened URL (\<open>None\<close> when its root cannot
  be created), the clock and random source of a new authority, and the sockets: whether \<open>net.Listen\<close> succeeds and which
  of the two transparent socket options can be set.
\<close>

record 's startEnv =
  su_G :: golib
  su_L :: certlib
  su_pem :: "string \<Rightarrow> string"
  su_proc :: procEnv
  su_tel :: telemetryEnv
  su_backend :: "backend \<Rightarrow> ('s sys \<times> 's linker option) option"
  su_now :: int
  su_freshKey :: privKey
  su_freshSerial :: int
  su_Listen :: "string \<Rightarrow> string \<Rightarrow> bool"
  su_transparent4 :: bool
  su_transparent6 :: bool

record 's Process =
  ps_Config :: Config
  ps_Providers :: Providers
  ps_Engine :: RuleEngine
  ps_Handler :: Http1Handler
  ps_Control :: "'s Control"
  ps_Listeners :: "acceptor list"

definition net_Listen :: "'s startEnv \<Rightarrow> listenAddr \<Rightarrow> bool" where
  "net_Listen E a = su_Listen E (Network a) (listen_String a)"

definition listenHTTPProxy :: "'s startEnv \<Rightarrow> listenAddr \<Rightarrow> 'c \<Rightarrow> (startError, acceptor) res \<times> 'c" where
  "listenHTTPProxy E a cs = (if net_Listen E a then Inr (HTTPProxyAcceptor ''http_proxy'') else Inl (StartListen ''listen-http-proxy''), cs)"

definition listenHTTPSProxy :: "'s startEnv \<Rightarrow> HTTPSProxyAddr \<Rightarrow> 's CertCache \<times> 's \<Rightarrow> (startError, acceptor) res \<times> 's CertCache \<times> 's" where
  "listenHTTPSProxy E h cs =
     (case SelfCert (su_L E) (su_now E) (hp_Names h) cs of
        (Inl e, cs') \<Rightarrow> (Inl (StartSelfCert e), cs')
      | (Inr leaf, cs') \<Rightarrow>
          (if net_Listen E (hp_Addr h) then Inr (HTTPProxyAcceptor ''https_proxy'') else Inl (StartListen ''listen-https-proxy''), cs'))"

definition ListenTProxy :: "'s startEnv \<Rightarrow> listenAddr \<Rightarrow> bool" where
  "ListenTProxy E a \<longleftrightarrow> (su_transparent4 E \<or> su_transparent6 E) \<and> net_Listen E a"

definition listenTProxy :: "'s startEnv \<Rightarrow> listenAddr \<Rightarrow> 'c \<Rightarrow> (startError, acceptor) res \<times> 'c" where
  "listenTProxy E a cs = (if ListenTProxy E a then Inr (TProxyAcceptor ''http_tproxy'') else Inl (StartListen ''listen-http-tproxy''), cs)"

definition listenRedirect :: "'s startEnv \<Rightarrow> listenAddr \<Rightarrow> 'c \<Rightarrow> (startError, acceptor) res \<times> 'c" where
  "listenRedirect E a cs = (if net_Listen E a then Inr (RedirectAcceptor ''http_redirect'') else Inl (StartListen ''listen-http-redirect''), cs)"

text \<open>The listeners are bound one after the other; the first failure closes those bound so far and ends the start.\<close>

fun listenAll :: "('c \<Rightarrow> (startError, acceptor) res \<times> 'c) list \<Rightarrow> acceptor list \<Rightarrow> 'c \<Rightarrow> (startError, acceptor list) res \<times> 'c" where
  "listenAll [] listeners cs = (Inr listeners, cs)"
| "listenAll (listen # rest) listeners cs =
     (case listen cs of
        (Inl e, cs') \<Rightarrow> (Inl e, cs')
      | (Inr a, cs') \<Rightarrow> listenAll rest (listeners @ [a]) cs')"

definition whenSet :: "'a option \<Rightarrow> ('a \<Rightarrow> 'b) \<Rightarrow> 'b list" where
  "whenSet x f = (case x of None \<Rightarrow> [] | Some a \<Rightarrow> [f a])"

definition listenSteps :: "'s startEnv \<Rightarrow> Config \<Rightarrow> ('s CertCache \<times> 's \<Rightarrow> (startError, acceptor) res \<times> 's CertCache \<times> 's) list" where
  "listenSteps E cfg =
     whenSet (cg_HTTPProxy cfg) (listenHTTPProxy E) @ whenSet (cg_HTTPSProxy cfg) (listenHTTPSProxy E) @
     whenSet (cg_HTTPTProxy cfg) (listenTProxy E) @ whenSet (cg_HTTPRedirect cfg) (listenRedirect E)"

definition newHandler :: "'s startEnv \<Rightarrow> Config \<Rightarrow> CA \<Rightarrow> Http1Handler" where
  "newHandler E cfg ca =
     \<lparr>hh_CAPEM = Some (su_pem E (c_Raw (ca_Cert ca))), hh_HeaderLimit = nat (cg_HTTPHeaderLimit cfg),
      hh_ConnectTries = cg_HTTPConnectTries cfg, hh_HTTP2ConnectTries = cg_HTTP2ConnectTries cfg, hh_TrustedProxies = cg_TrustedProxies cfg\<rparr>"

text \<open>From the opened backend to the running process.\<close>

definition startOn :: "'s startEnv \<Rightarrow> Config \<Rightarrow> Providers \<Rightarrow> 's sys \<Rightarrow> 's linker option \<Rightarrow> 's \<Rightarrow> (startError, 's Process) res \<times> 's" where
  "startOn E cfg tp sys linker s =
     (case LoadOrGenerateCA (su_L E) (sy_store sys) (cg_ClusterKey cfg) (su_now E) (su_freshKey E) (su_freshSerial E) s of
        (Inl e, s1) \<Rightarrow> (Inl (StartCA e), s1)
      | (Inr ca, s1) \<Rightarrow>
          let cache = NewCertCache (su_L E) (sy_store sys) linker (cg_ClusterKey cfg) ca in
          (case EnsureDefault sys (su_G E) s1 of
             (Some e, s2) \<Rightarrow> (Inl (StartDefault e), s2)
           | (None, s2) \<Rightarrow>
               let engine = NewRuleEngine (cg_RulesCacheTTL cfg);
                   outcallSvc = NewService (nat (cg_OutcallMaxInflight cfg)) in
               (case listenAll (listenSteps E cfg) [] (cache, s2) of
                  (Inl e, _, s3) \<Rightarrow> (Inl e, s3)
                | (Inr listeners, cache', s3) \<Rightarrow>
                    (Inr \<lparr>ps_Config = cfg, ps_Providers = tp, ps_Engine = engine, ps_Handler = newHandler E cfg ca,
                       ps_Control = \<lparr>ct_CA = ca, ct_Cache = cache', ct_Store = sys, ct_Flow = Some \<lparr>fc_connsAccepted = 0, fc_connsActive = 0, fc_requests = 0\<rparr>,
                         ct_Outcall = \<lparr>os_service = Some outcallSvc, os_step = 0, os_sent = []\<rparr>, ct_Logger = Some []\<rparr>,
                       ps_Listeners = listeners\<rparr>, s3))))"

definition run :: "'s startEnv \<Rightarrow> cliFlags \<Rightarrow> spool \<Rightarrow> 's \<Rightarrow> (startError, 's Process) res \<times> 's" where
  "run E cli sp s =
     (case config_Parse (su_G E) (su_proc E) cli of
        Inl e \<Rightarrow> (Inl (StartConfig e), s)
      | Inr cfg \<Rightarrow>
          (case fst (Setup (su_G E) (su_tel E) cfg sp) of
             Inl e \<Rightarrow> (Inl (StartTelemetry e), s)
           | Inr tp \<Rightarrow>
               (case Open (su_G E) (su_proc E) (cg_Storage cfg) of
                  Inl e \<Rightarrow> (Inl (StartStorage e), s)
                | Inr b \<Rightarrow>
                    (case su_backend E b of
                       None \<Rightarrow> (Inl StartBackend, s)
                     | Some (sys, linker) \<Rightarrow> startOn E cfg tp sys linker s))))"

text \<open>The sessions a listener accepts, each handed to the dispatcher; connections are served one after the other here.\<close>

definition serveSessions :: "'s env \<Rightarrow> Http1Handler \<Rightarrow> acceptor \<Rightarrow> (bool \<times> (acceptError, netConn) res) list \<Rightarrow> 's world \<Rightarrow> 's world" where
  "serveSessions E h a evs w = fold (Dispatcher_Handle E h) (fst (acceptLoop a evs)) w"

subsection \<open>A backend that removes directories\<close>

locale prefix_store = blob_store st view ready keys
  for st :: "'s Storage" and view and ready and keys +
  assumes DeletePrefix: "ready s \<Longrightarrow> keys seg \<Longrightarrow> CHR ''/'' \<notin> set seg \<Longrightarrow>
    \<exists>s'. st_DeletePrefix st (seg @ ''/'') s = (None, s') \<and> ready s' \<and>
      (\<forall>k. keys k \<longrightarrow> view s' k = (if k = seg \<or> HasPrefix k (seg @ ''/'') then None else view s k))"
    and start_keys: "keys caKey" "keys tupleKey" "keys ''leaf''"
begin

text \<open>The authority's own keys and the leaf cache apart, nothing is changed.\<close>

lemma Put_keeps:
  assumes "st_Put st k data s = (r, s')" "ready s" "keys k" "keys k'" "k' \<noteq> k"
  shows "ready s' \<and> view s' k' = view s k'"
  using Put [OF assms(2,3), of data] assms by auto

lemma wipe_keeps:
  assumes "st_DeletePrefix st leafPrefix s = (r, s')" "ready s" "keys k" "\<not> HasPrefix k leafPrefix" "k \<noteq> ''leaf''"
  shows "ready s' \<and> view s' k = view s k"
  using DeletePrefix [OF assms(2) start_keys(3)] assms by (auto simp: leafPrefix_def)

lemma Get_same: "ready s \<Longrightarrow> keys k \<Longrightarrow> st_Get st k s = (r, s') \<Longrightarrow> s' = s"
  by (simp add: Get)

lemma reconcileTuple_keeps:
  assumes "reconcileTuple L st ca clusterKey generated s = (r, s')" and "ready s" and "keys k"
    and "\<not> HasPrefix k leafPrefix" "k \<noteq> ''leaf''" "k \<noteq> tupleKey"
  shows "ready s' \<and> view s' k = view s k"
proof -
  let ?want = "tupleHash L (ca_Cert ca) clusterKey"
  let ?wipe = "\<lambda>s. case st_DeletePrefix st leafPrefix s of (Some e, s1) \<Rightarrow> (Some (TupleWipe e), s1)
    | (None, s1) \<Rightarrow> (case st_Put st tupleKey ?want s1 of (Some e, s2) \<Rightarrow> (Some (TupleWrite e), s2) | (None, s2) \<Rightarrow> (None, s2))"
  have wipe: "ready s' \<and> view s' k = view s k" if "?wipe s = (r, s')" for r s'
  proof -
    obtain r1 s1 where d: "st_DeletePrefix st leafPrefix s = (r1, s1)" by force
    note one = wipe_keeps [OF d assms(2-5)]
    obtain r2 s2 where p: "st_Put st tupleKey ?want s1 = (r2, s2)" by force
    note two = Put_keeps [OF p conjunct1 [OF one] start_keys(2) assms(3,6)]
    show ?thesis using that one two by (auto simp: d p split: option.splits)
  qed
  have "s' = s \<or> (\<exists>r. ?wipe s = (r, s'))"
  proof (cases generated)
    case True
    then show ?thesis using assms(1) by (simp add: reconcileTuple_def Let_def)
  next
    case False
    obtain r1 where g: "st_Get st tupleKey s = (r1, s)" using Get [OF assms(2) start_keys(2)] by simp
    show ?thesis using assms(1) False
      by (auto simp: reconcileTuple_def Let_def g split: sum.splits storageError.splits if_splits)
  qed
  then show ?thesis using wipe assms(2) by blast
qed

lemma LoadOrGenerateCA_keeps:
  assumes "LoadOrGenerateCA L st clusterKey now key serial s = (r, s')" and "ready s" and "keys k"
    and "\<not> HasPrefix k leafPrefix" "k \<noteq> ''leaf''" "k \<noteq> tupleKey" "k \<noteq> caKey"
  shows "ready s' \<and> view s' k = view s k"
proof -
  note rec = reconcileTuple_keeps [OF _ _ assms(3-6)]
  obtain r1 where g: "st_Get st caKey s = (r1, s)" using Get [OF assms(2) start_keys(1)] by simp
  show ?thesis
  proof (cases r1)
    case (Inr x)
    then show ?thesis using assms(1,2) rec [OF _ assms(2)]
      by (auto simp: LoadOrGenerateCA_def g Let_def split: prod.splits sum.splits option.splits)
  next
    case (Inl e)
    show ?thesis
    proof (cases "e = ErrNotExist \<and> (\<exists>ca. generateCA L now key serial = Inr ca)")
      case False
      then show ?thesis using assms(1,2) Inl
        by (cases e) (auto simp: LoadOrGenerateCA_def g Let_def split: sum.splits)
    next
      case True
      then obtain ca where ca: "generateCA L now key serial = Inr ca" and e: "e = ErrNotExist" by blast
      obtain r2 s2 where p: "persistCA L st ca clusterKey s = (r2, s2)" by force
      then have two: "ready s2 \<and> view s2 k = view s k"
        using Put_keeps [OF _ assms(2) start_keys(1) assms(3,7)] assms(2) by (auto simp: persistCA_def split: option.splits prod.splits)
      show ?thesis
      proof (cases r2)
        case (Some e')
        then show ?thesis using assms(1) two by (simp add: LoadOrGenerateCA_def g Inl e ca p Let_def)
      next
        case None
        obtain r3 s3 where t: "reconcileTuple L st ca clusterKey True s2 = (r3, s3)" by force
        have "s' = s3" using assms(1) None by (auto simp: LoadOrGenerateCA_def g Inl e ca p t Let_def split: option.splits)
        then show ?thesis using rec [OF t] two by simp
      qed
    qed
  qed
qed

text \<open>On a backend without an authority one is generated and stored.\<close>

lemma LoadOrGenerateCA_fresh:
  assumes "generateCA L now key serial = Inr ca" and "ready s" and "view s caKey = None"
    and "cl_encodeCA L (ca_Key ca) (ca_Cert ca) (p12Password L clusterKey) = Some data"
  shows "\<exists>s'. LoadOrGenerateCA L st clusterKey now key serial s = (Inr (ca\<lparr>ca_Generated := True\<rparr>), s')"
proof -
  have g: "st_Get st caKey s = (Inl ErrNotExist, s)" using Get [OF assms(2) start_keys(1)] assms(3) by simp
  obtain s1 where p: "st_Put st caKey data s = (None, s1)" "ready s1" using Put [OF assms(2) start_keys(1)] by blast
  obtain s2 where d: "st_DeletePrefix st leafPrefix s1 = (None, s2)" "ready s2"
    using DeletePrefix [OF p(2) start_keys(3)] by (auto simp: leafPrefix_def)
  obtain s3 where t: "st_Put st tupleKey (tupleHash L (ca_Cert ca) clusterKey) s2 = (None, s3)" using Put [OF d(2) start_keys(2)] by blast
  show ?thesis by (simp add: LoadOrGenerateCA_def g assms(1,4) persistCA_def p(1) reconcileTuple_def d(1) t Let_def)
qed

text \<open>The listener's own leaf goes to the leaf cache.\<close>

lemma cache_get_keeps:
  assumes "cache_get L cid (c, s) = (r, c', s')" and "ready s" and "keys (certKey cid)" and "cc_storage c = st"
  shows "s' = s \<and> cc_storage c' = cc_storage c \<and> cc_linker c' = cc_linker c \<and> cc_namespace c' = cc_namespace c"
  using assms(1) Get [OF assms(2,3)] assms(4)
  by (auto simp: cache_get_def Let_def split: option.splits sum.splits storageError.splits if_splits)

lemma cache_put_keeps:
  assumes "cache_put L cid chain (c, s) = (r, c', s')" and "ready s" and "keys (certKey cid)" and "cc_storage c = st"
    and "keys k" "k \<noteq> certKey cid"
  shows "ready s' \<and> view s' k = view s k \<and> cc_storage c' = cc_storage c \<and> cc_linker c' = cc_linker c \<and> cc_namespace c' = cc_namespace c"
  using assms(1) Put_keeps [OF _ assms(2,3,5,6)] assms(2,4)
  by (auto simp: cache_put_def Let_def split: option.splits prod.splits)

text \<open>What the listeners keep: the backend apart from the leaf cache, and what the cache is bound to.\<close>

definition keptFor :: "string \<Rightarrow> 's \<Rightarrow> 's CertCache \<times> 's \<Rightarrow> bool" where
  "keptFor k s0 cs \<longleftrightarrow>
     ready (snd cs) \<and> view (snd cs) k = view s0 k \<and> cc_storage (fst cs) = st \<and>
     (\<forall>lk. cc_linker (fst cs) = Some lk \<longrightarrow> linkerKeeps ready view lk)"

lemma SelfCert_keeps:
  assumes "SelfCert L now names cs = (r, cs')" and kept: "keptFor k s0 cs"
    and ids: "\<And>ns name. keys (certKey (cl_uuid5 L ns name))" and "keys k" "\<not> HasPrefix k leafPrefix"
  shows "keptFor k s0 cs'"
proof (cases "names = []")
  case True
  then show ?thesis using assms(1) kept by (simp add: SelfCert_def)
next
  case False
  obtain c s where cs: "cs = (c, s)" by force
  define cid where "cid = SelfCertIDFor L c names"
  have key: "keys (certKey cid)" by (simp add: cid_def SelfCertIDFor_def idFromFingerprint_def ids)
  have other: "k \<noteq> certKey cid" "\<not> HasPrefix k namesPrefix"
    using assms(5) by (auto simp: certKey_def shardedKey_def certsPrefix_def namesPrefix_def HasPrefix_iff Let_def)
  have s: "ready s" "view s k = view s0 k" "cc_storage c = st" "\<And>lk. cc_linker c = Some lk \<Longrightarrow> linkerKeeps ready view lk"
    using kept by (auto simp: keptFor_def cs)
  obtain r1 c1 s1 where g: "cache_get L cid (c, s) = (r1, c1, s1)" by (metis prod.exhaust)
  note get = cache_get_keeps [OF g s(1) key s(3)]
  have one: "keptFor k s0 (c1, s1)" using get s by (simp add: keptFor_def)
  have two: "keptFor k s0 cs2" if "cache_put L cid [leaf] (c1, s1) = (e, cs2)" for leaf e cs2
    using cache_put_keeps [of L cid "[leaf]" c1 s1 e "fst cs2" "snd cs2" k] that get s key other(1) assms(4) by (simp add: keptFor_def)
  have three: "keptFor k s0 cs3" if "keptFor k s0 cs2" "ensureLinks L cid leaf cs2 = (e, cs3)" for leaf e cs2 cs3
    using ensureLinks_keeps [of L cid leaf "fst cs2" "snd cs2" e "fst cs3" "snd cs3" k] that other(2) by (auto simp: keptFor_def)
  obtain c' s' where cs': "cs' = (c', s')" by force
  have "cs' = (c1, s1) \<or> (\<exists>leaf e cs2. cache_put L cid [leaf] (c1, s1) = (e, cs2) \<and> (cs' = cs2 \<or> (\<exists>e'. ensureLinks L cid leaf cs2 = (e', cs'))))"
    using assms(1) False
    by (auto simp: SelfCert_def cs cs' cid_def [symmetric] g Let_def split: prod.splits sum.splits option.splits)
  then show ?thesis using one two three by blast
qed

lemma listenAll_keeps:
  assumes "listenAll fs ls cs = (r, cs')" and "keptFor k s0 cs"
    and "\<And>f cs r cs'. f \<in> set fs \<Longrightarrow> f cs = (r, cs') \<Longrightarrow> keptFor k s0 cs \<Longrightarrow> keptFor k s0 cs'"
  shows "keptFor k s0 cs'"
  using assms
proof (induction fs arbitrary: ls cs)
  case (Cons f fs)
  obtain r1 cs1 where f: "f cs = (r1, cs1)" by (metis surj_pair)
  then have one: "keptFor k s0 cs1" using Cons.prems(3) [of f cs r1 cs1] Cons.prems(2) by simp
  show ?case
  proof (cases r1)
    case (Inl e)
    then show ?thesis using Cons.prems(1) f one by simp
  next
    case (Inr a)
    then have "listenAll fs (ls @ [a]) cs1 = (r, cs')" using Cons.prems(1) f by simp
    moreover have "keptFor k s0 cs2'" if "g \<in> set fs" "g cs2 = (r2, cs2')" "keptFor k s0 cs2" for g cs2 r2 cs2'
      using Cons.prems(3) [of g cs2 r2 cs2'] that by simp
    ultimately show ?thesis by (rule Cons.IH [OF _ one])
  qed
qed simp

lemma listenSteps_keep:
  assumes "f \<in> set (listenSteps E cfg)" "f cs = (r, cs')" "keptFor k s0 cs"
    and "\<And>ns name. keys (certKey (cl_uuid5 (su_L E) ns name))" and "keys k" "\<not> HasPrefix k leafPrefix"
  shows "keptFor k s0 cs'"
proof -
  have "cs' = cs \<or> (\<exists>(h :: HTTPSProxyAddr) r. SelfCert (su_L E) (su_now E) (hp_Names h) cs = (r, cs'))"
    using assms(1,2)
    by (auto simp: listenSteps_def whenSet_def listenHTTPProxy_def listenHTTPSProxy_def listenTProxy_def listenRedirect_def
        split: option.splits prod.splits sum.splits)
  then show ?thesis using SelfCert_keeps [OF _ assms(3-6)] assms(3) by blast
qed

end

locale start_store = engine_store sys view ready keys + prefix_store "sy_store sys" view ready keys
  for sys :: "'s sys" and view and ready and keys
begin

lemma EnsureDefault_effect:
  assumes "EnsureDefault sys G s = (r, s')" and "ready s"
  shows "ready s'" and "keys k \<Longrightarrow> k \<noteq> defaultKey \<Longrightarrow> view s' k = view s k"
    and "view s defaultKey \<noteq> None \<Longrightarrow> view s' defaultKey = view s defaultKey"
    and "view s defaultKey = None \<Longrightarrow> \<exists>v. view s' defaultKey = Some (builtinText G, v)"
    and "r = None"
proof -
  have st: "StatDefault sys s = (Inr (case view s defaultKey of None \<Rightarrow> ([], False) | Some (d, v) \<Rightarrow> (v, True)), s)"
    unfolding StatDefault_def by (rule stat_key [OF assms(2) default_key])
  obtain v s1 where p: "st_Put (sy_store sys) defaultKey (builtinText G) s = (None, s1)" "ready s1" "view s1 defaultKey = Some (builtinText G, v)"
      "\<And>k'. keys k' \<Longrightarrow> k' \<noteq> defaultKey \<Longrightarrow> view s1 k' = view s k'"
    using Put [OF assms(2) default_key, of "builtinText G"] by blast
  have s': "s' = (if view s defaultKey = None then s1 else s)" and r: "r = None"
    using assms(1) p(1) by (auto simp: EnsureDefault_def st SaveDefault_def split: option.splits)
  from r show "r = None" .
  from s' show "ready s'" "keys k \<Longrightarrow> k \<noteq> defaultKey \<Longrightarrow> view s' k = view s k"
    "view s defaultKey \<noteq> None \<Longrightarrow> view s' defaultKey = view s defaultKey"
    "view s defaultKey = None \<Longrightarrow> \<exists>v. view s' defaultKey = Some (builtinText G, v)"
    using p(2-4) assms(2) by auto
qed

text \<open>A key of the rules: below \<open>rules/\<close>, so neither the authority's nor the leaf cache's.\<close>

lemma startOn_rules:
  assumes "startOn E cfg tp sys linker s = (r, s')" and "ready s"
    and ids: "\<And>ns name. keys (certKey (cl_uuid5 (su_L E) ns name))"
    and linker: "\<And>lk. linker = Some lk \<Longrightarrow> linkerKeeps ready view lk"
    and k: "keys k" "HasPrefix k ''rules/''"
  shows "ready s' \<and> (view s' k = view s k \<or> k = defaultKey \<and> view s k = None) \<and>
    (\<forall>P. r = Inr P \<longrightarrow> view s defaultKey = None \<longrightarrow> k = defaultKey \<longrightarrow> (\<exists>v. view s' k = Some (builtinText (su_G E), v)))"
proof -
  have away: "\<not> HasPrefix k leafPrefix" "k \<noteq> ''leaf''" "k \<noteq> tupleKey" "k \<noteq> caKey"
    using k(2) by (auto simp: HasPrefix_iff leafPrefix_def tupleKey_def caKey_def)
  obtain r1 s1 where ca: "LoadOrGenerateCA (su_L E) (sy_store sys) (cg_ClusterKey cfg) (su_now E) (su_freshKey E) (su_freshSerial E) s = (r1, s1)"
    by (metis surj_pair)
  note one = LoadOrGenerateCA_keeps [OF ca assms(2) k(1) away]
  have def1: "view s1 defaultKey = view s defaultKey"
    using LoadOrGenerateCA_keeps [OF ca assms(2) default_key]
    by (simp add: defaultKey_def HasPrefix_iff leafPrefix_def tupleKey_def caKey_def)
  show ?thesis
  proof (cases r1)
    case (Inl e)
    then show ?thesis using assms(1) one by (auto simp: startOn_def ca)
  next
    case (Inr auth)
    obtain r2 s2 where d: "EnsureDefault sys (su_G E) s1 = (r2, s2)" by (metis surj_pair)
    note eff = EnsureDefault_effect [OF d conjunct1 [OF one]]
    have two: "view s2 k = view s k \<or> k = defaultKey \<and> view s k = None"
      using eff(2) [OF k(1)] eff(3) one def1 by (cases "k = defaultKey") auto
    show ?thesis
    proof (cases r2)
      case (Some e)
      then show ?thesis using assms(1) two eff(1) Inr by (auto simp: startOn_def ca d Let_def)
    next
      case None
      let ?cache = "NewCertCache (su_L E) (sy_store sys) linker (cg_ClusterKey cfg) auth"
      obtain r3 c3 s3 where l: "listenAll (listenSteps E cfg) [] (?cache, s2) = (r3, c3, s3)" by (metis surj_pair)
      have kept: "keptFor k s2 (?cache, s2)" using eff(1) linker by (simp add: keptFor_def NewCertCache_def)
      have "keptFor k s2 (c3, s3)"
        by (rule listenAll_keeps [OF l kept]) (rule listenSteps_keep [OF _ _ _ ids k(1) away(1)])
      then have three: "ready s3" "view s3 k = view s2 k" by (simp_all add: keptFor_def)
      have seed: "\<exists>v. view s3 k = Some (builtinText (su_G E), v)" if "k = defaultKey" "view s defaultKey = None"
        using eff(4) def1 three(2) that by simp
      have "s' = s3" using assms(1) Inr None by (auto simp: startOn_def ca d l Let_def split: sum.splits)
      then show ?thesis using two three seed by simp
    qed
  qed
qed

end

subsection \<open>The file-system backend\<close>

lemma underPath_key:
  "r \<noteq> [] \<Longrightarrow> underPath (r @ CHR ''/'' # seg) (r @ CHR ''/'' # k) \<longleftrightarrow> k = seg \<or> HasPrefix k (seg @ ''/'')"
  by (cases r) (auto simp: underPath_def HasPrefix_iff)

lemma disk_find_filter:
  "disk_find (d\<lparr>dk_files := filter (\<lambda>(q, _). P q) (dk_files d)\<rparr>) path = (if P path then disk_find d path else None)"
proof -
  have "map_of (filter (\<lambda>(q, _). P q) xs) path = (if P path then map_of xs path else None)" for xs :: "(string \<times> fileInfo) list"
    by (induction xs) auto
  then show ?thesis by (simp add: disk_find_def)
qed

lemma posix_path_dir:
  assumes "cleanPath (px_root p)" and "cleanKey seg"
  shows "posix_path p (seg @ ''/'') = px_root p @ CHR ''/'' # seg"
proof -
  have "px_root p \<noteq> []" using assms(1) by (auto simp: cleanPath_def plainSeg_def)
  moreover have "cleanPath (px_root p @ CHR ''/'' # seg)" using assms by (intro cleanPath_append) (simp_all add: cleanKey_def)
  ultimately show ?thesis
    using Clean_trailing [of "px_root p @ CHR ''/'' # seg"] by (simp add: posix_path_def filepath_Join_def)
qed

lemma posix_DeletePrefix_dir:
  assumes "posix_ready p d" and "cleanKey seg"
  shows "\<exists>d'. posix_DeletePrefix p (seg @ ''/'') d = (None, d') \<and> posix_ready p d' \<and>
    (\<forall>k. cleanKey k \<longrightarrow> posix_view p d' k = (if k = seg \<or> HasPrefix k (seg @ ''/'') then None else posix_view p d k))"
proof -
  have root: "cleanPath (px_root p)" "px_root p \<noteq> []" using assms(1) by (auto simp: posix_ready_def cleanPath_def plainSeg_def)
  let ?d = "d\<lparr>dk_files := filter (\<lambda>(q, _). \<not> underPath (posix_path p (seg @ ''/'')) q) (dk_files d)\<rparr>"
  have "posix_DeletePrefix p (seg @ ''/'') d = (None, ?d)" using assms(1) by (simp add: posix_DeletePrefix_def posix_ready_def Let_def)
  moreover have "posix_ready p ?d" using assms(1) by (simp add: posix_ready_def disk_find_filter)
  moreover have "posix_view p ?d k = (if k = seg \<or> HasPrefix k (seg @ ''/'') then None else posix_view p d k)" if "cleanKey k" for k
    unfolding posix_view_def disk_find_filter posix_path_dir [OF root(1) assms(2)] posix_path_key [OF root(1) that]
    using underPath_key [OF root(2)] by simp
  ultimately show ?thesis by blast
qed

lemma start_keys_clean: "cleanKey caKey" "cleanKey tupleKey" "cleanKey ''leaf''"
  by code_simp+

interpretation posix_start: start_store "posixSys p uuid sha1" "posix_view p" "posix_ready p" cleanKey
  by unfold_locales (use posix_DeletePrefix_dir start_keys_clean in \<open>simp_all add: posixSys_def posixStorage_def\<close>)

definition postedOn :: "PosixStorage \<Rightarrow> (disk \<Rightarrow> string) \<Rightarrow> (string \<Rightarrow> string) \<Rightarrow> disk startEnv \<Rightarrow> bool" where
  "postedOn p uuid sha1 E \<longleftrightarrow>
     (\<forall>b sys linker. su_backend E b = Some (sys, linker) \<longrightarrow>
        sys = posixSys p uuid sha1 \<and> (\<forall>lk. linker = Some lk \<longrightarrow> linkerKeeps (posix_ready p) (posix_view p) lk)) \<and>
     (\<forall>ns name. isUUID (cl_uuid5 (su_L E) ns name))"

lemma run_rules:
  assumes "run E cli sp d = (r, d')" and "posix_ready p d" and "postedOn p uuid sha1 E" and "cleanKey k" "HasPrefix k ''rules/''"
  shows "posix_ready p d' \<and> (posix_view p d' k = posix_view p d k \<or> k = defaultKey \<and> posix_view p d k = None) \<and>
    (\<forall>P. r = Inr P \<longrightarrow> posix_view p d defaultKey = None \<longrightarrow> k = defaultKey \<longrightarrow> (\<exists>v. posix_view p d' k = Some (builtinText (su_G E), v)))"
proof (cases "\<exists>cfg tp sys linker. startOn E cfg tp sys linker d = (r, d') \<and> (\<exists>b. su_backend E b = Some (sys, linker))")
  case True
  then obtain cfg tp sys linker b where s: "startOn E cfg tp sys linker d = (r, d')" "su_backend E b = Some (sys, linker)" by blast
  have sys: "sys = posixSys p uuid sha1" "\<And>lk. linker = Some lk \<Longrightarrow> linkerKeeps (posix_ready p) (posix_view p) lk"
    using assms(3) s(2) by (auto simp: postedOn_def)
  have ids: "cleanKey (certKey (cl_uuid5 (su_L E) ns name))" for ns name
    using assms(3) by (simp add: postedOn_def certKey_clean)
  show ?thesis
    by (rule posix_start.startOn_rules [OF s(1) [unfolded sys(1)] assms(2) ids sys(2) assms(4,5)])
next
  case False
  then have "d' = d" "\<nexists>P. r = Inr P" using assms(1) by (auto simp: run_def split: sum.splits option.splits)
  then show ?thesis using assms(2) by simp
qed

text \<open>
  C12.
  However a start of the process ends, every rule document in the backend is as it was before; only a default table
  that was missing may have been added. The backend is the file-system one at rest; its links stay in the names
  index, and leaf identifiers are UUIDs.
\<close>

theorem start_keeps_rules:
  assumes "run E cli sp d = (r, d')" and "posix_ready p d" and "postedOn p uuid sha1 E" and "cleanKey k" "HasPrefix k ''rules/''"
  shows "posix_ready p d' \<and> (posix_view p d' k = posix_view p d k \<or> k = defaultKey \<and> posix_view p d k = None)"
  using run_rules [OF assms] by blast


text \<open>The documentation's flags, on a backend of files.\<close>

definition labStart :: "disk startEnv" where
  "labStart =
     \<lparr>su_G = plainLib, su_L = labPlain, su_pem = (\<lambda>der. der), su_proc = labProc,
      su_tel = \<lparr>te_nodeID = ''node'', te_metrics = \<lparr>ms_Remove = (\<lambda>_. True), ms_Exporter = True, ms_Listen = (\<lambda>_ addr. Some addr), ms_Chmod = (\<lambda>_. True)\<rparr>,
        te_create = (\<lambda>_. None), te_make = (\<lambda>_. True), te_mkdir = True, te_call = labCall ''a'' True\<rparr>,
      su_backend = (\<lambda>_. Some (demoSys, None)), su_now = 0, su_freshKey = \<lparr>pk_Curve = ''P-256'', pk_D = 5\<rparr>, su_freshSerial = 1,
      su_Listen = (\<lambda>_ _. True), su_transparent4 = True, su_transparent6 = True\<rparr>"

lemma labStart_posted: "postedOn demoPosix (\<lambda>_. ''minted'') (\<lambda>s. s) labStart"
proof -
  have "isUUID labUUID" by code_simp
  then show ?thesis by (simp add: postedOn_def labStart_def demoSys_def labPlain_def)
qed

theorem start_keeps_rules_witness:
  "posix_view demoPosix (snd (run labStart labFlags [] demoDisk)) (keyFor demoSys demoClient) =
   posix_view demoPosix demoDisk (keyFor demoSys demoClient)"
proof -
  obtain r d' where r: "run labStart labFlags [] demoDisk = (r, d')" by (metis surj_pair)
  have k: "HasPrefix (keyFor demoSys demoClient) ''rules/''" "keyFor demoSys demoClient \<noteq> defaultKey"
    by (simp_all add: keyFor_def ipPrefix_def defaultKey_def HasPrefix_iff)
  from start_keeps_rules [OF r demoDisk_facts(1) labStart_posted keyFor_clean k(1)] k(2) show ?thesis by (simp add: r)
qed

lemma labStart_storage: "case Open plainLib labProc ''posix:///home/op/.cache/mitmania'' of Inr _ \<Rightarrow> True | _ \<Rightarrow> False"
  by code_simp

lemma labStart_telemetry:
  assumes "cg_OtelMetrics cfg = []" "cg_OtelTraces cfg = []" "cg_OtelResource cfg = []"
  shows "\<exists>tp. fst (Setup plainLib (su_tel labStart) cfg []) = Inr tp"
  using assms by (simp add: Setup_def buildResource_def splitNonEmpty_def setupMetrics_def NewMetrics_last setupTraces_def labStart_def)

lemma labStart_CA:
  "case generateCA labPlain 0 \<lparr>pk_Curve = ''P-256'', pk_D = 5\<rparr> 1 of Inr _ \<Rightarrow> True | _ \<Rightarrow> False"
  by code_simp

lemma labStart_listens: "cg_HTTPSProxy cfg = None \<Longrightarrow> \<exists>ls. listenAll (listenSteps labStart cfg) [] cs = (Inr ls, cs)"
  by (simp add: listenSteps_def whenSet_def listenHTTPProxy_def listenTProxy_def listenRedirect_def net_Listen_def ListenTProxy_def
      labStart_def split: option.splits)

lemma labStart_runs: "\<exists>P d'. run labStart labFlags [] (emptyDisk 5) = (Inr P, d')"
proof -
  obtain cfg where cfg: "config_Parse plainLib labProc labFlags = Inr cfg" "cg_Storage cfg = ''posix:///home/op/.cache/mitmania''"
      "cg_HTTPSProxy cfg = None" "cg_OtelMetrics cfg = []" "cg_OtelTraces cfg = []" "cg_OtelResource cfg = []"
    using labFlags_accepted by (auto split: sum.splits)
  obtain tp where tp: "fst (Setup plainLib (su_tel labStart) cfg []) = Inr tp" using labStart_telemetry [OF cfg(4-6)] by blast
  obtain b where b: "Open plainLib labProc (cg_Storage cfg) = Inr b" using labStart_storage by (auto simp: cfg(2) split: sum.splits)
  obtain gen where gen: "generateCA labPlain 0 \<lparr>pk_Curve = ''P-256'', pk_D = 5\<rparr> 1 = Inr gen" using labStart_CA by (auto split: sum.splits)
  have none: "posix_view demoPosix (emptyDisk 5) caKey = None" by (simp add: posix_view_def emptyDisk_def disk_find_def)
  have encodes: "cl_encodeCA labPlain (ca_Key gen) (ca_Cert gen) (p12Password labPlain (cg_ClusterKey cfg)) = Some ''ca''" by (simp add: labPlain_def)
  obtain ca d1 where ca: "LoadOrGenerateCA labPlain (sy_store demoSys) (cg_ClusterKey cfg) 0 \<lparr>pk_Curve = ''P-256'', pk_D = 5\<rparr> 1 (emptyDisk 5) = (Inr ca, d1)"
    using posix_start.LoadOrGenerateCA_fresh [OF gen emptyDisk_ready none encodes] unfolding demoSys_def by blast
  have d1: "posix_ready demoPosix d1"
    using posix_start.LoadOrGenerateCA_keeps [OF ca [unfolded demoSys_def] emptyDisk_ready defaultKey_clean]
    by (simp add: defaultKey_def HasPrefix_iff leafPrefix_def tupleKey_def caKey_def)
  obtain d2 where d2: "EnsureDefault demoSys plainLib d1 = (None, d2)"
    using posix_start.EnsureDefault_effect(5) [OF _ d1] by (metis demoSys_def surj_pair)
  have "su_backend labStart b = Some (demoSys, None)" "su_G labStart = plainLib" "su_proc labStart = labProc" "su_L labStart = labPlain"
      "su_now labStart = 0" "su_freshKey labStart = \<lparr>pk_Curve = ''P-256'', pk_D = 5\<rparr>" "su_freshSerial labStart = 1"
    by (simp_all add: labStart_def)
  moreover obtain ls where "listenAll (listenSteps labStart cfg) [] (NewCertCache labPlain (sy_store demoSys) None (cg_ClusterKey cfg) ca, d2) =
      (Inr ls, NewCertCache labPlain (sy_store demoSys) None (cg_ClusterKey cfg) ca, d2)"
    using labStart_listens [OF cfg(3)] by blast
  ultimately show ?thesis by (simp add: run_def cfg(1) tp b startOn_def ca d2 Let_def)
qed


end
