(* ===== verification/Spec2Isabelle.thy ===== *)
theory Spec2Isabelle
  imports PipelineSpec Startup
begin

text \<open>
  \<^bold>\<open>mitmania: an intercepting HTTP proxy.\<close> A client reaches the proxy through an explicit listener (CONNECT or
  absolute-form requests), or transparently (TPROXY or REDIRECT). Its address selects a rule set: a file of its own, or
  an entry of the default table. The connection phase of the rule set admits or rejects the connection and decides
  whether it is intercepted; the name is resolved once, every address is checked against the egress list, and one
  address is pinned and dialled. An intercepted connection is terminated with a clone of the origin's certificate chain
  and its requests pass the message phase: the first matching rule runs its actions, some of which ask a broker.
  Operators change rules through a control API; everything durable lies in one storage backend.

  \<^bold>\<open>Theories and sources.\<close> Paths are below \<open>src/internal/\<close> unless said otherwise.
  \<^item> \<open>Prelude\<close>, \<open>GoText\<close>, \<open>PathMatch\<close>, \<open>Encoding\<close>, \<open>NetAddr\<close>, \<open>Url\<close>: the types of the model and the parts of Go's standard library the
    sources use (strings, UTF-8, \<open>path.Match\<close>, hex, base64, decimals, \<open>netip\<close>, \<open>net/url\<close>). Lemmas: round trips of the
    encodings; what a glob that is a literal, or ends in one, accepts.
  \<^item> \<open>Matcher\<close>, \<open>HostIndex\<close>, \<open>RuleCompile\<close>, \<open>Egress\<close>, \<open>Auth\<close>, \<open>RuleSet\<close>: \<open>rules/compile.go\<close>, \<open>host_index.go\<close>, \<open>schema.go\<close>,
    \<open>outcall_action.go\<close>, \<open>egress.go\<close>, \<open>auth.go\<close> and the lookups of \<open>engine.go\<close>. The locale \<open>candidate_index\<close> is what a lookup needs of
    an index; its interpretation shows the flattened index to be one, so lookups are first-match scans.
  \<^item> \<open>MaskedKey\<close>, \<open>DefaultTable\<close>, \<open>DefaultPolicy\<close>: \<open>rules/defaultruleset.go\<close>. Every address gets the most specific entry; the coverage
    check is exact; the built-in table is guarded.
  \<^item> \<open>Storage\<close>: \<open>storage/\<close> and \<open>fsutil/\<close>. The locale \<open>blob_store\<close> is the contract of a backend, interpreted on the file-system
    backend; writes are atomic at every crash point; the decorators are transparent.
  \<^item> \<open>Engine\<close>, \<open>EngineSpec\<close>: \<open>rules/store.go\<close> and the caching engine of \<open>engine.go\<close>. The state is the record \<open>RuleEngine\<close>. The locale
    \<open>engine_store\<close> extends \<open>blob_store\<close>; by rule induction over the runs of the engine among updates of the documents
    (\<open>engine_run\<close>), a lookup answers what is stored.
  \<^item> \<open>HttpError\<close>, \<open>Outcall\<close>, \<open>Authority\<close>, \<open>Actions\<close>: \<open>httperror/\<close>, \<open>outcall/\<close>, the names, bounds, client recovery and pinning of \<open>proxy/\<close>, and
    the rule actions with the login gate. Calls to the broker interleave in the step relation \<open>outcall_step\<close>.
  \<^item> \<open>RoundTrip\<close>, \<open>Pipeline\<close>, \<open>PipelineSpec\<close>: \<open>proxy/upstream.go\<close>, \<open>roundtrip.go\<close>, \<open>http1.go\<close>, \<open>http2.go\<close>, \<open>transparent.go\<close>, \<open>tlsservice.go\<close>. A handler
    maps a world (engine, backend, broker service, unread bytes, trace) to a world; what peers do is a parameter indexed
    by the step, so a theorem holds for every behaviour of theirs. Lemmas follow the trace: what was dialled, forwarded,
    answered and recorded.
  \<^item> \<open>Certs\<close>, \<open>LeafCache\<close>: \<open>cert/\<close>. What is served is signed up to the authority; a minted chain survives a restart; derived
    keys are in range; the walk to the root ends.
  \<^item> \<open>Control\<close>: \<open>control/\<close> and \<open>flowsink/\<close>. A refused request changes nothing; an accepted one governs the next lookup.
  \<^item> \<open>Config\<close>, \<open>Telemetry\<close>, \<open>Acceptors\<close>, \<open>Startup\<close>: \<open>config/\<close>, \<open>storage/open.go\<close>, \<open>telemetry/\<close>, \<open>session/\<close> and \<open>src/cmd/mitmania/main.go\<close>. The locales
    \<open>prefix_store\<close> and \<open>start_store\<close> extend the contracts above by what a start does to a backend.
  \<^item> This theory composes engine, backend and handlers: what is dialled on the wire is granted by the documents stored
    at that moment, and never a guarded address where the built-in list is stored.

  \<^bold>\<open>State, errors, numbers.\<close> Structs are records with a prefix per type, tagged unions datatypes, errors the left side of
  \<open>res\<close>; operations on a backend return its next state, in which other nodes may have acted. Durations and sizes are
  64-bit and wrap (\<open>wrap64\<close>), ports, masks, counters and index offsets are words.

  \<^bold>\<open>Termination and fuel.\<close> Loops are recursions with a termination proof; the requests of one connection end because every
  request read takes at least one of its unread bytes, and retries because their number is counted down. One loop has
  fuel: the walk of \<open>resolveChain\<close> to the root, which the code bounds only by the certificates it has seen. It is given one
  round more than the bundle has certificates, and \<open>resolveChain_terminates\<close> shows that this is enough.

  \<^bold>\<open>Parameters.\<close> \<open>golib\<close> (Unicode tables beyond ASCII, regular expressions, JSON printing, SHA-256), \<open>jsonlib\<close> (JSON decoding),
  \<open>certlib\<close> (HKDF, DER, PKCS#12, UUIDs), argon2, IDNA, the resolver, the network and TLS handshakes, the S3 client, the
  OpenTelemetry SDK, the kernel. What a theorem needs of them is among its hypotheses, and its witness instantiates them.

  \<^bold>\<open>Not modelled.\<close> Goroutines that only wait, and merged calls (\<open>singleflight\<close>): connections, HTTP/2 streams and merged calls are
  run one after the other, so data races are out of scope. The copying of bytes between two sockets
  (\<open>relay.go\<close>, \<open>copybuf.go\<close>, \<open>bytecount.go\<close>) is one event and the peeking reader (\<open>peek.go\<close>) a parameter, since their content is buffering
  and system calls. Log lines, spans and the calls of the instruments inside the other components, the printing of the
  configuration with the masking of URLs, the HTML template of a page, the embedded web page (\<open>spa.go\<close>), the shutdown of
  servers and SDK providers: output with no effect on a decision. The command-line library (kong) is third-party code:
  the model starts at its flags. The stubs for systems other than Linux only fail. The symbolic links of the
  file-system backend are an operation with a stated law, since the disk has regular files only.
\<close>

section \<open>From the stored documents to the wire\<close>

text \<open>
  A world whose engine serves from the file-system backend, has no trust window and has been run only through lookups:
  the state in which \<open>EngineSpec\<close> shows that a lookup answers what the stored documents say.
\<close>

definition backed :: "PosixStorage \<Rightarrow> (disk \<Rightarrow> string) \<Rightarrow> (string \<Rightarrow> string) \<Rightarrow> disk env \<Rightarrow> history \<Rightarrow> disk world \<Rightarrow> bool" where
  "backed p uuid sha1 E hist w \<longleftrightarrow>
     en_sys E = posixSys p uuid sha1 \<and>
     (\<exists>tr. engine_run (posixSys p uuid sha1) (posix_view p) (posix_ready p) (en_G E) (en_J E) (wd_engine w) (wd_store w) hist tr)"

abbreviation diskPolicy :: "disk env \<Rightarrow> PosixStorage \<Rightarrow> disk world \<Rightarrow> Addr \<Rightarrow> (engineError, RuleSet) res" where
  "diskPolicy E p w client \<equiv> storedPolicy (en_G E) (en_J E) (en_sys E) (posix_view p (wd_store w)) client"

lemma backed_lookup:
  assumes "backed p uuid sha1 E hist w" and "documentsApart (en_G E) (en_J E)" and "lookupRules E sess w = (Inr rs, w1)"
  shows "diskPolicy E p w (ClientKey sess) = Inr rs" and "backed p uuid sha1 E hist w1" and "posix_view p (wd_store w1) = posix_view p (wd_store w)"
proof -
  obtain tr where run: "engine_run (posixSys p uuid sha1) (posix_view p) (posix_ready p) (en_G E) (en_J E) (wd_engine w) (wd_store w) hist tr"
      and sys: "en_sys E = posixSys p uuid sha1"
    using assms(1) by (auto simp: backed_def)
  note coh = posix_engine.run_stored [OF run assms(2)]
  then obtain e' s' where l: "Lookup (en_sys E) (en_G E) (en_J E) (ClientKey sess) (wd_engine w) (wd_store w) =
      (answer (diskPolicy E p w (ClientKey sess)), e', s')" "posix_view p s' = posix_view p (wd_store w)"
    using posix_engine.lookup_stored [OF assms(2), of hist "wd_engine w" p uuid sha1 "wd_store w" "ClientKey sess"] unfolding sys by blast
  from l assms(3) have w1: "wd_engine w1 = e'" "wd_store w1 = s'" "answer (diskPolicy E p w (ClientKey sess)) = Inr (Some rs)"
    by (auto simp: lookupRules_def Let_def split: sum.splits option.splits)
  then show "diskPolicy E p w (ClientKey sess) = Inr rs" by (cases "diskPolicy E p w (ClientKey sess)") auto
  show "posix_view p (wd_store w1) = posix_view p (wd_store w)" by (simp add: w1 l(2))
  show "backed p uuid sha1 E hist w1"
    using engine_run.look [OF run l(1) [unfolded sys]] by (auto simp: backed_def sys w1)
qed

lemma backed_cong: "wd_engine w' = wd_engine w \<Longrightarrow> wd_store w' = wd_store w \<Longrightarrow> backed p uuid sha1 E hist w' = backed p uuid sha1 E hist w"
  by (simp add: backed_def)

lemma readBoundedRequest_state:
  "readBoundedRequest E h w = (r, w') \<Longrightarrow> wd_engine w' = wd_engine w \<and> wd_store w' = wd_store w"
  by (auto simp: readBoundedRequest_def Let_def pageEnd_def logAccess_def emit_def advance_def
      split: prod.splits sum.splits option.splits headerError.splits if_splits)

text \<open>The client the policy of a connection is taken from: the peer, or whom a trusted proxy speaks for.\<close>

definition policyClient :: "Http1Handler \<Rightarrow> Session \<Rightarrow> Addr \<Rightarrow> bool" where
  "policyClient h sess client \<longleftrightarrow>
     client = ClientKey sess \<or> hh_TrustedProxies h \<noteq> [] \<and> (\<exists>hdr. client = ClientKey (recoverSession h sess hdr))"

lemma policyClient_peer: "policyClient h sess (ClientKey sess)"
  by (simp add: policyClient_def)

lemma policyClient_recover: "policyClient h sess (ClientKey (recoverSession h sess hdr))"
  by (auto simp: policyClient_def recoverSession_def split: option.splits)

text \<open>The stored policy of the client accepts a connection and allows every address the dialled one was chosen from.\<close>

definition storedGrant :: "disk env \<Rightarrow> Http1Handler \<Rightarrow> Session \<Rightarrow> PosixStorage \<Rightarrow> disk world \<Rightarrow> string \<Rightarrow> bool" where
  "storedGrant E h sess p w dst \<longleftrightarrow>
     (\<exists>client rs connIn mitm n host port proto. policyClient h sess client \<and> diskPolicy E p w client = Inr rs \<and>
        LookupConn (en_G E) rs connIn = (mitm, False, True) \<and> resolveAndPin (en_G E) rs (LookupIP E n) host port proto = Inr dst)"

lemma connPhase_stored:
  assumes "backed p uuid sha1 E hist w'" and "documentsApart (en_G E) (en_J E)" and "connPhase E s hdr connIn host port proto w' mitm dst"
    and "policyClient h sess (ClientKey s)" and "posix_view p (wd_store w') = posix_view p (wd_store w)"
  shows "storedGrant E h sess p w dst"
proof -
  from assms(3) obtain rs w1 where l: "lookupRules E s w' = (Inr rs, w1)" "LookupConn (en_G E) rs connIn = (mitm, False, True)"
      "resolveAndPin (en_G E) rs (LookupIP E (wd_step w')) host port proto = Inr dst"
    unfolding connPhase_def by blast
  from backed_lookup(1) [OF assms(1,2) l(1)] have "diskPolicy E p w (ClientKey s) = Inr rs" by (simp add: assms(5))
  with l assms(4) show ?thesis unfolding storedGrant_def by blast
qed

lemma admitted_stored:
  assumes "backed p uuid sha1 E hist w" and docs: "documentsApart (en_G E) (en_J E)" and "admitted E h sess w intercept dst"
  shows "storedGrant E h sess p w dst"
  using assms(3)
proof cases
  case (admit_connect req w1 host port d0)
  have "backed p uuid sha1 E hist w1" "wd_store w1 = wd_store w"
    using readBoundedRequest_state [OF admit_connect(2)] assms(1) backed_cong by blast+
  with connPhase_stored [OF _ docs admit_connect(5) policyClient_recover] show ?thesis by simp
next
  case (admit_absolute req w1 host port d0 mitm)
  have "backed p uuid sha1 E hist w1" "wd_store w1 = wd_store w"
    using readBoundedRequest_state [OF admit_absolute(3)] assms(1) backed_cong by blast+
  with connPhase_stored [OF _ docs admit_absolute(6) policyClient_recover] show ?thesis by simp
next
  case (admit_tls name raw)
  from assms(1) have "backed p uuid sha1 E hist (advance w)" by (simp add: backed_def advance_def)
  from connPhase_stored [OF this docs admit_tls(3) policyClient_peer] show ?thesis by (simp add: advance_def)
next
  case (admit_opaque e raw)
  from assms(1) have "backed p uuid sha1 E hist (advance w)" by (simp add: backed_def advance_def)
  from connPhase_stored [OF this docs admit_opaque(5) policyClient_peer] show ?thesis by (simp add: advance_def)
next
  case (admit_opaque_http e raw rs w1 who st w2 block again req bodyLen host port d0 mitm)
  from assms(1) have "backed p uuid sha1 E hist (advance w)" by (simp add: backed_def advance_def)
  note l = backed_lookup [OF this docs admit_opaque_http(5)]
  have "backed p uuid sha1 E hist ((advance w2)\<lparr>wd_client := drop bodyLen (drop (length block) (wd_client w2))\<rparr>)"
    using l(2) admit_opaque_http(8) by (simp add: backed_def advance_def)
  from connPhase_stored [OF this docs admit_opaque_http(12) policyClient_peer] l(3) admit_opaque_http(8)
  show ?thesis by (simp add: advance_def)
qed

text \<open>The address an event opens a connection to.\<close>

definition reaches :: "event \<Rightarrow> string option" where
  "reaches e = (case e of Dialed a \<Rightarrow> Some a | DialedTLS a _ _ \<Rightarrow> Some a | Spliced a \<Rightarrow> Some a | _ \<Rightarrow> None)"

lemma quiet_reaches: "quiet e \<Longrightarrow> reaches e = None"
  by (cases e) (simp_all add: quiet_def reaches_def)

lemma tunnelled_reaches: "tunnelled intercept dst e \<Longrightarrow> reaches e = Some a \<Longrightarrow> a = dst"
  by (cases e) (auto simp: tunnelled_def splicesOnly_def reaches_def quiet_def split: if_splits)

lemma reached_stored:
  assumes "backed p uuid sha1 E hist w" and "documentsApart (en_G E) (en_J E)"
  obtains tr where "wd_trace (Serve E h sess w) = wd_trace w @ tr" "\<And>e a. e \<in> set tr \<Longrightarrow> reaches e = Some a \<Longrightarrow> storedGrant E h sess p w a"
proof -
  have grow: "grows quiet w (Serve E h sess w) \<or>
      (\<exists>intercept dst. admitted E h sess w intercept dst \<and> grows (tunnelled intercept dst) w (Serve E h sess w))"
    using Serve_explicit_cases [of sess w E h] Serve_transparent_cases [of sess w E h] by blast
  then show thesis
  proof (elim disjE exE conjE)
    assume "grows quiet w (Serve E h sess w)"
    then obtain tr where tr: "wd_trace (Serve E h sess w) = wd_trace w @ tr" "list_all quiet tr" by (auto simp: grows_def)
    then have "e \<in> set tr \<Longrightarrow> reaches e = None" for e by (auto simp: list_all_iff quiet_reaches)
    with tr(1) that show thesis by fastforce
  next
    fix intercept dst assume ad: "admitted E h sess w intercept dst" "grows (tunnelled intercept dst) w (Serve E h sess w)"
    then obtain tr where tr: "wd_trace (Serve E h sess w) = wd_trace w @ tr" "list_all (tunnelled intercept dst) tr" by (auto simp: grows_def)
    then have "e \<in> set tr \<Longrightarrow> reaches e = Some a \<Longrightarrow> a = dst" for e a by (auto simp: list_all_iff dest: tunnelled_reaches)
    with tr(1) that admitted_stored [OF assms ad(1)] show thesis by metis
  qed
qed


lemma Unmap_wf: "wfAddr a \<Longrightarrow> wfAddr (Unmap a)"
  by (auto simp: Unmap_def wfAddr_def v4Addr_def Is4In6_def)

text \<open>A dial target that is no loopback, private, unique-local or link-local address.\<close>

definition publicTarget :: "string \<Rightarrow> bool" where
  "publicTarget dst \<longleftrightarrow> (\<exists>addr port. dst = JoinHostPort (Addr_String addr) port \<and> wfAddr addr \<and> addr_zone addr = [] \<and> \<not> guarded addr)"

lemma guarded_pin:
  assumes "resolveAndPin G rs (LookupIP E n) host port proto = Inr dst" and "rs_egress rs = map anyEgress guardPrefixes"
    and "\<And>t name ips. en_LookupNetIP E t name = Inr ips \<Longrightarrow> list_all wfAddr ips"
  shows "publicTarget dst"
proof -
  obtain k a as where r: "resolved (LookupIP E n) host = Inr (a # as)" "list_all (egressAllows G rs k proto) (a # as)"
      "dst = JoinHostPort (Addr_String a) port"
    using assms(1) unfolding resolveAndPin_Inr by blast
  have "wfAddr a"
  proof (cases "ParseAddr host")
    case None
    with r(1) obtain ips where "en_LookupNetIP E n host = Inr ips" "a # as = map Unmap ips"
      by (auto simp: resolved_def LookupIP_def split: sum.splits)
    with assms(3) show ?thesis by (auto simp: list_all_iff Unmap_wf)
  next
    case (Some b)
    with r(1) have "a = b" by (simp add: resolved_def)
    with ParseAddr_wf [OF Some] show ?thesis by simp
  qed
  moreover from this r(2) have "addr_zone a = []" "\<not> guarded a"
    using denyFirst_lookup [of a G "word_of_int k" proto] by (simp_all add: egressAllows_iff [symmetric] LookupEgress_def assms(2))
  ultimately show ?thesis unfolding publicTarget_def using r(3) by blast
qed


section \<open>An example cluster\<close>

text \<open>One client with a stored rule file that splices everything through under the built-in egress list.\<close>

definition guardFile :: RuleFile where
  "guardFile = \<lparr>rf_UUID = ''u-1'', rf_Auth = None, rf_HTTP = labSpliceHTTP, rf_Egress = Some denyFirstEgress\<rparr>"

definition guardJSON :: jsonlib where
  "guardJSON =
     \<lparr>json_object = (\<lambda>_. None), json_ruleFileStrict = (\<lambda>_. None), json_ruleFile = (\<lambda>data. if data = ''one'' then Some guardFile else None)\<rparr>"

definition guardEnv :: "disk env" where
  "guardEnv = (labEnv demoSys guardJSON)\<lparr>en_ReadRequest := \<lambda>_ _. Some (labConnect, 0)\<rparr>"

definition guardWorld :: "disk world" where
  "guardWorld = (labWorld demoDisk)\<lparr>wd_client := finalHead\<rparr>"

lemma guard_apart: "documentsApart plainLib guardJSON"
  by (auto simp: documentsApart_def guardJSON_def guardFile_def)

lemma guard_backed: "\<exists>hist. backed demoPosix (\<lambda>_. ''minted'') (\<lambda>s. s) guardEnv hist guardWorld"
proof -
  define hist where "hist = (\<lambda>(k, v). case posix_view demoPosix demoDisk k of Some (d, v') \<Rightarrow> if v' = v then Some d else None | None \<Rightarrow> None)"
  have "viewIn hist (posix_view demoPosix demoDisk)" by (auto simp: viewIn_def hist_def)
  from engine_run.start [of "posix_ready demoPosix" demoDisk hist "posix_view demoPosix", OF demoDisk_facts(1) this] show ?thesis
    by (simp add: backed_def guardEnv_def guardWorld_def labEnv_def labWorld_def demoSys_def) blast
qed

lemma guard_policy:
  assumes "policyClient labHandler explicitSession client" and "diskPolicy guardEnv demoPosix guardWorld client = Inr rs"
  shows "rs_egress rs = map anyEgress guardPrefixes"
proof -
  have "client = demoClient"
    using assms(1) by (simp add: policyClient_def labHandler_def ClientKey_def explicitSession_def demoClient_def)
  with assms(2) demoDisk_facts(2) have "compileFile plainLib guardFile = Inr rs"
    by (simp add: storedPolicy_def guardEnv_def guardWorld_def labEnv_def labWorld_def guardJSON_def)
  then show ?thesis
    using compileEgressFrom_any [OF denyFirst_prefixes, of plainLib 0]
    by (auto simp: compileFile_def guardFile_def CompileEgress_def newRuleSet_def newRuleSetWithHostIndex_def split: sum.splits)
qed

lemma guard_resolver: "en_LookupNetIP guardEnv t name = Inr ips \<Longrightarrow> list_all wfAddr ips"
proof -
  have "wfAddr (v4Addr [192, 0, 2, 1])" by code_simp
  then show "en_LookupNetIP guardEnv t name = Inr ips \<Longrightarrow> list_all wfAddr ips" by (auto simp: guardEnv_def labEnv_def)
qed



end
